(* ===== verification/C11_Prelude.thy ===== *)
theory C11_Prelude
  imports Main "HOL-Library.Word"
begin

text \<open>
  The parts of C++ that every component of the repository uses, and the automation the
  component theories share.

  A statement of the program is an action: a function from the state to a result and the
  next state, where the result is a value or the fault that left the statement
  (\<open>act\<close>). The state survives a fault, because a C++ exception does not undo what
  was done before it was thrown. \<open>bindE\<close> is sequencing, \<open>tryE\<close> is
  \<open>catch (std::runtime_error)\<close>, \<open>unwind\<close> is the cleanup that stack unwinding
  performs, \<open>for_each\<close> is a loop over a sequence.

  Reasoning about actions goes through \<open>wp\<close>, the weakest precondition of an action
  for a normal and a faulting postcondition; the collection \<open>wp_simps\<close> computes it.
\<close>

section \<open>Faults\<close>

text \<open>
  What can leave a statement of the program abnormally: a \<open>std::runtime_error\<close> with
  its message, a \<open>std::future_error\<close> with its code (a logic error, so no handler for
  runtime errors catches it), a call of \<open>std::terminate\<close>, or undefined behaviour,
  which no handler catches and after which nothing is known.
\<close>

datatype future_errc = Promise_already_satisfied | Future_already_retrieved

datatype fault =
    Runtime_error string
  | Future_error future_errc
  | Std_terminate
  | Undefined_behaviour string

type_synonym bytes = "char list"

type_synonym addr = nat

text \<open>The null pointer; \<open>new\<close> never returns it.\<close>

definition null :: addr where
  "null = 0"

section \<open>Actions\<close>

type_synonym ('s, 'a) act = "'s \<Rightarrow> (fault + 'a) \<times> 's"

definition ret :: "'a \<Rightarrow> ('s, 'a) act" where
  "ret x s = (Inr x, s)"

definition throw :: "fault \<Rightarrow> ('s, 'a) act" where
  "throw e s = (Inl e, s)"

definition bindE :: "('s, 'a) act \<Rightarrow> ('a \<Rightarrow> ('s, 'b) act) \<Rightarrow> ('s, 'b) act" where
  "bindE m f s = (case m s of (Inl e, s') \<Rightarrow> (Inl e, s') | (Inr x, s') \<Rightarrow> f x s')"

definition seqE :: "('s, 'a) act \<Rightarrow> ('s, 'b) act \<Rightarrow> ('s, 'b) act" where
  "seqE m n = bindE m (\<lambda>_. n)"

definition gets :: "('s \<Rightarrow> 'a) \<Rightarrow> ('s, 'a) act" where
  "gets f s = (Inr (f s), s)"

definition modify :: "('s \<Rightarrow> 's) \<Rightarrow> ('s, unit) act" where
  "modify f s = (Inr (), f s)"

definition tryE :: "('s, 'a) act \<Rightarrow> (string \<Rightarrow> ('s, 'a) act) \<Rightarrow> ('s, 'a) act" where
  "tryE m h s = (case m s of (Inl (Runtime_error w), s') \<Rightarrow> h w s' | r \<Rightarrow> r)"

definition unwind :: "('s, 'a) act \<Rightarrow> ('s \<Rightarrow> 's) \<Rightarrow> ('s, 'a) act" where
  "unwind m c s = (case m s of (Inl e, s') \<Rightarrow> (Inl e, c s') | r \<Rightarrow> r)"

text \<open>
  Unwinding that runs destructors: \<open>h\<close> runs where \<open>m\<close> throws, then the exception goes on.
  A destructor that throws while an exception is on its way terminates.
\<close>

definition cleanupE :: "('s, 'a) act \<Rightarrow> ('s, unit) act \<Rightarrow> ('s, 'a) act" where
  "cleanupE m h s =
     (case m s of
        (Inl (Runtime_error w), s') \<Rightarrow>
          (case h s' of
             (Inr _, s'') \<Rightarrow> (Inl (Runtime_error w), s'')
           | (Inl (Undefined_behaviour u), s'') \<Rightarrow> (Inl (Undefined_behaviour u), s'')
           | (Inl _, s'') \<Rightarrow> (Inl Std_terminate, s''))
      | r \<Rightarrow> r)"

text \<open>A function that must not throw, such as a destructor: an exception terminates.\<close>

definition noexceptE :: "('s, 'a) act \<Rightarrow> ('s, 'a) act" where
  "noexceptE m s =
     (case m s of
        (Inl (Undefined_behaviour u), s') \<Rightarrow> (Inl (Undefined_behaviour u), s')
      | (Inl _, s') \<Rightarrow> (Inl Std_terminate, s')
      | r \<Rightarrow> r)"

definition skip :: "('s, unit) act" where
  "skip = ret ()"

definition whenE :: "bool \<Rightarrow> ('s, unit) act \<Rightarrow> ('s, unit) act" where
  "whenE b m = (if b then m else skip)"

primrec for_each :: "('x \<Rightarrow> ('s, unit) act) \<Rightarrow> 'x list \<Rightarrow> ('s, unit) act" where
  "for_each f [] = skip"
| "for_each f (x # xs) = seqE (f x) (for_each f xs)"

text \<open>Symbolic execution: a statement whose result is known lets the next one run.\<close>

named_theorems act_simps \<open>equations that run an action on a state\<close>

lemma ret_run [act_simps]: "ret x s = (Inr x, s)"
  by (simp add: ret_def)

lemma throw_run [act_simps]: "throw e s = (Inl e, s)"
  by (simp add: throw_def)

lemma gets_run [act_simps]: "gets f s = (Inr (f s), s)"
  by (simp add: gets_def)

lemma modify_run [act_simps]: "modify f s = (Inr (), f s)"
  by (simp add: modify_def)

lemma skip_run [act_simps]: "skip s = (Inr (), s)"
  by (simp add: skip_def ret_def)

lemma bindE_run [act_simps]:
  "m s = (Inr x, s') \<Longrightarrow> bindE m f s = f x s'"
  "m s = (Inl e, s') \<Longrightarrow> bindE m f s = (Inl e, s')"
  by (simp_all add: bindE_def)

lemma seqE_run [act_simps]:
  "m s = (Inr x, s') \<Longrightarrow> seqE m n s = n s'"
  "m s = (Inl e, s') \<Longrightarrow> seqE m n s = (Inl e, s')"
  by (simp_all add: seqE_def bindE_def)

lemma whenE_run [act_simps]: "whenE b m s = (if b then m s else (Inr (), s))"
  by (simp add: whenE_def skip_run)

lemma tryE_run [act_simps]:
  "m s = (Inr x, s') \<Longrightarrow> tryE m h s = (Inr x, s')"
  "m s = (Inl (Runtime_error w), s') \<Longrightarrow> tryE m h s = h w s'"
  "m s = (Inl (Future_error c), s') \<Longrightarrow> tryE m h s = (Inl (Future_error c), s')"
  "m s = (Inl Std_terminate, s') \<Longrightarrow> tryE m h s = (Inl Std_terminate, s')"
  "m s = (Inl (Undefined_behaviour u), s') \<Longrightarrow> tryE m h s = (Inl (Undefined_behaviour u), s')"
  by (simp_all add: tryE_def)

lemma unwind_run [act_simps]:
  "m s = (Inr x, s') \<Longrightarrow> unwind m c s = (Inr x, s')"
  "m s = (Inl e, s') \<Longrightarrow> unwind m c s = (Inl e, c s')"
  by (simp_all add: unwind_def)

lemma cleanupE_run [act_simps]:
  "m s = (Inr x, s') \<Longrightarrow> cleanupE m h s = (Inr x, s')"
  "m s = (Inl (Runtime_error w), s') \<Longrightarrow> h s' = (Inr (), s'') \<Longrightarrow>
     cleanupE m h s = (Inl (Runtime_error w), s'')"
  "m s = (Inl (Runtime_error w), s') \<Longrightarrow> h s' = (Inl (Undefined_behaviour u), s'') \<Longrightarrow>
     cleanupE m h s = (Inl (Undefined_behaviour u), s'')"
  "m s = (Inl (Undefined_behaviour u), s') \<Longrightarrow> cleanupE m h s = (Inl (Undefined_behaviour u), s')"
  by (simp_all add: cleanupE_def)

lemma noexceptE_run [act_simps]:
  "m s = (Inr x, s') \<Longrightarrow> noexceptE m s = (Inr x, s')"
  "m s = (Inl (Runtime_error w), s') \<Longrightarrow> noexceptE m s = (Inl Std_terminate, s')"
  by (simp_all add: noexceptE_def)

section \<open>Weakest preconditions\<close>

definition wp :: "('s, 'a) act \<Rightarrow> ('a \<Rightarrow> 's \<Rightarrow> bool) \<Rightarrow> (fault \<Rightarrow> 's \<Rightarrow> bool) \<Rightarrow> 's \<Rightarrow> bool" where
  "wp m Q E s = (case m s of (Inr x, s') \<Rightarrow> Q x s' | (Inl e, s') \<Rightarrow> E e s')"

named_theorems wp_simps \<open>weakest preconditions of the statement forms\<close>

lemma wp_ret [wp_simps]: "wp (ret x) Q E s = Q x s"
  by (simp add: wp_def ret_def)

lemma wp_throw [wp_simps]: "wp (throw e) Q E s = E e s"
  by (simp add: wp_def throw_def)

lemma wp_gets [wp_simps]: "wp (gets f) Q E s = Q (f s) s"
  by (simp add: wp_def gets_def)

lemma wp_modify [wp_simps]: "wp (modify f) Q E s = Q () (f s)"
  by (simp add: wp_def modify_def)

lemma wp_skip [wp_simps]: "wp skip Q E s = Q () s"
  by (simp add: skip_def wp_ret)

lemma wp_bindE [wp_simps]: "wp (bindE m f) Q E s = wp m (\<lambda>x. wp (f x) Q E) E s"
  by (simp add: wp_def bindE_def split: prod.splits sum.splits)

lemma wp_seqE [wp_simps]: "wp (seqE m n) Q E s = wp m (\<lambda>_. wp n Q E) E s"
  by (simp add: seqE_def wp_bindE)

lemma wp_whenE [wp_simps]: "wp (whenE b m) Q E s = (if b then wp m Q E s else Q () s)"
  by (simp add: whenE_def wp_skip)

lemma wp_if [wp_simps]: "wp (if b then m else n) Q E s = (if b then wp m Q E s else wp n Q E s)"
  by simp

lemma wp_tryE [wp_simps]:
  "wp (tryE m h) Q E s =
     wp m Q (\<lambda>e s'. case e of Runtime_error w \<Rightarrow> wp (h w) Q E s' | _ \<Rightarrow> E e s') s"
  by (simp add: wp_def tryE_def split: prod.splits sum.splits fault.splits)

lemma wp_unwind [wp_simps]: "wp (unwind m c) Q E s = wp m Q (\<lambda>e s'. E e (c s')) s"
  by (simp add: wp_def unwind_def split: prod.splits sum.splits)

lemma wp_cleanupE [wp_simps]:
  "wp (cleanupE m h) Q E s =
     wp m Q (\<lambda>e s'. case e of
        Runtime_error w \<Rightarrow>
          wp h (\<lambda>_. E (Runtime_error w))
            (\<lambda>e'. E (case e' of Undefined_behaviour u \<Rightarrow> e' | _ \<Rightarrow> Std_terminate)) s'
      | _ \<Rightarrow> E e s') s"
  by (simp add: wp_def cleanupE_def split: prod.splits sum.splits fault.splits)

lemma wp_mono:
  assumes "wp m Q E s"
    and "\<And>x s'. Q x s' \<Longrightarrow> Q' x s'"
    and "\<And>e s'. E e s' \<Longrightarrow> E' e s'"
  shows "wp m Q' E' s"
  using assms by (auto simp: wp_def split: prod.splits sum.splits)

lemma wp_conj:
  assumes "wp m Q E s" and "wp m Q' E' s"
  shows "wp m (\<lambda>x s'. Q x s' \<and> Q' x s') (\<lambda>e s'. E e s' \<and> E' e s') s"
  using assms by (auto simp: wp_def split: prod.splits sum.splits)

lemma wp_for_each:
  assumes "I s"
    and "\<And>x s. x \<in> set xs \<Longrightarrow> I s \<Longrightarrow> wp (f x) (\<lambda>_. I) E s"
  shows "wp (for_each f xs) (\<lambda>_. I) E s"
  using assms
proof (induction xs arbitrary: s)
  case Nil
  then show ?case by (simp add: wp_simps)
next
  case (Cons x xs)
  then have "wp (f x) (\<lambda>_. I) E s" by simp
  then show ?case
    unfolding for_each.simps wp_seqE
    by (rule wp_mono) (use Cons in auto)
qed

lemma wp_for_each_append:
  "wp (for_each f (xs @ ys)) Q E s = wp (for_each f xs) (\<lambda>_. wp (for_each f ys) Q E) E s"
proof (induction xs arbitrary: s)
  case (Cons x xs)
  then have "wp (for_each f (xs @ ys)) Q E = wp (for_each f xs) (\<lambda>_. wp (for_each f ys) Q E) E"
    by (simp add: fun_eq_iff)
  then show ?case by (simp add: wp_seqE)
qed (simp add: wp_simps)

text \<open>A loop over an interval, with an invariant that knows the position.\<close>

lemma wp_for_each_upto:
  assumes "\<And>i s. lo \<le> i \<Longrightarrow> i \<le> hi \<Longrightarrow> J i s \<Longrightarrow> wp (f i) (\<lambda>_. J (i + 1)) E s"
    and "J lo s"
  shows "wp (for_each f [lo..hi]) (\<lambda>_ s'. \<exists>i. J i s') E s"
  using assms
proof (induction lo hi arbitrary: s rule: upto.induct)
  case (1 lo hi)
  show ?case
  proof (cases "lo \<le> hi")
    case True
    have "wp (f lo) (\<lambda>_. J (lo + 1)) E s" using 1 True by simp
    then have "wp (f lo) (\<lambda>_ s'. wp (for_each f [lo + 1..hi]) (\<lambda>_ s'. \<exists>i. J i s') E s') E s"
      by (rule wp_mono) (use 1 True in auto)
    then show ?thesis using True by (simp add: upto_rec1 wp_seqE)
  next
    case False
    then show ?thesis using 1 by (auto simp: wp_skip)
  qed
qed

lemma wp_normalD: "wp m Q E s \<Longrightarrow> m s = (Inr x, s') \<Longrightarrow> Q x s'"
  by (simp add: wp_def)

lemma wp_faultD: "wp m Q E s \<Longrightarrow> m s = (Inl e, s') \<Longrightarrow> E e s'"
  by (simp add: wp_def)

lemma wpI:
  assumes "\<And>x s'. m s = (Inr x, s') \<Longrightarrow> Q x s'"
    and "\<And>e s'. m s = (Inl e, s') \<Longrightarrow> E e s'"
  shows "wp m Q E s"
  using assms by (auto simp: wp_def split: prod.splits sum.splits)

lemma wp_run:
  "m s = (Inr x, s') \<Longrightarrow> wp m Q E s = Q x s'"
  "m s = (Inl e, s') \<Longrightarrow> wp m Q E s = E e s'"
  by (simp_all add: wp_def)

text \<open>
  A predicate that holds before an action holds after it, also where the action throws a
  runtime error; the flag says whether the action may instead end in undefined behaviour,
  after which nothing is claimed.
\<close>

definition after_fault :: "bool \<Rightarrow> ('s \<Rightarrow> bool) \<Rightarrow> fault \<Rightarrow> 's \<Rightarrow> bool" where
  "after_fault ub I e s =
     (case e of Runtime_error _ \<Rightarrow> I s | Undefined_behaviour _ \<Rightarrow> ub | _ \<Rightarrow> False)"

lemma after_fault_simps [simp]:
  "after_fault ub I (Runtime_error w) s = I s"
  "after_fault ub I (Undefined_behaviour u) s = ub"
  "after_fault ub I (Future_error c) s = False"
  "after_fault ub I Std_terminate s = False"
  by (simp_all add: after_fault_def)

definition keeps :: "bool \<Rightarrow> ('s \<Rightarrow> bool) \<Rightarrow> ('s, 'a) act \<Rightarrow> bool" where
  "keeps ub I m \<longleftrightarrow> (\<forall>s. I s \<longrightarrow> wp m (\<lambda>_. I) (after_fault ub I) s)"

lemma keepsI: "(\<And>s. I s \<Longrightarrow> wp m (\<lambda>_. I) (after_fault ub I) s) \<Longrightarrow> keeps ub I m"
  by (simp add: keeps_def)

lemma keeps_wp: "keeps ub I m \<Longrightarrow> I s \<Longrightarrow> wp m (\<lambda>_. I) (after_fault ub I) s"
  by (simp add: keeps_def)

lemma keeps_normalD: "keeps ub I m \<Longrightarrow> I s \<Longrightarrow> m s = (Inr x, s') \<Longrightarrow> I s'"
  by (auto simp: keeps_def wp_def)

lemma keeps_faultD: "keeps ub I m \<Longrightarrow> I s \<Longrightarrow> m s = (Inl e, s') \<Longrightarrow> after_fault ub I e s'"
  by (auto simp: keeps_def wp_def)

named_theorems keeps_intros \<open>preservation through the statement forms\<close>

lemma keeps_ret [keeps_intros]: "keeps ub I (ret x)"
  by (simp add: keeps_def wp_simps)

lemma keeps_throw_runtime [keeps_intros]: "keeps ub I (throw (Runtime_error w))"
  by (simp add: keeps_def wp_simps)

lemma keeps_throw_undefined [keeps_intros]: "keeps True I (throw (Undefined_behaviour u))"
  by (simp add: keeps_def wp_simps)

lemma keeps_gets [keeps_intros]: "keeps ub I (gets f)"
  by (simp add: keeps_def wp_simps)

lemma keeps_skip [keeps_intros]: "keeps ub I skip"
  by (simp add: keeps_def wp_simps)

lemma keeps_modify [keeps_intros]: "(\<And>s. I s \<Longrightarrow> I (f s)) \<Longrightarrow> keeps ub I (modify f)"
  by (simp add: keeps_def wp_simps)

lemma keeps_bindE [keeps_intros]:
  assumes "keeps ub I m" and "\<And>x. keeps ub I (f x)"
  shows "keeps ub I (bindE m f)"
proof (rule keepsI)
  fix s
  assume "I s"
  with assms(1) have "wp m (\<lambda>_. I) (after_fault ub I) s" by (rule keeps_wp)
  then show "wp (bindE m f) (\<lambda>_. I) (after_fault ub I) s"
    unfolding wp_bindE by (rule wp_mono) (use assms(2) in \<open>auto simp: keeps_def\<close>)
qed

lemma keeps_seqE [keeps_intros]: "keeps ub I m \<Longrightarrow> keeps ub I n \<Longrightarrow> keeps ub I (seqE m n)"
  by (simp add: seqE_def keeps_bindE)

lemma keeps_if [keeps_intros]:
  "(b \<Longrightarrow> keeps ub I m) \<Longrightarrow> (\<not> b \<Longrightarrow> keeps ub I n) \<Longrightarrow> keeps ub I (if b then m else n)"
  by simp

lemma keeps_whenE [keeps_intros]: "(b \<Longrightarrow> keeps ub I m) \<Longrightarrow> keeps ub I (whenE b m)"
  by (simp add: whenE_def keeps_skip)

lemma keeps_tryE [keeps_intros]:
  assumes "keeps ub I m" and "\<And>w. keeps ub I (h w)"
  shows "keeps ub I (tryE m h)"
proof (rule keepsI)
  fix s
  assume "I s"
  with assms(1) have "wp m (\<lambda>_. I) (after_fault ub I) s" by (rule keeps_wp)
  then show "wp (tryE m h) (\<lambda>_. I) (after_fault ub I) s"
    unfolding wp_tryE
    by (rule wp_mono) (use assms(2) in \<open>auto simp: keeps_def split: fault.splits\<close>)
qed

lemma keeps_for_each [keeps_intros]:
  "(\<And>x. x \<in> set xs \<Longrightarrow> keeps ub I (f x)) \<Longrightarrow> keeps ub I (for_each f xs)"
  by (induction xs) (auto intro: keeps_intros)

lemma keeps_option [keeps_intros]:
  "(x = None \<Longrightarrow> keeps ub I m) \<Longrightarrow> (\<And>y. x = Some y \<Longrightarrow> keeps ub I (f y)) \<Longrightarrow>
     keeps ub I (case x of None \<Rightarrow> m | Some y \<Rightarrow> f y)"
  by (cases x) auto

lemma keeps_list [keeps_intros]:
  "(x = [] \<Longrightarrow> keeps ub I m) \<Longrightarrow> (\<And>y ys. x = y # ys \<Longrightarrow> keeps ub I (f y ys)) \<Longrightarrow>
     keeps ub I (case x of [] \<Rightarrow> m | y # ys \<Rightarrow> f y ys)"
  by (cases x) auto

lemma keeps_prod [keeps_intros]:
  "(\<And>a b. x = (a, b) \<Longrightarrow> keeps ub I (f a b)) \<Longrightarrow> keeps ub I (case x of (a, b) \<Rightarrow> f a b)"
  by (cases x) auto

lemma keeps_unwind:
  assumes "keeps ub I m" and "\<And>s. I s \<Longrightarrow> I (c s)"
  shows "keeps ub I (unwind m c)"
proof (rule keepsI)
  fix s
  assume "I s"
  with assms(1) have "wp m (\<lambda>_. I) (after_fault ub I) s" by (rule keeps_wp)
  then show "wp (unwind m c) (\<lambda>_. I) (after_fault ub I) s"
    unfolding wp_unwind by (rule wp_mono) (auto simp: after_fault_def assms(2) split: fault.splits)
qed

section \<open>Programs as steps\<close>

text \<open>
  A thread that other threads may interrupt is a step function over its program points.
  \<open>run_steps f n pc\<close> takes \<open>n\<close> steps from \<open>pc\<close>, without interruption.
\<close>

primrec run_steps :: "('pc \<Rightarrow> ('s, 'pc) act) \<Rightarrow> nat \<Rightarrow> 'pc \<Rightarrow> ('s, 'pc) act" where
  "run_steps f 0 pc = ret pc"
| "run_steps f (Suc n) pc = bindE (f pc) (run_steps f n)"

lemma bindE_assoc: "bindE (bindE m f) g = bindE m (\<lambda>x. bindE (f x) g)"
  by (rule ext) (simp add: bindE_def split: prod.splits sum.splits)

lemma ret_bindE: "bindE (ret x) f = f x"
  by (rule ext) (simp add: bindE_def ret_def)

lemma run_steps_add: "run_steps f (m + n) pc = bindE (run_steps f m pc) (run_steps f n)"
proof (induction m arbitrary: pc)
  case (Suc m)
  then have "run_steps f (m + n) = (\<lambda>pc. bindE (run_steps f m pc) (run_steps f n))" by (rule ext)
  then show ?case by (simp add: bindE_assoc)
qed (simp add: ret_bindE)

lemma run_steps_then:
  assumes "run_steps f n pc s = bindE m (\<lambda>x. ret (g x)) s"
    and "\<And>x t. m s = (Inr x, t) \<Longrightarrow> \<exists>k. run_steps f k (g x) t = h x t"
  shows "\<exists>k. run_steps f k pc s = bindE m h s"
proof (cases "m s")
  case (Pair r t)
  show ?thesis
  proof (cases r)
    case (Inl e)
    then show ?thesis using assms(1) Pair by (intro exI [of _ n]) (simp add: bindE_def)
  next
    case (Inr x)
    then obtain k where "run_steps f k (g x) t = h x t" using assms(2) Pair by blast
    then show ?thesis
      using assms(1) Pair Inr
      by (intro exI [of _ "n + k"]) (simp add: run_steps_add bindE_def ret_def)
  qed
qed

section \<open>Sequences of the standard library\<close>

text \<open>
  \<open>std::remove_if\<close> over a buffer, as its loop: \<open>first\<close> runs over the buffer and
  every kept element is assigned to the slot \<open>result\<close>. It returns the buffer and the
  new logical end. For pointers the assignment is a copy, so the slots from the new end on
  keep what was in them.
\<close>

function remove_if_loop :: "('a \<Rightarrow> bool) \<Rightarrow> 'a list \<Rightarrow> nat \<Rightarrow> nat \<Rightarrow> 'a list \<times> nat" where
  "remove_if_loop P xs result first =
     (if first < length xs
      then if P (xs ! first) then remove_if_loop P xs result (Suc first)
           else remove_if_loop P (xs[result := xs ! first]) (Suc result) (Suc first)
      else (xs, result))"
  by pat_completeness auto
termination
  by (relation "measure (\<lambda>(P, xs, result, first). length xs - first)") auto

declare remove_if_loop.simps [simp del]

definition std_remove_if :: "('a \<Rightarrow> bool) \<Rightarrow> 'a list \<Rightarrow> 'a list \<times> nat" where
  "std_remove_if P xs = remove_if_loop P xs 0 0"

lemma remove_if_loop_eq:
  assumes "result \<le> first" and "first \<le> length xs"
  shows "remove_if_loop P xs result first =
    (let kept = take result xs @ filter (\<lambda>x. \<not> P x) (drop first xs)
     in (kept @ drop (length kept) xs, length kept))"
  using assms
proof (induction P xs result first rule: remove_if_loop.induct)
  case (1 P xs result first)
  show ?case
  proof (cases "first < length xs")
    case False
    with "1.prems" show ?thesis
      by (subst remove_if_loop.simps) (simp add: Let_def)
  next
    case True
    then have drop: "drop first xs = xs ! first # drop (Suc first) xs"
      by (simp add: Cons_nth_drop_Suc)
    show ?thesis
    proof (cases "P (xs ! first)")
      case P: True
      with "1.IH"(1) [OF True P] "1.prems" True show ?thesis
        by (simp add: remove_if_loop.simps [of P xs result first] drop)
    next
      case P: False
      let ?ys = "xs[result := xs ! first]"
      have IH: "remove_if_loop P ?ys (Suc result) (Suc first) =
        (let kept = take (Suc result) ?ys @ filter (\<lambda>x. \<not> P x) (drop (Suc first) ?ys)
         in (kept @ drop (length kept) ?ys, length kept))"
        using "1.IH"(2) [OF True P] "1.prems" True by simp
      have "take (Suc result) ?ys = take result xs @ [xs ! first]"
        using "1.prems" True by (simp add: take_Suc_conv_app_nth)
      then show ?thesis
        using "1.prems" True P
        by (simp add: remove_if_loop.simps [of P xs result first] IH drop Let_def)
    qed
  qed
qed

lemma std_remove_if_eq:
  "std_remove_if P xs =
     (filter (\<lambda>x. \<not> P x) xs @ drop (length (filter (\<lambda>x. \<not> P x) xs)) xs,
      length (filter (\<lambda>x. \<not> P x) xs))"
  by (simp add: std_remove_if_def remove_if_loop_eq Let_def)

text \<open>\<open>vector::insert(begin(), first, last)\<close> puts the new elements in front.\<close>

definition vector_insert_begin :: "'a list \<Rightarrow> 'a list \<Rightarrow> 'a list" where
  "vector_insert_begin v xs = xs @ v"

section \<open>Numbers in messages\<close>

text \<open>The decimal text that \<open>operator<<\<close> writes for a number.\<close>

fun show_nat :: "nat \<Rightarrow> string" where
  "show_nat n =
     (if n < 10 then [char_of (48 + n)] else show_nat (n div 10) @ [char_of (48 + n mod 10)])"

declare show_nat.simps [simp del]

definition show_int :: "int \<Rightarrow> string" where
  "show_int i = (if i < 0 then CHR ''-'' # show_nat (nat (- i)) else show_nat (nat i))"

section \<open>Lists and maps\<close>

lemma filter_neq_distinct_last:
  "distinct (xs @ [x]) \<Longrightarrow> filter (\<lambda>y. y \<noteq> x) (xs @ [x]) = xs"
  by (auto intro: filter_True)

lemma length_filter_neq_distinct:
  assumes "distinct xs" and "x \<in> set xs"
  shows "length (filter (\<lambda>y. y \<noteq> x) xs) = length xs - 1"
proof -
  have "filter (\<lambda>y. y \<noteq> x) xs = removeAll x xs"
    by (induction xs) auto
  with assms show ?thesis
    by (simp add: distinct_remove1_removeAll [symmetric] length_remove1)
qed

lemma find_Some_mem: "find P xs = Some x \<Longrightarrow> x \<in> set xs \<and> P x"
  by (auto simp: find_Some_iff)

lemma upt_split_at: "i < n \<Longrightarrow> [0..<n] = [0..<i] @ i # [Suc i..<n]"
  using upt_add_eq_append [of 0 i "n - i"] by (simp add: upt_conv_Cons)

end
