(* ===== verification/Http_Objects.thy ===== *)
theory Http_Objects
  imports C11_Prelude
begin

text \<open>
  The value objects of \<open>objects/\<close>: the request with its method and body, the
  response with its body, and the function type that maps the one to the other.
\<close>

section \<open>HttpRequest\<close>

datatype HttpMethod = GET | POST | PUT | DELETE

text \<open>The value of the enumerator, which orders the methods.\<close>

fun method_value :: "HttpMethod \<Rightarrow> nat" where
  "method_value GET = 0"
| "method_value POST = 1"
| "method_value PUT = 2"
| "method_value DELETE = 3"

lemma method_value_inject: "method_value a = method_value b \<longleftrightarrow> a = b"
  by (cases a; cases b) auto

instantiation HttpMethod :: linorder
begin

definition less_eq_HttpMethod :: "HttpMethod \<Rightarrow> HttpMethod \<Rightarrow> bool" where
  "less_eq_HttpMethod a b \<longleftrightarrow> method_value a \<le> method_value b"

definition less_HttpMethod :: "HttpMethod \<Rightarrow> HttpMethod \<Rightarrow> bool" where
  "less_HttpMethod a b \<longleftrightarrow> method_value a < method_value b"

instance
  by standard
    (auto simp: less_eq_HttpMethod_def less_HttpMethod_def method_value_inject
      dest: order_antisym)

end

record HttpRequest =
  mReqMethod :: HttpMethod
  mReqBody :: bytes

definition HttpRequest_new :: "HttpMethod \<Rightarrow> bytes \<Rightarrow> HttpRequest" where
  "HttpRequest_new reqMethod body = \<lparr>mReqMethod = reqMethod, mReqBody = body\<rparr>"

text \<open>The constructor call without arguments takes the declared defaults.\<close>

definition HttpRequest_default :: HttpRequest where
  "HttpRequest_default = HttpRequest_new GET []"

definition HttpRequest_getRequestMethod :: "HttpRequest \<Rightarrow> HttpMethod" where
  "HttpRequest_getRequestMethod r = mReqMethod r"

definition HttpRequest_getBody :: "HttpRequest \<Rightarrow> bytes" where
  "HttpRequest_getBody r = mReqBody r"

section \<open>HttpResponse\<close>

record HttpResponse =
  mRespBody :: bytes

definition HttpResponse_new :: "bytes \<Rightarrow> HttpResponse" where
  "HttpResponse_new body = \<lparr>mRespBody = body\<rparr>"

definition HttpResponse_default :: HttpResponse where
  "HttpResponse_default = HttpResponse_new []"

definition HttpResponse_getBody :: "HttpResponse \<Rightarrow> bytes" where
  "HttpResponse_getBody r = mRespBody r"

lemma HttpRequest_accessors [simp]:
  "HttpRequest_getRequestMethod (HttpRequest_new m b) = m"
  "HttpRequest_getBody (HttpRequest_new m b) = b"
  by (simp_all add: HttpRequest_new_def HttpRequest_getRequestMethod_def HttpRequest_getBody_def)

lemma HttpResponse_accessors [simp]:
  "HttpResponse_getBody (HttpResponse_new b) = b"
  by (simp add: HttpResponse_new_def HttpResponse_getBody_def)

end
