(* ===== verification/Workers.thy ===== *)
theory Workers
  imports Http_Objects
begin

text \<open>
  \<open>workers/Worker\<close>: one worker thread, the promise through which it is handed its
  work, and the destructor that tells it to stop. The promise is modelled after the
  standard: it is satisfied once and its future is retrieved once; a second attempt is a
  \<open>std::future_error\<close>. The thread function is a step function over the program points of its
  loop; \<open>worker_step\<close> interleaves it with the calls other threads make.
\<close>

section \<open>std::promise\<close>

record 'v promise =
  pr_value :: "'v option"
  pr_retrieved :: bool

definition promise_new :: "'v promise" where
  "promise_new = \<lparr>pr_value = None, pr_retrieved = False\<rparr>"

definition promise_set_value :: "'v \<Rightarrow> ('v promise, unit) act" where
  "promise_set_value v p =
     (case pr_value p of
        Some _ \<Rightarrow> (Inl (Future_error Promise_already_satisfied), p)
      | None \<Rightarrow> (Inr (), p\<lparr>pr_value := Some v\<rparr>))"

definition promise_get_future :: "('v promise, unit) act" where
  "promise_get_future p =
     (if pr_retrieved p then (Inl (Future_error Future_already_retrieved), p)
      else (Inr (), p\<lparr>pr_retrieved := True\<rparr>))"

section \<open>Work\<close>

text \<open>
  A function object handed to a worker: one the user provides, which computes a response or
  throws (\<open>None\<close>, which is also what calling an empty function object comes to), or the one
  the destructor of the worker builds, which sets the shutdown flag.
\<close>

datatype HttpRequestToResponse =
    User_function "HttpRequest \<Rightarrow> HttpResponse option"
  | Set_shutdown

type_synonym Work = "HttpRequest \<times> HttpRequestToResponse"

section \<open>The worker and its thread\<close>

text \<open>
  Program points of \<open>threadEntryPoint\<close>: before the loop test, waiting on the future,
  about to call the function, after the loop; \<open>Crashed\<close> when a fault leaves the thread
  function.
\<close>

datatype thread_pc = At_test | At_wait | At_call Work | Finished | Crashed fault

datatype life = Alive | Destroying | Freed

record worker =
  mPromiseToWork :: "Work promise"
  mShutdown :: bool
  w_life :: life
  w_pc :: thread_pc
  w_executed :: "(HttpRequest \<times> HttpResponse) list"

text \<open>
  The constructor has an empty body, so the flag keeps the value \<open>indet\<close> its memory had.
\<close>

definition Worker_new :: "bool \<Rightarrow> worker" where
  "Worker_new indet =
     \<lparr>mPromiseToWork = promise_new, mShutdown = indet, w_life = Alive, w_pc = At_test,
      w_executed = []\<rparr>"

definition Worker_provideWork :: "Work \<Rightarrow> (worker, unit) act" where
  "Worker_provideWork work w =
     (case promise_set_value work (mPromiseToWork w) of
        (r, p) \<Rightarrow> (r, w\<lparr>mPromiseToWork := p\<rparr>))"

text \<open>
  The destructor sets the promise to the shutdown function. A destructor does not let
  exceptions out: a fault of \<open>set_value\<close> ends the program.
\<close>

definition Worker_shutdown_work :: Work where
  "Worker_shutdown_work = (HttpRequest_default, Set_shutdown)"

definition Worker_destructor :: "(worker, unit) act" where
  "Worker_destructor w =
     (case Worker_provideWork Worker_shutdown_work w of
        (Inr _, w') \<Rightarrow> (Inr (), w'\<lparr>w_life := Destroying\<rparr>)
      | (Inl _, w') \<Rightarrow> (Inl Std_terminate, w'))"

definition call_function :: "Work \<Rightarrow> worker \<Rightarrow> worker" where
  "call_function work w =
     (case work of
        (r, User_function f) \<Rightarrow>
          (case f r of
             None \<Rightarrow> w\<lparr>w_pc := Crashed Std_terminate\<rparr>
           | Some resp \<Rightarrow> w\<lparr>w_executed := w_executed w @ [(r, resp)], w_pc := At_test\<rparr>)
      | (_, Set_shutdown) \<Rightarrow>
          if w_life w = Freed
          then w\<lparr>w_pc := Crashed (Undefined_behaviour ''write to a destroyed Worker'')\<rparr>
          else w\<lparr>mShutdown := True, w_pc := At_test\<rparr>)"

text \<open>One step of the thread function; \<open>None\<close> when it is blocked or over.\<close>

fun Worker_thread_step :: "worker \<Rightarrow> worker option" where
  "Worker_thread_step w =
     (case w_pc w of
        At_test \<Rightarrow>
          if w_life w = Freed
          then Some (w\<lparr>w_pc := Crashed (Undefined_behaviour ''read of a destroyed Worker'')\<rparr>)
          else if mShutdown w then Some (w\<lparr>w_pc := Finished\<rparr>)
          else (case promise_get_future (mPromiseToWork w) of
                  (Inl _, _) \<Rightarrow> Some (w\<lparr>w_pc := Crashed Std_terminate\<rparr>)
                | (Inr _, p) \<Rightarrow> Some (w\<lparr>mPromiseToWork := p, w_pc := At_wait\<rparr>))
      | At_wait \<Rightarrow>
          (case pr_value (mPromiseToWork w) of
             None \<Rightarrow> None
           | Some work \<Rightarrow> Some (w\<lparr>w_pc := At_call work\<rparr>))
      | At_call work \<Rightarrow> Some (call_function work w)
      | Finished \<Rightarrow> None
      | Crashed _ \<Rightarrow> None)"

declare Worker_thread_step.simps [simp del]

text \<open>
  The thread interleaved with the callers: work may be provided and the destructor may
  run while the worker lives; the memory goes when the destructor is over.
\<close>

inductive worker_step :: "worker \<Rightarrow> worker \<Rightarrow> bool" where
  thread: "Worker_thread_step w = Some w' \<Longrightarrow> worker_step w w'"
| provide: "w_life w = Alive \<Longrightarrow> worker_step w (snd (Worker_provideWork (r, User_function f) w))"
| destroy: "w_life w = Alive \<Longrightarrow> Worker_destructor w = (Inr (), w') \<Longrightarrow> worker_step w w'"
| free: "w_life w = Destroying \<Longrightarrow> worker_step w (w\<lparr>w_life := Freed\<rparr>)"

inductive worker_reach :: "bool \<Rightarrow> worker \<Rightarrow> bool" for indet where
  start: "worker_reach indet (Worker_new indet)"
| step: "worker_reach indet w \<Longrightarrow> worker_step w w' \<Longrightarrow> worker_reach indet w'"

inductive_cases worker_stepE: "worker_step w w'"

section \<open>What the thread does\<close>

lemma thread_step_eqs:
  "w_pc w = At_test \<Longrightarrow> w_life w = Freed \<Longrightarrow> Worker_thread_step w =
     Some (w\<lparr>w_pc := Crashed (Undefined_behaviour ''read of a destroyed Worker'')\<rparr>)"
  "w_pc w = At_test \<Longrightarrow> w_life w \<noteq> Freed \<Longrightarrow> mShutdown w \<Longrightarrow>
     Worker_thread_step w = Some (w\<lparr>w_pc := Finished\<rparr>)"
  "w_pc w = At_test \<Longrightarrow> w_life w \<noteq> Freed \<Longrightarrow> \<not> mShutdown w \<Longrightarrow>
     pr_retrieved (mPromiseToWork w) \<Longrightarrow>
     Worker_thread_step w = Some (w\<lparr>w_pc := Crashed Std_terminate\<rparr>)"
  "w_pc w = At_test \<Longrightarrow> w_life w \<noteq> Freed \<Longrightarrow> \<not> mShutdown w \<Longrightarrow>
     \<not> pr_retrieved (mPromiseToWork w) \<Longrightarrow> Worker_thread_step w =
     Some (w\<lparr>mPromiseToWork := (mPromiseToWork w)\<lparr>pr_retrieved := True\<rparr>, w_pc := At_wait\<rparr>)"
  "w_pc w = At_wait \<Longrightarrow> pr_value (mPromiseToWork w) = None \<Longrightarrow> Worker_thread_step w = None"
  "w_pc w = At_wait \<Longrightarrow> pr_value (mPromiseToWork w) = Some work \<Longrightarrow>
     Worker_thread_step w = Some (w\<lparr>w_pc := At_call work\<rparr>)"
  "w_pc w = At_call work \<Longrightarrow> Worker_thread_step w = Some (call_function work w)"
  "w_pc w = Finished \<Longrightarrow> Worker_thread_step w = None"
  "w_pc w = Crashed e \<Longrightarrow> Worker_thread_step w = None"
  by (simp_all add: Worker_thread_step.simps promise_get_future_def)

lemma provideWork_free:
  "pr_value (mPromiseToWork w) = None \<Longrightarrow>
   Worker_provideWork work w =
     (Inr (), w\<lparr>mPromiseToWork := (mPromiseToWork w)\<lparr>pr_value := Some work\<rparr>\<rparr>)"
  by (simp add: Worker_provideWork_def promise_set_value_def)

lemma provideWork_taken:
  "pr_value (mPromiseToWork w) \<noteq> None \<Longrightarrow>
   Worker_provideWork work w = (Inl (Future_error Promise_already_satisfied), w)"
  by (auto simp: Worker_provideWork_def promise_set_value_def)

lemma snd_provideWork:
  "snd (Worker_provideWork work w) =
     (if pr_value (mPromiseToWork w) = None
      then w\<lparr>mPromiseToWork := (mPromiseToWork w)\<lparr>pr_value := Some work\<rparr>\<rparr> else w)"
  by (simp add: provideWork_free provideWork_taken)

lemma destructor_ok_iff:
  "Worker_destructor w = (Inr (), w') \<longleftrightarrow>
     pr_value (mPromiseToWork w) = None \<and>
     w' = w\<lparr>mPromiseToWork := (mPromiseToWork w)\<lparr>pr_value := Some Worker_shutdown_work\<rparr>,
            w_life := Destroying\<rparr>"
  by (cases "pr_value (mPromiseToWork w) = None")
    (auto simp: Worker_destructor_def provideWork_free provideWork_taken)

lemma destructor_taken:
  "pr_value (mPromiseToWork w) \<noteq> None \<Longrightarrow> Worker_destructor w = (Inl Std_terminate, w)"
  by (simp add: Worker_destructor_def provideWork_taken)

text \<open>
  The invariant of the worker: it goes through four stages. Fresh, before the thread has
  taken the future; waiting, holding the future, until the promise is satisfied; after it
  ran the promised work; after it ran the shutdown function.
\<close>

definition stage_fresh :: "bool \<Rightarrow> worker \<Rightarrow> bool" where
  "stage_fresh indet w \<longleftrightarrow>
     mShutdown w = indet \<and> \<not> pr_retrieved (mPromiseToWork w) \<and> w_executed w = [] \<and>
     (w_pc w = At_test \<or> w_pc w = Finished \<or> (\<exists>e. w_pc w = Crashed e))"

definition stage_waiting :: "worker \<Rightarrow> bool" where
  "stage_waiting w \<longleftrightarrow>
     \<not> mShutdown w \<and> pr_retrieved (mPromiseToWork w) \<and> w_executed w = [] \<and>
     (w_pc w = At_wait \<or> (\<exists>e. w_pc w = Crashed e) \<or>
      (\<exists>work. w_pc w = At_call work \<and> pr_value (mPromiseToWork w) = Some work))"

definition stage_ran :: "worker \<Rightarrow> bool" where
  "stage_ran w \<longleftrightarrow>
     \<not> mShutdown w \<and> pr_retrieved (mPromiseToWork w) \<and>
     (w_pc w = At_test \<or> (\<exists>e. w_pc w = Crashed e)) \<and>
     (\<exists>r f resp. pr_value (mPromiseToWork w) = Some (r, User_function f) \<and> f r = Some resp \<and>
       w_executed w = [(r, resp)])"

definition stage_stopping :: "worker \<Rightarrow> bool" where
  "stage_stopping w \<longleftrightarrow>
     mShutdown w \<and> pr_retrieved (mPromiseToWork w) \<and> w_executed w = [] \<and>
     (w_pc w = At_test \<or> w_pc w = Finished \<or> (\<exists>e. w_pc w = Crashed e))"

definition worker_inv :: "bool \<Rightarrow> worker \<Rightarrow> bool" where
  "worker_inv indet w \<longleftrightarrow>
     stage_fresh indet w \<or> \<not> indet \<and> (stage_waiting w \<or> stage_ran w \<or> stage_stopping w)"

lemmas stage_defs = stage_fresh_def stage_waiting_def stage_ran_def stage_stopping_def

lemma worker_inv_new: "worker_inv indet (Worker_new indet)"
  by (simp add: worker_inv_def stage_fresh_def Worker_new_def promise_new_def)

lemma thread_step_fresh:
  "stage_fresh indet w \<Longrightarrow> Worker_thread_step w = Some w' \<Longrightarrow>
   stage_fresh indet w' \<or> \<not> indet \<and> stage_waiting w'"
  by (cases "w_pc w"; cases "w_life w = Freed"; cases indet)
    (auto simp: thread_step_eqs promise_get_future_def stage_fresh_def stage_waiting_def)

lemma thread_step_waiting:
  "stage_waiting w \<Longrightarrow> Worker_thread_step w = Some w' \<Longrightarrow>
   stage_waiting w' \<or> stage_ran w' \<or> stage_stopping w'"
proof -
  assume w: "stage_waiting w" and step: "Worker_thread_step w = Some w'"
  from w consider "w_pc w = At_wait" | e where "w_pc w = Crashed e"
    | r f where "w_pc w = At_call (r, f)" "pr_value (mPromiseToWork w) = Some (r, f)"
    by (auto simp: stage_waiting_def)
  then show ?thesis
  proof cases
    case 1
    with w step show ?thesis
      by (cases "pr_value (mPromiseToWork w)") (auto simp: thread_step_eqs stage_waiting_def)
  next
    case 2
    with step show ?thesis by (simp add: thread_step_eqs)
  next
    case 3
    with step have w': "w' = call_function (r, f) w" by (simp add: thread_step_eqs)
    show ?thesis
    proof (cases f)
      case (User_function g)
      with w 3 w' show ?thesis
        by (cases "g r") (simp_all add: call_function_def stage_waiting_def stage_ran_def)
    next
      case Set_shutdown
      with w 3 w' have "stage_waiting w' \<or> stage_stopping w'"
        by (cases "w_life w = Freed")
          (simp_all add: call_function_def stage_waiting_def stage_stopping_def)
      then show ?thesis by blast
    qed
  qed
qed

lemma thread_step_ran: "stage_ran w \<Longrightarrow> Worker_thread_step w = Some w' \<Longrightarrow> stage_ran w'"
  by (cases "w_pc w"; cases "w_life w = Freed")
    (auto simp: thread_step_eqs promise_get_future_def stage_ran_def)

lemma thread_step_stopping:
  "stage_stopping w \<Longrightarrow> Worker_thread_step w = Some w' \<Longrightarrow> stage_stopping w'"
  by (cases "w_pc w"; cases "w_life w = Freed")
    (auto simp: thread_step_eqs stage_stopping_def)

lemma worker_inv_thread:
  "worker_inv indet w \<Longrightarrow> Worker_thread_step w = Some w' \<Longrightarrow> worker_inv indet w'"
  unfolding worker_inv_def
  by (blast dest: thread_step_fresh thread_step_waiting thread_step_ran thread_step_stopping)

lemma worker_inv_promise:
  "worker_inv indet w \<Longrightarrow> pr_value (mPromiseToWork w) = None \<Longrightarrow>
   worker_inv indet (w\<lparr>mPromiseToWork := (mPromiseToWork w)\<lparr>pr_value := v\<rparr>\<rparr>)"
  by (auto simp: worker_inv_def stage_defs)

lemma worker_inv_life: "worker_inv indet (w\<lparr>w_life := l\<rparr>) = worker_inv indet w"
  by (simp add: worker_inv_def stage_defs)

lemma worker_inv_step: "worker_step w w' \<Longrightarrow> worker_inv indet w \<Longrightarrow> worker_inv indet w'"
  by (erule worker_stepE)
    (auto simp: snd_provideWork destructor_ok_iff worker_inv_life
      intro: worker_inv_thread worker_inv_promise)

lemma worker_reach_inv: "worker_reach indet w \<Longrightarrow> worker_inv indet w"
  by (induction rule: worker_reach.induct) (auto intro: worker_inv_new worker_inv_step)

section \<open>Properties\<close>

text \<open>
  C18 A worker runs at most one piece of work in its whole life, whatever its callers do and
  however their calls interleave with its thread: if it ran anything, it ran the one
  function its promise was satisfied with, on the request that came with it, and that
  function returned.
\<close>

theorem worker_runs_at_most_one:
  assumes "worker_reach indet w"
  shows "w_executed w = [] \<or>
    (\<exists>r f resp. pr_value (mPromiseToWork w) = Some (r, User_function f) \<and> f r = Some resp \<and>
       w_executed w = [(r, resp)])"
  using worker_reach_inv [OF assms] by (auto simp: worker_inv_def stage_defs)

text \<open>A run in which work is provided, taken and executed.\<close>

definition sample_request :: HttpRequest where
  "sample_request = HttpRequest_new POST ''ping''"

definition sample_echo :: "HttpRequest \<Rightarrow> HttpResponse option" where
  "sample_echo r = Some (HttpResponse_new (HttpRequest_getBody r))"

definition sample_ran :: worker where
  "sample_ran = (Worker_new False)
     \<lparr>mPromiseToWork :=
        \<lparr>pr_value = Some (sample_request, User_function sample_echo), pr_retrieved = True\<rparr>,
      w_executed := [(sample_request, HttpResponse_new ''ping'')]\<rparr>"

lemma sample_ran_reach: "worker_reach False sample_ran"
proof -
  let ?work = "(sample_request, User_function sample_echo)"
  let ?w1 = "snd (Worker_provideWork ?work (Worker_new False))"
  let ?w2 = "?w1\<lparr>mPromiseToWork := (mPromiseToWork ?w1)\<lparr>pr_retrieved := True\<rparr>, w_pc := At_wait\<rparr>"
  let ?w3 = "?w2\<lparr>w_pc := At_call ?work\<rparr>"
  have "worker_reach False ?w1"
    by (rule worker_reach.step [OF worker_reach.start worker_step.provide])
      (simp add: Worker_new_def)
  moreover have "worker_step ?w1 ?w2"
    by (rule worker_step.thread)
      (simp add: snd_provideWork Worker_new_def promise_new_def thread_step_eqs)
  moreover have "worker_step ?w2 ?w3"
    by (rule worker_step.thread)
      (simp add: snd_provideWork Worker_new_def promise_new_def thread_step_eqs)
  moreover have "worker_step ?w3 sample_ran"
    by (rule worker_step.thread)
      (simp add: snd_provideWork Worker_new_def promise_new_def thread_step_eqs
        call_function_def sample_ran_def sample_echo_def sample_request_def)
  ultimately show ?thesis by (blast intro: worker_reach.step)
qed

theorem worker_runs_at_most_one_witness:
  "w_executed sample_ran = [(sample_request, HttpResponse_new ''ping'')] \<and>
   (w_executed sample_ran = [] \<or>
    (\<exists>r f resp. pr_value (mPromiseToWork sample_ran) = Some (r, User_function f) \<and>
      f r = Some resp \<and> w_executed sample_ran = [(r, resp)]))"
  using worker_runs_at_most_one [OF sample_ran_reach] by (simp add: sample_ran_def)

text \<open>
  A worker that ran its work and comes back to the loop test ends the program: the second
  \<open>get_future\<close> on its promise throws a \<open>std::future_error\<close> that no handler of
  \<open>threadEntryPoint\<close> catches.
\<close>

theorem worker_second_round_terminates:
  assumes "worker_reach indet w" and "w_executed w \<noteq> []"
    and "w_pc w = At_test" and "w_life w \<noteq> Freed"
  shows "Worker_thread_step w = Some (w\<lparr>w_pc := Crashed Std_terminate\<rparr>)"
proof -
  have "stage_ran w"
    using worker_reach_inv [OF assms(1)] assms(2) by (auto simp: worker_inv_def stage_defs)
  with assms(3,4) show ?thesis by (simp add: thread_step_eqs stage_ran_def)
qed

theorem worker_second_round_terminates_witness:
  "Worker_thread_step sample_ran = Some (sample_ran\<lparr>w_pc := Crashed Std_terminate\<rparr>)"
  by (rule worker_second_round_terminates [OF sample_ran_reach])
    (simp_all add: sample_ran_def Worker_new_def)

text \<open>
  The flag the thread loops on is never initialised: where its memory happens to hold
  true, the worker never takes any work and runs nothing, in every interleaving.
\<close>

theorem worker_indeterminate_flag_starves:
  assumes "worker_reach True w"
  shows "w_executed w = [] \<and> w_pc w \<noteq> At_wait \<and> (\<forall>work. w_pc w \<noteq> At_call work)"
  using worker_reach_inv [OF assms] by (auto simp: worker_inv_def stage_fresh_def)

theorem worker_indeterminate_flag_starves_witness:
  "w_executed (Worker_new True) = [] \<and> w_pc (Worker_new True) \<noteq> At_wait \<and>
   (\<forall>work. w_pc (Worker_new True) \<noteq> At_call work)"
  by (rule worker_indeterminate_flag_starves [OF worker_reach.start])

end
