(* ===== verification/Worker_Pool.thy ===== *)
theory Worker_Pool
  imports Workers "HOL-Library.Word"
begin

text \<open>
  \<open>workers/WorkerPool\<close>: a fixed number of workers and a cursor that deals work out in
  turn. \<open>size_t\<close> is a 64-bit word and \<open>int\<close> a 32-bit one, with the conversions of
  the source written out. What the pool relies on of a worker is the locale
  \<open>worker_slot\<close>: the one place where work can be put.
\<close>

type_synonym size_t = "64 word"

type_synonym cint = "32 word"

section \<open>The pool\<close>

record 'k pool =
  mWorkers :: "'k list"
  mCurrentWorker :: size_t

text \<open>
  The constructor: a count that is not positive is refused, otherwise that many workers
  are made. \<open>mk\<close> makes one worker.
\<close>

definition WorkerPool_new :: "'k \<Rightarrow> cint \<Rightarrow> fault + 'k pool" where
  "WorkerPool_new mk nbWorkers =
     (if sint nbWorkers \<le> 0
      then Inl (Runtime_error ''Number of workers must be greater than 0'')
      else Inr \<lparr>mWorkers = replicate (nat (sint nbWorkers)) mk, mCurrentWorker = 0\<rparr>)"

text \<open>
  The critical section of \<open>addWork\<close>: the cursor is read into an \<open>int\<close> and moved to
  the next worker, back to the first one after the last.
\<close>

definition WorkerPool_next :: "'k pool \<Rightarrow> cint \<times> 'k pool" where
  "WorkerPool_next p =
     (let worker = ucast (mCurrentWorker p) :: cint;
          cur = mCurrentWorker p + 1;
          cur' = (if cur \<ge> of_nat (length (mWorkers p)) then 0 else cur)
      in (worker, p\<lparr>mCurrentWorker := cur'\<rparr>))"

text \<open>
  \<open>mWorkers[worker]->provideWork(work)\<close>: the index is converted back to \<open>size_t\<close>, an
  index past the end is undefined behaviour.
\<close>

definition WorkerPool_deliver ::
    "('w \<Rightarrow> ('k, unit) act) \<Rightarrow> cint \<Rightarrow> 'w \<Rightarrow> ('k pool, unit) act" where
  "WorkerPool_deliver provide worker work p =
     (let i = unat (scast worker :: size_t) in
      if i < length (mWorkers p)
      then (case provide work (mWorkers p ! i) of
              (r, k) \<Rightarrow> (r, p\<lparr>mWorkers := (mWorkers p)[i := k]\<rparr>))
      else (Inl (Undefined_behaviour ''index out of range''), p))"

definition WorkerPool_addWork_with ::
    "('w \<Rightarrow> ('k, unit) act) \<Rightarrow> 'w \<Rightarrow> ('k pool, unit) act" where
  "WorkerPool_addWork_with provide work p =
     (case WorkerPool_next p of (worker, p') \<Rightarrow> WorkerPool_deliver provide worker work p')"

definition WorkerPool_addWork :: "Work \<Rightarrow> (worker pool, unit) act" where
  "WorkerPool_addWork = WorkerPool_addWork_with Worker_provideWork"

text \<open>
  The destructor first deletes every worker, then joins the threads. \<open>delete\<close> runs the
  worker's destructor and then frees its memory; a fault in one ends the program.
\<close>

fun delete_workers :: "worker list \<Rightarrow> fault option \<times> worker list" where
  "delete_workers [] = (None, [])"
| "delete_workers (w # ws) =
     (case Worker_destructor w of
        (Inl e, w') \<Rightarrow> (Some e, w' # ws)
      | (Inr _, w') \<Rightarrow>
          (case delete_workers ws of (r, ws') \<Rightarrow> (r, w'\<lparr>w_life := Freed\<rparr> # ws')))"

definition WorkerPool_destructor :: "(worker pool, unit) act" where
  "WorkerPool_destructor p =
     (case delete_workers (mWorkers p) of
        (Some e, ws) \<Rightarrow> (Inl e, p\<lparr>mWorkers := ws\<rparr>)
      | (None, ws) \<Rightarrow> (Inr (), p\<lparr>mWorkers := ws\<rparr>))"

section \<open>Cursor arithmetic\<close>

definition pool_ok :: "'k pool \<Rightarrow> bool" where
  "pool_ok p \<longleftrightarrow> mWorkers p \<noteq> [] \<and> length (mWorkers p) < 2 ^ 31 \<and>
     unat (mCurrentWorker p) < length (mWorkers p)"

lemma unat_scast_ucast_small:
  fixes c :: size_t
  assumes "unat c < 2 ^ 31"
  shows "unat (scast (ucast c :: cint) :: size_t) = unat c"
proof -
  have "int (unat c) < int (2 ^ 31)"
    using assms by (simp only: of_nat_less_iff)
  then have upper: "uint c < 2 ^ 31" by simp
  have lower: "- (2 ^ 31) \<le> uint c"
    by (rule order_trans [of _ 0]) simp_all
  have "sint (ucast c :: cint) = signed_take_bit 31 (uint c)"
    by (simp add: signed_ucast_eq)
  also have "\<dots> = uint c"
    by (rule signed_take_bit_int_eq_self) (use upper lower in simp_all)
  finally have "(scast (ucast c :: cint) :: size_t) = c"
    by (simp add: scast_eq)
  then show ?thesis by simp
qed

lemma next_index:
  assumes "pool_ok p"
  shows "unat (scast (fst (WorkerPool_next p)) :: size_t) = unat (mCurrentWorker p)"
  using assms by (simp add: WorkerPool_next_def Let_def pool_ok_def unat_scast_ucast_small)

lemma unat_Suc_size_t:
  assumes "unat (c :: size_t) < 2 ^ 31"
  shows "unat (c + 1) = Suc (unat c)"
proof -
  have "unat c + 1 < 2 ^ 64" using assms by simp
  then show ?thesis by (simp add: unat_word_ariths)
qed

lemma next_cursor:
  assumes "pool_ok p"
  shows "unat (mCurrentWorker (snd (WorkerPool_next p))) =
      Suc (unat (mCurrentWorker p)) mod length (mWorkers p)"
    and "mWorkers (snd (WorkerPool_next p)) = mWorkers p"
    and "pool_ok (snd (WorkerPool_next p))"
proof -
  let ?c = "mCurrentWorker p" and ?n = "length (mWorkers p)"
  have n: "unat (of_nat ?n :: size_t) = ?n"
    using assms by (simp add: pool_ok_def unat_of_nat)
  have suc: "unat (?c + 1) = Suc (unat ?c)"
    using assms by (intro unat_Suc_size_t) (simp add: pool_ok_def)
  have le: "(of_nat ?n \<le> ?c + 1) = (?n \<le> Suc (unat ?c))"
    by (simp add: word_le_nat_alt n suc)
  show *: "unat (mCurrentWorker (snd (WorkerPool_next p))) =
      Suc (unat (mCurrentWorker p)) mod length (mWorkers p)"
  proof (cases "?n \<le> Suc (unat ?c)")
    case True
    then have "Suc (unat ?c) = ?n" using assms by (simp add: pool_ok_def)
    then have "Suc (unat ?c) mod ?n = 0" by simp
    with True show ?thesis by (simp add: WorkerPool_next_def Let_def le)
  next
    case False
    then show ?thesis by (simp add: WorkerPool_next_def Let_def le suc)
  qed
  show "mWorkers (snd (WorkerPool_next p)) = mWorkers p"
    by (simp add: WorkerPool_next_def Let_def)
  then show "pool_ok (snd (WorkerPool_next p))"
    using assms * by (simp add: pool_ok_def)
qed

section \<open>What the pool relies on of a worker\<close>

text \<open>
  A worker has one place for work. Providing work fills a free place; with the place
  taken it faults and changes nothing.
\<close>

locale worker_slot =
  fixes provide :: "'w \<Rightarrow> ('k, unit) act"
    and slot :: "'k \<Rightarrow> 'w option"
    and full_fault :: fault
  assumes provide_free: "slot k = None \<Longrightarrow> \<exists>k'. provide w k = (Inr (), k') \<and> slot k' = Some w"
    and provide_taken: "slot k \<noteq> None \<Longrightarrow> provide w k = (Inl full_fault, k)"
begin

text \<open>The pool after the works \<open>ws\<close> were added, at most one for each worker.\<close>

definition pool_filled :: "'w list \<Rightarrow> 'k pool \<Rightarrow> bool" where
  "pool_filled ws p \<longleftrightarrow>
     pool_ok p \<and> length ws \<le> length (mWorkers p) \<and>
     map slot (mWorkers p) = map Some ws @ replicate (length (mWorkers p) - length ws) None \<and>
     unat (mCurrentWorker p) = length ws mod length (mWorkers p)"

lemma addWork_free:
  assumes ok: "pool_ok p" and free: "slot (mWorkers p ! unat (mCurrentWorker p)) = None"
  shows "\<exists>p'. WorkerPool_addWork_with provide w p = (Inr (), p') \<and> pool_ok p' \<and>
    map slot (mWorkers p') = (map slot (mWorkers p))[unat (mCurrentWorker p) := Some w] \<and>
    unat (mCurrentWorker p') = Suc (unat (mCurrentWorker p)) mod length (mWorkers p)"
proof -
  let ?i = "unat (mCurrentWorker p)"
  obtain worker q where q: "WorkerPool_next p = (worker, q)" by (cases "WorkerPool_next p")
  have i: "unat (scast worker :: size_t) = ?i"
    using next_index [OF ok] q by simp
  have qs: "mWorkers q = mWorkers p" "pool_ok q"
    "unat (mCurrentWorker q) = Suc ?i mod length (mWorkers p)"
    using next_cursor [OF ok] q by simp_all
  obtain k' where k': "provide w (mWorkers p ! ?i) = (Inr (), k')" "slot k' = Some w"
    using provide_free [OF free] by blast
  have run: "WorkerPool_addWork_with provide w p = (Inr (), q\<lparr>mWorkers := (mWorkers p)[?i := k']\<rparr>)"
    using ok by (simp add: WorkerPool_addWork_with_def q WorkerPool_deliver_def Let_def i qs k'
        pool_ok_def)
  show ?thesis
    by (rule exI [of _ "q\<lparr>mWorkers := (mWorkers p)[?i := k']\<rparr>"])
      (use run qs in \<open>simp add: map_update k' pool_ok_def\<close>)
qed

lemma addWork_taken:
  assumes ok: "pool_ok p" and taken: "slot (mWorkers p ! unat (mCurrentWorker p)) \<noteq> None"
  shows "WorkerPool_addWork_with provide w p = (Inl full_fault, snd (WorkerPool_next p))"
proof -
  obtain worker q where q: "WorkerPool_next p = (worker, q)" by (cases "WorkerPool_next p")
  have i: "unat (scast worker :: size_t) = unat (mCurrentWorker p)"
    using next_index [OF ok] q by simp
  have "mWorkers q = mWorkers p"
    using next_cursor(2) [OF ok] q by simp
  then show ?thesis
    using ok by (simp add: WorkerPool_addWork_with_def q WorkerPool_deliver_def Let_def i
        provide_taken [OF taken] pool_ok_def)
qed

lemma pool_filled_next:
  assumes "pool_filled ws p" and "length ws < length (mWorkers p)"
  shows "\<exists>p'. WorkerPool_addWork_with provide w p = (Inr (), p') \<and> pool_filled (ws @ [w]) p' \<and>
    length (mWorkers p') = length (mWorkers p)"
proof -
  let ?n = "length (mWorkers p)"
  have ok: "pool_ok p" and slots: "map slot (mWorkers p) = map Some ws @ replicate (?n - length ws) None"
    and cur: "unat (mCurrentWorker p) = length ws"
    using assms by (simp_all add: pool_filled_def)
  have "slot (mWorkers p ! length ws) = map slot (mWorkers p) ! length ws"
    using assms(2) by simp
  also have "\<dots> = None"
    using assms(2) by (simp add: slots nth_append)
  finally have free: "slot (mWorkers p ! unat (mCurrentWorker p)) = None" by (simp add: cur)
  obtain p' where p': "WorkerPool_addWork_with provide w p = (Inr (), p')" "pool_ok p'"
    "map slot (mWorkers p') = (map slot (mWorkers p))[length ws := Some w]"
    "unat (mCurrentWorker p') = Suc (length ws) mod ?n"
    using addWork_free [OF ok free, of w] unfolding cur by blast
  have len: "length (mWorkers p') = ?n"
    using arg_cong [OF p'(3), of length] by simp
  have "map slot (mWorkers p') = map Some (ws @ [w]) @ replicate (?n - length (ws @ [w])) None"
  proof -
    have "replicate (?n - length ws) (None :: 'w option) =
        None # replicate (?n - Suc (length ws)) None"
      using assms(2) by (metis Suc_diff_Suc replicate_Suc)
    then show ?thesis
      by (simp add: p'(3) slots list_update_append)
  qed
  then show ?thesis
    using p' len assms(2) by (auto simp: pool_filled_def)
qed

lemma pool_filled_full:
  assumes "pool_filled ws p" and "length ws = length (mWorkers p)"
  shows "WorkerPool_addWork_with provide w p = (Inl full_fault, snd (WorkerPool_next p))"
proof (rule addWork_taken)
  show ok: "pool_ok p" using assms by (simp add: pool_filled_def)
  have slots: "map slot (mWorkers p) = map Some ws" and cur: "unat (mCurrentWorker p) = 0"
    using assms by (simp_all add: pool_filled_def)
  have "0 < length ws" using ok assms(2) by (simp add: pool_ok_def)
  have "slot (mWorkers p ! 0) = map slot (mWorkers p) ! 0"
    using ok by (simp add: pool_ok_def)
  also have "\<dots> = Some (ws ! 0)"
    using \<open>0 < length ws\<close> by (simp add: slots)
  finally show "slot (mWorkers p ! unat (mCurrentWorker p)) \<noteq> None" by (simp add: cur)
qed

text \<open>Works added one after the other to a pool that holds \<open>ws\<close>, stopping at a fault.\<close>

lemma add_all:
  assumes "pool_filled ws p"
  shows "\<exists>p'. for_each (WorkerPool_addWork_with provide) xs p =
      (if length ws + length xs \<le> length (mWorkers p) then Inr () else Inl full_fault, p') \<and>
    map slot (mWorkers p') =
      map Some (take (length (mWorkers p)) (ws @ xs)) @
      replicate (length (mWorkers p) - length (ws @ xs)) None"
  using assms
proof (induction xs arbitrary: ws p)
  case Nil
  then show ?case by (auto simp: pool_filled_def act_simps)
next
  case (Cons x xs)
  show ?case
  proof (cases "length ws < length (mWorkers p)")
    case True
    then obtain p1 where p1: "WorkerPool_addWork_with provide x p = (Inr (), p1)"
      "pool_filled (ws @ [x]) p1" "length (mWorkers p1) = length (mWorkers p)"
      using pool_filled_next [OF Cons.prems] by blast
    show ?thesis
      using Cons.IH [OF p1(2)] by (simp add: seqE_def bindE_def p1)
  next
    case False
    with Cons.prems have len: "length ws = length (mWorkers p)" by (simp add: pool_filled_def)
    note full = pool_filled_full [OF Cons.prems len, of x]
    have "mWorkers (snd (WorkerPool_next p)) = mWorkers p"
      using Cons.prems by (simp add: next_cursor(2) pool_filled_def)
    then show ?thesis
      using Cons.prems len by (simp add: seqE_def bindE_def full pool_filled_def)
  qed
qed

lemma new_filled:
  assumes "WorkerPool_new mk nb = Inr p" and "slot mk = None"
  shows "pool_filled [] p \<and> length (mWorkers p) = nat (sint nb)"
proof -
  have pos: "0 < sint nb" and p: "p = \<lparr>mWorkers = replicate (nat (sint nb)) mk, mCurrentWorker = 0\<rparr>"
    using assms(1) by (auto simp: WorkerPool_new_def split: if_splits)
  have "sint nb < 2 ^ 31"
    using sint_lt [of nb] by simp
  then have "nat (sint nb) < 2 ^ 31" by simp
  with pos assms(2) show ?thesis
    by (simp add: p pool_filled_def pool_ok_def)
qed

end

interpretation worker_box: worker_slot Worker_provideWork "\<lambda>w. pr_value (mPromiseToWork w)"
  "Future_error Promise_already_satisfied"
  by unfold_locales (auto simp: provideWork_free provideWork_taken)

section \<open>Concurrent callers\<close>

text \<open>
  The mutex covers the choice of the worker and not the delivery, so concurrent calls of
  \<open>addWork\<close> choose one after the other and deliver in any order: the workers chosen by
  \<open>k\<close> successive critical sections.
\<close>

primrec reservations :: "nat \<Rightarrow> 'k pool \<Rightarrow> cint list \<times> 'k pool" where
  "reservations 0 p = ([], p)"
| "reservations (Suc k) p =
     (case WorkerPool_next p of (w, p') \<Rightarrow>
        (case reservations k p' of (ws, p'') \<Rightarrow> (w # ws, p'')))"

lemma reservations_indices:
  assumes "pool_ok p"
  shows "map (\<lambda>w. unat (scast w :: size_t)) (fst (reservations k p)) =
    map (\<lambda>j. (unat (mCurrentWorker p) + j) mod length (mWorkers p)) [0..<k]"
  using assms
proof (induction k arbitrary: p)
  case 0
  then show ?case by simp
next
  case (Suc k)
  obtain w q where q: "WorkerPool_next p = (w, q)" by (cases "WorkerPool_next p")
  note nx = next_cursor [OF Suc.prems, unfolded q snd_conv]
  have "unat (scast w :: size_t) = unat (mCurrentWorker p)"
    using next_index [OF Suc.prems] q by simp
  moreover have "map (\<lambda>w. unat (scast w :: size_t)) (fst (reservations k q)) =
      map (\<lambda>j. (unat (mCurrentWorker p) + Suc j) mod length (mWorkers p)) [0..<k]"
    unfolding Suc.IH [OF nx(3)] nx(1,2) by (simp add: mod_simps)
  moreover have "unat (mCurrentWorker p) = unat (mCurrentWorker p) mod length (mWorkers p)"
    using Suc.prems by (simp add: pool_ok_def)
  moreover have "[0..<Suc k] = 0 # map Suc [0..<k]"
    by (simp add: map_Suc_upt upt_conv_Cons)
  ultimately show ?case
    by (simp add: q comp_def case_prod_beta)
qed

lemma mod_add_inj:
  assumes "(c + i) mod n = (c + j) mod (n::nat)" and "i < n" and "j < n"
  shows "i = j"
proof (cases "i \<le> j")
  case True
  then have "n dvd j - i"
    using assms(1) mod_eq_dvd_iff_nat [of "c + i" "c + j" n] by simp
  then have "j - i = 0 \<or> n \<le> j - i" using dvd_imp_le [of n "j - i"] by blast
  with True assms(3) show ?thesis by linarith
next
  case False
  then have "n dvd i - j"
    using assms(1) mod_eq_dvd_iff_nat [of "c + j" "c + i" n] by simp
  then have "i - j = 0 \<or> n \<le> i - j" using dvd_imp_le [of n "i - j"] by blast
  with False assms(2) show ?thesis by linarith
qed

section \<open>The destructor\<close>

lemma delete_workers_unused:
  "(\<forall>w \<in> set ws. pr_value (mPromiseToWork w) = None) \<Longrightarrow>
   delete_workers ws = (None, map (\<lambda>w. w\<lparr>mPromiseToWork :=
       (mPromiseToWork w)\<lparr>pr_value := Some Worker_shutdown_work\<rparr>, w_life := Freed\<rparr>) ws)"
proof (induction ws)
  case (Cons w ws)
  then have "Worker_destructor w = (Inr (), w\<lparr>mPromiseToWork :=
       (mPromiseToWork w)\<lparr>pr_value := Some Worker_shutdown_work\<rparr>, w_life := Destroying\<rparr>)"
    by (simp add: destructor_ok_iff)
  with Cons show ?case by simp
qed simp

lemma delete_workers_used:
  "w \<in> set ws \<Longrightarrow> pr_value (mPromiseToWork w) \<noteq> None \<Longrightarrow>
   fst (delete_workers ws) = Some Std_terminate"
proof (induction ws)
  case (Cons v ws)
  show ?case
  proof (cases "pr_value (mPromiseToWork v) = None")
    case False
    then show ?thesis by (simp add: destructor_taken)
  next
    case True
    then have "w \<in> set ws" using Cons.prems by auto
    with Cons have "fst (delete_workers ws) = Some Std_terminate" by simp
    moreover obtain v' where "Worker_destructor v = (Inr (), v')"
      using True destructor_ok_iff by blast
    ultimately show ?thesis by (simp add: case_prod_beta)
  qed
qed simp

lemma new_pool_ok: "WorkerPool_new mk nb = Inr p \<Longrightarrow> pool_ok p"
  using sint_lt [of nb] by (auto simp: WorkerPool_new_def pool_ok_def split: if_splits)

section \<open>Properties\<close>

text \<open>
  C17 A new pool of \<open>n\<close> workers accepts exactly \<open>n\<close> works in its life: the first
  \<open>n\<close> calls of \<open>addWork\<close> hand the i-th work to the i-th worker, and the next call
  throws the \<open>std::future_error\<close> for a promise that is already satisfied.
\<close>

theorem pool_takes_one_work_per_worker:
  assumes "WorkerPool_new (Worker_new indet) nb = Inr p"
  shows "\<exists>p'. for_each WorkerPool_addWork works p =
      (if length works \<le> nat (sint nb) then Inr ()
       else Inl (Future_error Promise_already_satisfied), p') \<and>
    map (\<lambda>w. pr_value (mPromiseToWork w)) (mWorkers p') =
      map Some (take (nat (sint nb)) works) @ replicate (nat (sint nb) - length works) None"
proof -
  have "worker_box.pool_filled [] p \<and> length (mWorkers p) = nat (sint nb)"
    by (rule worker_box.new_filled [OF assms]) (simp add: Worker_new_def promise_new_def)
  then show ?thesis
    using worker_box.add_all [of "[]" p works] by (simp add: WorkerPool_addWork_def)
qed

definition sample_work :: "string \<Rightarrow> Work" where
  "sample_work body = (HttpRequest_new GET body, User_function sample_echo)"

theorem pool_takes_one_work_per_worker_witness:
  "\<exists>p p'. WorkerPool_new (Worker_new False) 2 = Inr p \<and>
     for_each WorkerPool_addWork (map sample_work [''a'', ''b'', ''c'']) p =
       (Inl (Future_error Promise_already_satisfied), p') \<and>
     map (\<lambda>w. pr_value (mPromiseToWork w)) (mWorkers p') =
       [Some (sample_work ''a''), Some (sample_work ''b'')]"
proof -
  define p where "p = \<lparr>mWorkers = replicate 2 (Worker_new False), mCurrentWorker = (0::size_t)\<rparr>"
  have new: "WorkerPool_new (Worker_new False) 2 = Inr p"
    by (simp add: WorkerPool_new_def p_def)
  show ?thesis
    using pool_takes_one_work_per_worker [OF new, of "map sample_work [''a'', ''b'', ''c'']"] new
    by simp
qed

text \<open>
  C39 The cursor of a pool stays below the number of workers in every sequence of
  \<open>addWork\<close> calls, so the round trip of the index through \<open>int\<close> and back to
  \<open>size_t\<close> never leaves the vector of workers: no call has undefined behaviour.
\<close>

theorem pool_index_in_range:
  assumes "pool_ok p"
  shows "case for_each WorkerPool_addWork works p of
      (r, p') \<Rightarrow> pool_ok p' \<and> (\<forall>u. r \<noteq> Inl (Undefined_behaviour u))"
proof -
  have one: "wp (WorkerPool_addWork w) (\<lambda>_. pool_ok)
      (\<lambda>e q. pool_ok q \<and> (\<forall>u. e \<noteq> Undefined_behaviour u)) q" if q: "pool_ok q" for w q
  proof (cases "pr_value (mPromiseToWork (mWorkers q ! unat (mCurrentWorker q)))")
    case None
    with worker_box.addWork_free [OF q, of w] show ?thesis
      by (auto simp: WorkerPool_addWork_def wp_run)
  next
    case (Some v)
    then have "WorkerPool_addWork w q =
        (Inl (Future_error Promise_already_satisfied), snd (WorkerPool_next q))"
      unfolding WorkerPool_addWork_def by (intro worker_box.addWork_taken [OF q]) simp
    then show ?thesis using next_cursor(3) [OF q] by (simp add: wp_run)
  qed
  have "wp (for_each WorkerPool_addWork works) (\<lambda>_. pool_ok)
      (\<lambda>e q. pool_ok q \<and> (\<forall>u. e \<noteq> Undefined_behaviour u)) p"
    by (rule wp_for_each) (use assms one in auto)
  then show ?thesis by (auto simp: wp_def split: prod.splits sum.splits)
qed

theorem pool_index_in_range_witness:
  "case for_each WorkerPool_addWork [sample_work ''a'']
      \<lparr>mWorkers = [Worker_new False], mCurrentWorker = 0\<rparr> of
     (r, p') \<Rightarrow> pool_ok p' \<and> (\<forall>u. r \<noteq> Inl (Undefined_behaviour u))"
  by (rule pool_index_in_range) (simp add: pool_ok_def)

text \<open>
  Concurrent callers of \<open>addWork\<close> are given different workers: among as many
  successive passes through the critical section as there are workers, no worker is chosen
  twice, whatever the cursor was.
\<close>

theorem pool_reservations_distinct:
  assumes "pool_ok p" and "k \<le> length (mWorkers p)"
  shows "distinct (map (\<lambda>w. unat (scast w :: size_t)) (fst (reservations k p)))"
proof -
  have "i = j" if "i < k" "j < k"
    and "(unat (mCurrentWorker p) + i) mod length (mWorkers p) =
         (unat (mCurrentWorker p) + j) mod length (mWorkers p)" for i j
    using mod_add_inj [OF that(3)] that(1,2) assms(2) by linarith
  then show ?thesis
    unfolding reservations_indices [OF assms(1)] by (simp add: distinct_map inj_on_def)
qed

theorem pool_reservations_distinct_witness:
  "distinct (map (\<lambda>w. unat (scast w :: size_t)) (fst (reservations 3
     \<lparr>mWorkers = replicate 3 (Worker_new False), mCurrentWorker = 2\<rparr>)))"
  by (rule pool_reservations_distinct) (simp_all add: pool_ok_def)

text \<open>
  Destroying a pool that was ever used ends the program: the destructor of a worker
  whose promise is satisfied throws, and a destructor may not.
\<close>

theorem pool_destructor_after_work:
  assumes "w \<in> set (mWorkers p)" and "pr_value (mPromiseToWork w) \<noteq> None"
  shows "fst (WorkerPool_destructor p) = Inl Std_terminate"
  using delete_workers_used [OF assms]
  by (auto simp: WorkerPool_destructor_def split: prod.splits)

theorem pool_destructor_after_work_witness:
  "fst (WorkerPool_destructor \<lparr>mWorkers = [Worker_new False, sample_ran], mCurrentWorker = 0\<rparr>) =
     Inl Std_terminate"
  by (rule pool_destructor_after_work [where w = sample_ran])
    (simp_all add: sample_ran_def)

text \<open>
  Destroying a pool that was never used frees every worker before its thread is joined:
  a thread that has not yet tested its flag, or was already called with the shutdown
  function, next touches a destroyed worker.
\<close>

theorem pool_destructor_use_after_free:
  assumes "\<forall>w \<in> set (mWorkers p). pr_value (mPromiseToWork w) = None"
    and "WorkerPool_destructor p = (r, p')" and "w' \<in> set (mWorkers p')"
    and "w_pc w' = At_test \<or> w_pc w' = At_call Worker_shutdown_work"
  shows "r = Inr () \<and> (\<exists>u. map_option w_pc (Worker_thread_step w') =
    Some (Crashed (Undefined_behaviour u)))"
proof -
  have r: "r = Inr ()" and "w_life w' = Freed"
    using assms(2,3) delete_workers_unused [OF assms(1)]
    by (auto simp: WorkerPool_destructor_def)
  with assms(4) show ?thesis
    by (auto simp: thread_step_eqs call_function_def Worker_shutdown_work_def)
qed

theorem pool_destructor_use_after_free_witness:
  "\<exists>r p'. WorkerPool_destructor \<lparr>mWorkers = [Worker_new False], mCurrentWorker = 0\<rparr> = (r, p') \<and>
     r = Inr () \<and> (\<exists>u. map_option w_pc (Worker_thread_step (hd (mWorkers p'))) =
       Some (Crashed (Undefined_behaviour u)))"
proof -
  let ?p = "\<lparr>mWorkers = [Worker_new False], mCurrentWorker = 0 :: size_t\<rparr>"
  obtain r p' where d: "WorkerPool_destructor ?p = (r, p')" by (cases "WorkerPool_destructor ?p")
  then have p': "mWorkers p' = [(Worker_new False)\<lparr>mPromiseToWork :=
      promise_new\<lparr>pr_value := Some Worker_shutdown_work\<rparr>, w_life := Freed\<rparr>]"
    by (auto simp: WorkerPool_destructor_def Worker_destructor_def provideWork_free Worker_new_def
        promise_new_def)
  have "r = Inr () \<and> (\<exists>u. map_option w_pc (Worker_thread_step (hd (mWorkers p'))) =
      Some (Crashed (Undefined_behaviour u)))"
    by (rule pool_destructor_use_after_free [OF _ d])
      (simp_all add: p' Worker_new_def promise_new_def)
  with d show ?thesis by blast
qed

end
