(* ===== verification/Pool_Threads.thy ===== *)
theory Pool_Threads
  imports Worker_Pool "HOL-Library.Multiset"
begin

text \<open>
  The pool, its threads and its callers as one system. A call of \<open>addWork\<close> is two steps,
  because the mutex covers the choice of the worker and not the delivery: between them the
  call is pending, and any other thread may take a step. A thread of the pool takes the steps of
  \<open>threadEntryPoint\<close>. A fault that leaves a thread function ends the program, and with it
  every other thread.
\<close>

section \<open>The system\<close>

record pool_system =
  ps_pool :: "worker pool"
  ps_calls :: "(cint \<times> Work) list"

text \<open>
  What a step does: a caller chose a worker for a work, a pending delivery was accepted or
  threw, or the thread of a worker ran.
\<close>

datatype pool_label = Reserved Work | Accepted Work | Refused Work | Ran nat

definition pool_alive :: "worker pool \<Rightarrow> bool" where
  "pool_alive p \<longleftrightarrow> (\<forall>w \<in> set (mWorkers p). \<forall>e. w_pc w \<noteq> Crashed e)"

inductive pool_step :: "pool_system \<Rightarrow> pool_label \<Rightarrow> pool_system \<Rightarrow> bool" where
  reserve: "pool_alive (ps_pool S) \<Longrightarrow> WorkerPool_next (ps_pool S) = (i, p) \<Longrightarrow>
    pool_step S (Reserved (r, User_function f))
      \<lparr>ps_pool = p, ps_calls = ps_calls S @ [(i, (r, User_function f))]\<rparr>"
| deliver: "pool_alive (ps_pool S) \<Longrightarrow> ps_calls S = before @ (i, work) # after \<Longrightarrow>
    WorkerPool_deliver Worker_provideWork i work (ps_pool S) = (res, p) \<Longrightarrow>
    pool_step S (case res of Inr _ \<Rightarrow> Accepted work | Inl _ \<Rightarrow> Refused work)
      \<lparr>ps_pool = p, ps_calls = before @ after\<rparr>"
| run: "pool_alive (ps_pool S) \<Longrightarrow> i < length (mWorkers (ps_pool S)) \<Longrightarrow>
    Worker_thread_step (mWorkers (ps_pool S) ! i) = Some w \<Longrightarrow>
    pool_step S (Ran i) (S\<lparr>ps_pool := (ps_pool S)\<lparr>mWorkers := (mWorkers (ps_pool S))[i := w]\<rparr>\<rparr>)"

inductive pool_run :: "pool_system \<Rightarrow> pool_label list \<Rightarrow> pool_system \<Rightarrow> bool" where
  nil: "pool_run S [] S"
| snoc: "pool_run S ls T \<Longrightarrow> pool_step T l U \<Longrightarrow> pool_run S (ls @ [l]) U"

inductive_cases pool_stepE: "pool_step S l T"

section \<open>The phases of a worker in a pool\<close>

text \<open>
  A worker of a pool that is not being destroyed: about to take its future, waiting for work,
  about to run it, and after it ran, when the thread is back at the loop test or has brought
  the program down, there or by the exception of a work. A thread that finds \<open>mShutdown\<close>, which
  no constructor initialises, set from the start ends at once. \<open>steps_left\<close> bounds the steps a
  thread has left.
\<close>

fun phase :: "thread_pc \<Rightarrow> worker \<Rightarrow> bool" where
  "phase At_test w = (if pr_retrieved (mPromiseToWork w)
     then \<exists>r f resp. pr_value (mPromiseToWork w) = Some (r, User_function f) \<and> f r = Some resp \<and>
       w_executed w = [(r, resp)]
     else w_executed w = [])"
| "phase At_wait w = (pr_retrieved (mPromiseToWork w) \<and> w_executed w = [])"
| "phase (At_call work) w = (pr_retrieved (mPromiseToWork w) \<and>
     pr_value (mPromiseToWork w) = Some work \<and> w_executed w = [])"
| "phase Finished w = False"
| "phase (Crashed e) w = (e = Std_terminate \<and>
     (\<exists>r f. pr_value (mPromiseToWork w) = Some (r, User_function f) \<and>
       w_executed w = (case f r of None \<Rightarrow> [] | Some resp \<Rightarrow> [(r, resp)])))"

definition pooled :: "worker \<Rightarrow> bool" where
  "pooled w \<longleftrightarrow> w_life w = Alive \<and>
     (if mShutdown w then w_pc w \<in> {At_test, Finished} \<and> w_executed w = [] else phase (w_pc w) w) \<and>
     (\<forall>v. pr_value (mPromiseToWork w) = Some v \<longrightarrow> (\<exists>r f. v = (r, User_function f)))"

fun pc_steps :: "thread_pc \<Rightarrow> bool \<Rightarrow> nat" where
  "pc_steps At_test retrieved = (if retrieved then 1 else 4)"
| "pc_steps At_wait _ = 3"
| "pc_steps (At_call _) _ = 2"
| "pc_steps _ _ = 0"

definition steps_left :: "worker \<Rightarrow> nat" where
  "steps_left w = pc_steps (w_pc w) (pr_retrieved (mPromiseToWork w))"

lemma pooled_new: "pooled (Worker_new indet)"
  by (simp add: pooled_def Worker_new_def promise_new_def)

lemma pooled_thread_step:
  assumes "pooled w" and "Worker_thread_step w = Some w'"
  shows "pooled w'" and "steps_left w' < steps_left w"
    and "pr_value (mPromiseToWork w') = pr_value (mPromiseToWork w)" and "mShutdown w' = mShutdown w"
proof -
  have "pooled w' \<and> steps_left w' < steps_left w \<and>
      pr_value (mPromiseToWork w') = pr_value (mPromiseToWork w) \<and> mShutdown w' = mShutdown w"
    using assms
    by (cases "w_pc w"; cases "pr_retrieved (mPromiseToWork w)"; cases "pr_value (mPromiseToWork w)")
      (auto simp: thread_step_eqs pooled_def steps_left_def call_function_def split: option.splits if_splits)
  then show "pooled w'" and "steps_left w' < steps_left w"
    and "pr_value (mPromiseToWork w') = pr_value (mPromiseToWork w)" and "mShutdown w' = mShutdown w" by simp_all
qed

lemma pooled_provide:
  assumes "pooled w" and "Worker_provideWork (r, User_function f) w = (res, w')"
  shows "pooled w'" and "steps_left w' = steps_left w" and "w_executed w' = w_executed w"
    and "w_pc w' = w_pc w" and "mShutdown w' = mShutdown w"
  using assms
  by (cases "w_pc w"; cases "pr_value (mPromiseToWork w)";
      auto simp: pooled_def steps_left_def provideWork_free provideWork_taken split: if_splits)+

text \<open>A worker that holds work, and was not told to stop by chance, can always take a step, until it has brought the program down.\<close>

lemma pooled_progress:
  assumes "pooled w" and "\<not> mShutdown w" and "pr_value (mPromiseToWork w) \<noteq> None"
    and "Worker_thread_step w = None"
  shows "w_pc w = Crashed Std_terminate"
  using assms
  by (cases "w_pc w"; cases "pr_retrieved (mPromiseToWork w)")
    (auto simp: pooled_def thread_step_eqs)

lemma pooled_executed:
  assumes "pooled w"
  shows "w_executed w = [] \<or>
    (\<exists>r f resp. pr_value (mPromiseToWork w) = Some (r, User_function f) \<and> f r = Some resp \<and>
       w_executed w = [(r, resp)])"
  using assms by (cases "w_pc w") (auto simp: pooled_def split: if_splits option.splits)

section \<open>The invariant of the system\<close>

definition held_by :: "worker \<Rightarrow> Work multiset" where
  "held_by w = (case pr_value (mPromiseToWork w) of None \<Rightarrow> {#} | Some v \<Rightarrow> {#v#})"

definition held :: "worker pool \<Rightarrow> Work multiset" where
  "held p = sum_list (map held_by (mWorkers p))"

fun reserved_of :: "pool_label \<Rightarrow> Work multiset" where
  "reserved_of (Reserved v) = {#v#}"
| "reserved_of _ = {#}"

fun refused_of :: "pool_label \<Rightarrow> Work multiset" where
  "refused_of (Refused v) = {#v#}"
| "refused_of _ = {#}"

fun is_run :: "pool_label \<Rightarrow> bool" where
  "is_run (Ran i) = True"
| "is_run _ = False"

definition reserved :: "pool_label list \<Rightarrow> Work multiset" where
  "reserved ls = sum_list (map reserved_of ls)"

definition refused :: "pool_label list \<Rightarrow> Work multiset" where
  "refused ls = sum_list (map refused_of ls)"

definition call_ok :: "nat \<Rightarrow> cint \<times> Work \<Rightarrow> bool" where
  "call_ok n c \<longleftrightarrow> unat (scast (fst c) :: size_t) < n \<and> (\<exists>r f. snd c = (r, User_function f))"

definition system_inv :: "bool \<Rightarrow> nat \<Rightarrow> pool_label list \<Rightarrow> pool_system \<Rightarrow> bool" where
  "system_inv indet n ls S \<longleftrightarrow>
     pool_ok (ps_pool S) \<and> length (mWorkers (ps_pool S)) = n \<and>
     (\<forall>w \<in> set (mWorkers (ps_pool S)). pooled w \<and> mShutdown w = indet) \<and>
     (\<forall>c \<in> set (ps_calls S). call_ok n c) \<and>
     reserved ls = mset (map snd (ps_calls S)) + held (ps_pool S) + refused ls \<and>
     length (filter is_run ls) + sum_list (map steps_left (mWorkers (ps_pool S))) \<le> 4 * n"

lemma sum_list_map_update:
  fixes f :: "'a \<Rightarrow> 'b :: comm_monoid_add"
  assumes "i < length xs"
  shows "sum_list (map f xs) = f (xs ! i) + sum_list (map f (take i xs @ drop (Suc i) xs))"
    and "sum_list (map f (xs[i := x])) = f x + sum_list (map f (take i xs @ drop (Suc i) xs))"
proof -
  show "sum_list (map f xs) = f (xs ! i) + sum_list (map f (take i xs @ drop (Suc i) xs))"
    by (subst id_take_nth_drop [OF assms]) (simp add: ac_simps)
  show "sum_list (map f (xs[i := x])) = f x + sum_list (map f (take i xs @ drop (Suc i) xs))"
    by (subst upd_conv_take_nth_drop [OF assms]) (simp add: ac_simps)
qed

lemma system_inv_start:
  assumes "WorkerPool_new (Worker_new indet) nb = Inr p"
  shows "system_inv indet (nat (sint nb)) [] \<lparr>ps_pool = p, ps_calls = []\<rparr>"
proof -
  have p: "p = \<lparr>mWorkers = replicate (nat (sint nb)) (Worker_new indet), mCurrentWorker = 0\<rparr>"
    using assms by (auto simp: WorkerPool_new_def split: if_splits)
  have "steps_left (Worker_new indet) = 4" "held_by (Worker_new indet) = {#}"
    "mShutdown (Worker_new indet) = indet"
    by (simp_all add: steps_left_def held_by_def Worker_new_def promise_new_def)
  moreover have "sum_list (replicate k ({#} :: Work multiset)) = {#}" for k
    by (induction k) simp_all
  ultimately show ?thesis
    using new_pool_ok [OF assms] pooled_new [of indet]
    by (simp add: system_inv_def p reserved_def refused_def held_def sum_list_replicate)
qed

lemma system_inv_step:
  assumes inv: "system_inv indet n ls S" and step: "pool_step S l T"
  shows "system_inv indet n (ls @ [l]) T"
  using step
proof (rule pool_stepE, goal_cases)
  case (1 i p r f)
  have ok: "pool_ok (ps_pool S)" and len: "length (mWorkers (ps_pool S)) = n"
    using inv by (simp_all add: system_inv_def)
  have p: "mWorkers p = mWorkers (ps_pool S)" "pool_ok p"
    using next_cursor [OF ok] 1(4) by simp_all
  have "unat (scast i :: size_t) < n"
    using next_index [OF ok] 1(4) ok len by (simp add: pool_ok_def)
  then show ?case
    using inv p 1(1,2)
    by (auto simp: system_inv_def call_ok_def reserved_def refused_def held_def)
next
  case (2 before i work after res p)
  let ?ws = "mWorkers (ps_pool S)" and ?i = "unat (scast i :: size_t)"
  have call: "call_ok n (i, work)" and len: "length ?ws = n" and ok: "pool_ok (ps_pool S)"
    using inv 2(4) by (simp_all add: system_inv_def)
  then obtain r f where i: "?i < length ?ws" and work: "work = (r, User_function f)"
    by (auto simp: call_ok_def)
  obtain res' w' where prov: "Worker_provideWork work (?ws ! ?i) = (res', w')" by force
  have res: "res = res'" and p: "p = (ps_pool S)\<lparr>mWorkers := ?ws[?i := w']\<rparr>"
    using 2(5) i by (simp_all add: WorkerPool_deliver_def Let_def prov)
  have old: "pooled (?ws ! ?i)" using inv i by (simp add: system_inv_def)
  note new = pooled_provide [OF old prov [unfolded work]]
  have gain: "held_by w' + refused_of l = held_by (?ws ! ?i) + {#work#}" and "reserved_of l = {#}"
    and "\<not> is_run l"
    using prov res 2(1) by (auto simp: held_by_def provideWork_free provideWork_taken split: option.splits sum.splits)
      (cases "pr_value (mPromiseToWork (?ws ! ?i))"; auto simp: held_by_def provideWork_free provideWork_taken split: sum.splits)+
  have h: "held p + refused_of l = held (ps_pool S) + {#work#}"
    using gain i by (simp add: held_def p sum_list_map_update(2) sum_list_map_update(1) [of ?i ?ws] ac_simps)
  have steps: "sum_list (map steps_left (mWorkers p)) = sum_list (map steps_left ?ws)"
    using i new(2) by (simp add: p sum_list_map_update(2) sum_list_map_update(1) [of ?i ?ws])
  have fresh: "\<forall>w \<in> set (mWorkers p). pooled w \<and> mShutdown w = indet"
    using inv new(1,5) i set_update_subset_insert [of ?ws ?i w'] by (auto simp: system_inv_def p)
  have "reserved (ls @ [l]) = mset (map snd (before @ after)) + {#work#} + held (ps_pool S) + refused ls"
    using inv 2(4) \<open>reserved_of l = {#}\<close> by (simp add: system_inv_def reserved_def ac_simps)
  then have "reserved (ls @ [l]) = mset (map snd (before @ after)) + held p + refused (ls @ [l])"
    using h by (simp add: refused_def ac_simps)
  then show ?case
    using inv fresh steps \<open>\<not> is_run l\<close> ok
    by (simp add: system_inv_def 2(2,4) p pool_ok_def)
next
  case (3 i w)
  let ?ws = "mWorkers (ps_pool S)"
  have old: "pooled (?ws ! i)" using inv 3(4) by (simp add: system_inv_def)
  note new = pooled_thread_step [OF old 3(5)]
  have "\<forall>v \<in> set (?ws[i := w]). pooled v \<and> mShutdown v = indet"
    using inv new(1,4) 3(4) set_update_subset_insert [of ?ws i w] by (auto simp: system_inv_def)
  moreover have "held (ps_pool T) = held (ps_pool S)"
    using 3(4) new(3)
    by (simp add: held_def held_by_def 3(2) sum_list_map_update(2) sum_list_map_update(1) [of i ?ws])
  moreover have "Suc (sum_list (map steps_left (?ws[i := w]))) \<le> sum_list (map steps_left ?ws)"
    using 3(4) new(2) by (simp add: sum_list_map_update(2) sum_list_map_update(1) [of i ?ws])
  ultimately show ?case
    using inv 3(1)
    by (simp add: system_inv_def 3(2) reserved_def refused_def pool_ok_def)
qed

lemma system_inv_run:
  assumes "pool_run S ls T" and "system_inv indet n [] S"
  shows "system_inv indet n ls T"
  using assms by (induction rule: pool_run.induct) (auto intro: system_inv_step)

lemma held_nonempty: "held p \<noteq> {#} \<Longrightarrow> \<exists>w \<in> set (mWorkers p). held_by w \<noteq> {#}"
proof -
  have "sum_list (map held_by ws) \<noteq> {#} \<Longrightarrow> \<exists>w \<in> set ws. held_by w \<noteq> {#}" for ws
    by (induction ws) auto
  then show "held p \<noteq> {#} \<Longrightarrow> ?thesis" by (simp add: held_def)
qed

text \<open>A life of a pool of one worker: one work, run, and the end of the program.\<close>

definition lone_pool :: "worker \<Rightarrow> worker pool" where
  "lone_pool w = \<lparr>mWorkers = [w], mCurrentWorker = 0\<rparr>"

definition lone_given :: worker where
  "lone_given = (Worker_new False)\<lparr>mPromiseToWork := \<lparr>pr_value = Some (sample_work ''a''), pr_retrieved = False\<rparr>\<rparr>"

definition lone_taken :: worker where
  "lone_taken = lone_given\<lparr>mPromiseToWork := \<lparr>pr_value = Some (sample_work ''a''), pr_retrieved = True\<rparr>, w_pc := At_wait\<rparr>"

definition lone_spent :: worker where
  "lone_spent = lone_taken\<lparr>w_executed := [(HttpRequest_new GET ''a'', HttpResponse_new ''a'')],
     w_pc := Crashed Std_terminate\<rparr>"

lemma lone_new: "WorkerPool_new (Worker_new False) 1 = Inr (lone_pool (Worker_new False))"
  by (simp add: WorkerPool_new_def lone_pool_def)

lemma lone_run:
  "pool_run \<lparr>ps_pool = lone_pool (Worker_new False), ps_calls = []\<rparr>
     [Reserved (sample_work ''a''), Accepted (sample_work ''a''), Ran 0, Ran 0, Ran 0, Ran 0]
     \<lparr>ps_pool = lone_pool lone_spent, ps_calls = []\<rparr>"
proof -
  let ?v = "sample_work ''a''"
  let ?S = "\<lambda>w cs. \<lparr>ps_pool = lone_pool w, ps_calls = cs\<rparr>"
  let ?ran = "lone_spent\<lparr>w_pc := At_test\<rparr>"
  have alive: "pool_alive (lone_pool w)" if "\<forall>e. w_pc w \<noteq> Crashed e" for w
    using that by (simp add: pool_alive_def lone_pool_def)
  have thread: "pool_step (?S w []) (Ran 0) (?S w' [])"
    if "Worker_thread_step w = Some w'" "\<forall>e. w_pc w \<noteq> Crashed e" for w w'
    using pool_step.run [of "?S w []" 0 w'] that alive by (simp add: lone_pool_def)
  have "pool_step (?S (Worker_new False) []) (Reserved ?v) (?S (Worker_new False) [(0, ?v)])"
    using pool_step.reserve [of "?S (Worker_new False) []" 0 "lone_pool (Worker_new False)"] alive
    by (simp add: sample_work_def WorkerPool_next_def Let_def lone_pool_def Worker_new_def)
  moreover have "pool_step (?S (Worker_new False) [(0, ?v)]) (Accepted ?v) (?S lone_given [])"
    using pool_step.deliver [of "?S (Worker_new False) [(0, ?v)]" "[]" 0 ?v "[]" "Inr ()" "lone_pool lone_given"] alive
    by (simp add: WorkerPool_deliver_def lone_pool_def provideWork_free Worker_new_def promise_new_def lone_given_def)
  moreover have "pool_step (?S lone_given []) (Ran 0) (?S lone_taken [])"
    by (rule thread) (simp_all add: lone_given_def lone_taken_def Worker_new_def thread_step_eqs)
  moreover have "pool_step (?S lone_taken []) (Ran 0) (?S (lone_taken\<lparr>w_pc := At_call ?v\<rparr>) [])"
    by (rule thread) (simp_all add: lone_taken_def thread_step_eqs)
  moreover have "pool_step (?S (lone_taken\<lparr>w_pc := At_call ?v\<rparr>) []) (Ran 0) (?S ?ran [])"
    by (rule thread) (simp_all add: thread_step_eqs call_function_def sample_work_def sample_echo_def lone_spent_def lone_taken_def
        lone_given_def Worker_new_def)
  moreover have "pool_step (?S ?ran []) (Ran 0) (?S lone_spent [])"
    by (rule thread) (simp_all add: thread_step_eqs lone_spent_def lone_taken_def lone_given_def Worker_new_def)
  ultimately have "pool_run (?S (Worker_new False) []) ([] @ [Reserved ?v] @ [Accepted ?v] @ [Ran 0] @
      [Ran 0] @ [Ran 0] @ [Ran 0]) (?S lone_spent [])"
    unfolding append_assoc [symmetric] by (meson pool_run.intros)
  then show ?thesis by simp
qed

text \<open>The function of a worker's work has returned, or has thrown.\<close>

definition work_over :: "worker \<Rightarrow> bool" where
  "work_over w \<longleftrightarrow>
     (\<exists>r f. held_by w = {#(r, User_function f)#} \<and>
        w_executed w = (case f r of None \<Rightarrow> [] | Some resp \<Rightarrow> [(r, resp)]))"

section \<open>Properties\<close>

text \<open>
  C9 A pool of newly constructed workers, whatever value their uninitialised \<open>mShutdown\<close> has, its
  threads and any number of concurrent callers of \<open>addWork\<close>, interleaved in any way: every work
  that was handed in is at all times in exactly one place, in a call that has not delivered it
  yet, in the promise of exactly one worker, or refused; and what a thread has run is the one
  work its own worker holds. So no work is lost, invented, run twice or run by two threads.
\<close>

theorem pool_conserves_works:
  assumes "WorkerPool_new (Worker_new indet) nb = Inr p"
    and "pool_run \<lparr>ps_pool = p, ps_calls = []\<rparr> ls S"
  shows "reserved ls = mset (map snd (ps_calls S)) + held (ps_pool S) + refused ls \<and>
    (\<forall>w \<in> set (mWorkers (ps_pool S)). w_executed w = [] \<or>
       (\<exists>r f resp. held_by w = {#(r, User_function f)#} \<and> f r = Some resp \<and> w_executed w = [(r, resp)]))"
proof -
  note inv = system_inv_run [OF assms(2) system_inv_start [OF assms(1)]]
  have "w_executed w = [] \<or> (\<exists>r f resp. held_by w = {#(r, User_function f)#} \<and> f r = Some resp \<and> w_executed w = [(r, resp)])"
    if "w \<in> set (mWorkers (ps_pool S))" for w
  proof -
    have "pooled w" using inv that by (simp add: system_inv_def)
    from pooled_executed [OF this] show ?thesis by (auto simp: held_by_def)
  qed
  with inv show ?thesis by (simp add: system_inv_def)
qed

theorem pool_conserves_works_witness:
  "reserved [Reserved (sample_work ''a''), Accepted (sample_work ''a''), Ran 0, Ran 0, Ran 0, Ran 0] =
     held (lone_pool lone_spent) \<and> held (lone_pool lone_spent) = {#sample_work ''a''#} \<and> w_executed lone_spent \<noteq> []"
  using pool_conserves_works [OF lone_new lone_run]
  by (simp add: refused_def reserved_def lone_pool_def lone_spent_def)

text \<open>
  C8 A pool that is used brings the program down, where the \<open>mShutdown\<close> of its workers, which
  the constructor leaves uninitialised, happens to be false: the threads of a pool of \<open>n\<close> workers
  take at most \<open>4 n\<close> steps in any run, and when none of them can take another one, although some
  worker was given work, then \<open>std::terminate\<close> was called in a thread whose work threw, or
  returned and let the thread come back to its loop. (Where the flag happens to be true the
  threads end at once and the work is never run: theory \<open>Workers\<close>.)
\<close>

theorem pool_use_ends_in_terminate:
  assumes "WorkerPool_new (Worker_new False) nb = Inr p"
    and "pool_run \<lparr>ps_pool = p, ps_calls = []\<rparr> ls S"
  shows "length (filter is_run ls) \<le> 4 * nat (sint nb) \<and>
    (held (ps_pool S) \<noteq> {#} \<and> (\<forall>i T. \<not> pool_step S (Ran i) T) \<longrightarrow>
      (\<exists>w \<in> set (mWorkers (ps_pool S)). w_pc w = Crashed Std_terminate \<and> work_over w))"
proof -
  note inv = system_inv_run [OF assms(2) system_inv_start [OF assms(1)]]
  let ?ws = "mWorkers (ps_pool S)"
  have pooled: "pooled w" and flag: "\<not> mShutdown w" if "w \<in> set ?ws" for w
    using inv that by (simp_all add: system_inv_def)
  have crashed: "w_pc w = Crashed Std_terminate \<and> work_over w"
    if "w \<in> set ?ws" "w_pc w = Crashed e" for w e
    using pooled [OF that(1)] flag [OF that(1)] that(2) by (auto simp: pooled_def work_over_def held_by_def)
  have "\<exists>w \<in> set ?ws. w_pc w = Crashed Std_terminate \<and> work_over w"
    if work: "held (ps_pool S) \<noteq> {#}" and stuck: "\<forall>i T. \<not> pool_step S (Ran i) T"
  proof (cases "pool_alive (ps_pool S)")
    case False
    then show ?thesis using crashed by (auto simp: pool_alive_def)
  next
    case True
    obtain w where w: "w \<in> set ?ws" "held_by w \<noteq> {#}"
      using held_nonempty [OF work] by blast
    then obtain i where i: "i < length ?ws" "?ws ! i = w" by (auto simp: in_set_conv_nth)
    have "Worker_thread_step w = None"
      using stuck pool_step.run [OF True i(1)] i(2) by (cases "Worker_thread_step w") auto
    moreover have "pr_value (mPromiseToWork w) \<noteq> None" using w(2) by (auto simp: held_by_def split: option.splits)
    ultimately have "w_pc w = Crashed Std_terminate"
      by (intro pooled_progress [OF pooled [OF w(1)]] flag [OF w(1)])
    then show ?thesis using crashed [OF w(1)] w(1) by blast
  qed
  with inv show ?thesis by (auto simp: system_inv_def)
qed

theorem pool_use_ends_in_terminate_witness:
  "held (lone_pool lone_spent) \<noteq> {#} \<and>
   (\<exists>w \<in> set (mWorkers (lone_pool lone_spent)). w_pc w = Crashed Std_terminate \<and> work_over w)"
proof -
  have "held (lone_pool lone_spent) \<noteq> {#}"
    by (simp add: held_def held_by_def lone_pool_def lone_spent_def lone_taken_def)
  moreover have "\<not> pool_step \<lparr>ps_pool = lone_pool lone_spent, ps_calls = []\<rparr> (Ran i) T" for i T
    by (auto simp: lone_pool_def lone_spent_def pool_alive_def elim!: pool_stepE split: sum.splits)
  ultimately show ?thesis
    using pool_use_ends_in_terminate [OF lone_new lone_run] by simp
qed

end
