(* ===== verification/Interfaces.thy ===== *)
theory Interfaces
  imports Worker_Pool
begin

text \<open>
  \<open>client/interface/IClient\<close> and \<open>server/interface/IServer\<close>: what the two abstract classes
  implement themselves. A client keeps the function object that it was built with and hands
  responses to it; a server keeps a pointer to a pool that it does not own and passes work
  on to it. What their pure virtual operations do is up to the platform classes.
\<close>

section \<open>IClient\<close>

text \<open>
  A function object of the user is an action on the user's state; it may throw, as an empty
  \<open>std::function\<close> does.
\<close>

type_synonym 's ClientResponseCallback = "HttpResponse \<Rightarrow> ('s, unit) act"

record 's IClient =
  ic_mCallback :: "'s ClientResponseCallback"

definition IClient_new :: "'s ClientResponseCallback \<Rightarrow> 's IClient" where
  "IClient_new callback = \<lparr>ic_mCallback = callback\<rparr>"

definition IClient_receiveResponseFromServer :: "'s IClient \<Rightarrow> HttpResponse \<Rightarrow> ('s, unit) act" where
  "IClient_receiveResponseFromServer client resp = ic_mCallback client resp"

text \<open>Responses reach the user in the order in which they are received.\<close>

lemma IClient_delivers_in_order:
  assumes "\<And>resp us. callback resp us = (Inr (), us @ [HttpResponse_getBody resp])"
  shows "for_each (IClient_receiveResponseFromServer (IClient_new callback)) resps us =
    (Inr (), us @ map HttpResponse_getBody resps)"
proof (induction resps arbitrary: us)
  case Nil
  show ?case by (simp add: act_simps)
next
  case (Cons resp resps)
  then show ?case
    by (simp add: seqE_def bindE_def IClient_receiveResponseFromServer_def IClient_new_def assms)
qed

section \<open>IServer\<close>

text \<open>
  Pools live on a heap, since several servers may hold a pointer to one of them.
\<close>

record pool_heap =
  ph_pools :: "addr \<rightharpoonup> worker pool"

record IServer =
  is_mPool :: addr

definition IServer_new :: "addr \<Rightarrow> IServer" where
  "IServer_new pool = \<lparr>is_mPool = pool\<rparr>"

definition IServer_addWork :: "IServer \<Rightarrow> Work \<Rightarrow> ('a pool_heap_scheme, unit) act" where
  "IServer_addWork server func s =
     (case ph_pools s (is_mPool server) of
        None \<Rightarrow> (Inl (Undefined_behaviour ''use of a dead pool''), s)
      | Some p \<Rightarrow>
          (case WorkerPool_addWork func p of
             (r, p') \<Rightarrow> (r, s\<lparr>ph_pools := (ph_pools s)(is_mPool server \<mapsto> p')\<rparr>)))"

text \<open>
  Servers that hold the same pool draw on it as one: any sequence of their calls does to the
  pool what the same works given to the pool itself do.
\<close>

definition servers_addWork :: "(IServer \<times> Work) list \<Rightarrow> ('a pool_heap_scheme, unit) act" where
  "servers_addWork calls = for_each (\<lambda>(server, work). IServer_addWork server work) calls"

lemma servers_share_pool:
  assumes "\<forall>call \<in> set calls. is_mPool (fst call) = q"
    and "ph_pools s q = Some p"
  shows "servers_addWork calls s =
    (case for_each WorkerPool_addWork (map snd calls) p of
       (r, p') \<Rightarrow> (r, s\<lparr>ph_pools := (ph_pools s)(q \<mapsto> p')\<rparr>))"
  using assms
proof (induction calls arbitrary: s p)
  case Nil
  then have "(ph_pools s)(q \<mapsto> p) = ph_pools s" by (intro ext) simp
  then show ?case by (simp add: servers_addWork_def act_simps del: fun_upd_apply)
next
  case (Cons call calls)
  obtain server work where call: "call = (server, work)" by (cases call)
  then have q: "is_mPool server = q" using Cons.prems(1) by simp
  obtain r p' where p': "WorkerPool_addWork work p = (r, p')"
    by (cases "WorkerPool_addWork work p")
  then have step: "IServer_addWork server work s = (r, s\<lparr>ph_pools := (ph_pools s)(q \<mapsto> p')\<rparr>)"
    by (simp add: IServer_addWork_def q Cons.prems(2))
  have IH: "servers_addWork calls (s\<lparr>ph_pools := (ph_pools s)(q \<mapsto> p')\<rparr>) =
    (case for_each WorkerPool_addWork (map snd calls) p' of
       (r, p'') \<Rightarrow> (r, s\<lparr>ph_pools := (ph_pools s)(q \<mapsto> p'')\<rparr>))"
    using Cons.IH [of "s\<lparr>ph_pools := (ph_pools s)(q \<mapsto> p')\<rparr>" p'] Cons.prems(1)
    by (simp add: fun_upd_same del: fun_upd_apply)
  show ?case
  proof (cases r)
    case (Inl e)
    then show ?thesis
      by (simp add: servers_addWork_def call seqE_def bindE_def step p' del: fun_upd_apply)
  next
    case (Inr u)
    with IH show ?thesis
      by (simp add: servers_addWork_def call seqE_def bindE_def step p' del: fun_upd_apply)
  qed
qed

end
