(* ===== verification/Posix_Kernel.thy ===== *)
theory Posix_Kernel
  imports C11_Prelude
begin

unbundle bit_operations_syntax

text \<open>
  The operating system below the posix implementation. It is not part of the repository, so
  it is a parameter \<open>K\<close> of every definition that calls it: one function per system call,
  from the history of the run and the arguments to the result. A run appends what it does
  to its trace: each system call with its result and each call of the user's callback.
  Everything a component did and reported, in order, is in the trace.

  Memory that the program reads before it wrote it holds the values \<open>indet_int\<close>,
  \<open>indet_buffer\<close> and \<open>indet_fd_set\<close> of the parameter.
\<close>

section \<open>Events\<close>

datatype sock_option = SO_REUSEADDR | SO_LINGER

datatype recv_flag = No_flags | MSG_WAITALL

datatype poll_interest = Poll_in_pri | Poll_out

record sockaddr_in =
  sin_addr :: "32 word"
  sin_port :: "16 word"

text \<open>The calls of the platform callback (\<open>posix/Callback.h\<close>).\<close>

datatype callback_event =
    Cb_sendComplete bytes nat
  | Cb_sendFailed bytes string
  | Cb_receiveComplete bytes bytes
  | Cb_connected bytes
  | Cb_disconnected bytes

datatype event =
    Ev_socket int
  | Ev_setsockopt int sock_option int int
  | Ev_bind int sockaddr_in int
  | Ev_listen int int int
  | Ev_accept int int
  | Ev_connect int sockaddr_in int
  | Ev_getfl int int
  | Ev_setfl int int
  | Ev_send int bytes int
  | Ev_recv int nat recv_flag int bytes
  | Ev_poll int poll_interest int
  | Ev_pipe int int int
  | Ev_write int bytes int
  | Ev_select int "int set" "int set" int "int set" "int set"
  | Ev_shutdown int
  | Ev_close int
  | Ev_callback callback_event

record posix =
  k_socket :: "event list \<Rightarrow> int"
  k_setsockopt :: "event list \<Rightarrow> int \<Rightarrow> sock_option \<Rightarrow> int \<Rightarrow> int"
  k_bind :: "event list \<Rightarrow> int \<Rightarrow> sockaddr_in \<Rightarrow> int"
  k_listen :: "event list \<Rightarrow> int \<Rightarrow> int \<Rightarrow> int"
  k_accept :: "event list \<Rightarrow> int \<Rightarrow> int"
  k_connect :: "event list \<Rightarrow> int \<Rightarrow> sockaddr_in \<Rightarrow> int"
  k_getfl :: "event list \<Rightarrow> int \<Rightarrow> int"
  k_send :: "event list \<Rightarrow> int \<Rightarrow> bytes \<Rightarrow> int"
  k_recv :: "event list \<Rightarrow> int \<Rightarrow> nat \<Rightarrow> recv_flag \<Rightarrow> int \<times> bytes"
  k_poll :: "event list \<Rightarrow> int \<Rightarrow> poll_interest \<Rightarrow> int"
  k_pipe :: "event list \<Rightarrow> int \<times> int \<times> int"
  k_write :: "event list \<Rightarrow> int \<Rightarrow> bytes \<Rightarrow> int"
  k_select :: "event list \<Rightarrow> int \<Rightarrow> int set \<Rightarrow> int set \<Rightarrow> int \<times> int set \<times> int set"
  k_strerror :: "event list \<Rightarrow> string"
  k_htons :: "16 word \<Rightarrow> 16 word"
  k_inet_pton :: "string \<Rightarrow> int \<times> 32 word"
  O_NONBLOCK :: int
  FD_SETSIZE :: int
  indet_int :: int
  indet_buffer :: bytes
  indet_fd_set :: "int set"

record io =
  io_trace :: "event list"

section \<open>System calls as actions\<close>

definition emit :: "event \<Rightarrow> ('a io_scheme, unit) act" where
  "emit e = modify (\<lambda>s. s\<lparr>io_trace := io_trace s @ [e]\<rparr>)"

definition sys_socket :: "posix \<Rightarrow> ('a io_scheme, int) act" where
  "sys_socket K s = (let r = k_socket K (io_trace s) in
     (Inr r, s\<lparr>io_trace := io_trace s @ [Ev_socket r]\<rparr>))"

definition sys_setsockopt :: "posix \<Rightarrow> int \<Rightarrow> sock_option \<Rightarrow> int \<Rightarrow> ('a io_scheme, int) act" where
  "sys_setsockopt K fd opt v s = (let r = k_setsockopt K (io_trace s) fd opt v in
     (Inr r, s\<lparr>io_trace := io_trace s @ [Ev_setsockopt fd opt v r]\<rparr>))"

definition sys_bind :: "posix \<Rightarrow> int \<Rightarrow> sockaddr_in \<Rightarrow> ('a io_scheme, int) act" where
  "sys_bind K fd a s = (let r = k_bind K (io_trace s) fd a in
     (Inr r, s\<lparr>io_trace := io_trace s @ [Ev_bind fd a r]\<rparr>))"

definition sys_listen :: "posix \<Rightarrow> int \<Rightarrow> int \<Rightarrow> ('a io_scheme, int) act" where
  "sys_listen K fd n s = (let r = k_listen K (io_trace s) fd n in
     (Inr r, s\<lparr>io_trace := io_trace s @ [Ev_listen fd n r]\<rparr>))"

definition sys_accept :: "posix \<Rightarrow> int \<Rightarrow> ('a io_scheme, int) act" where
  "sys_accept K fd s = (let r = k_accept K (io_trace s) fd in
     (Inr r, s\<lparr>io_trace := io_trace s @ [Ev_accept fd r]\<rparr>))"

definition sys_connect :: "posix \<Rightarrow> int \<Rightarrow> sockaddr_in \<Rightarrow> ('a io_scheme, int) act" where
  "sys_connect K fd a s = (let r = k_connect K (io_trace s) fd a in
     (Inr r, s\<lparr>io_trace := io_trace s @ [Ev_connect fd a r]\<rparr>))"

definition sys_getfl :: "posix \<Rightarrow> int \<Rightarrow> ('a io_scheme, int) act" where
  "sys_getfl K fd s = (let r = k_getfl K (io_trace s) fd in
     (Inr r, s\<lparr>io_trace := io_trace s @ [Ev_getfl fd r]\<rparr>))"

definition sys_setfl :: "int \<Rightarrow> int \<Rightarrow> ('a io_scheme, unit) act" where
  "sys_setfl fd v = emit (Ev_setfl fd v)"

definition sys_send :: "posix \<Rightarrow> int \<Rightarrow> bytes \<Rightarrow> ('a io_scheme, int) act" where
  "sys_send K fd d s = (let r = k_send K (io_trace s) fd d in
     (Inr r, s\<lparr>io_trace := io_trace s @ [Ev_send fd d r]\<rparr>))"

definition sys_recv :: "posix \<Rightarrow> int \<Rightarrow> nat \<Rightarrow> recv_flag \<Rightarrow> ('a io_scheme, int \<times> bytes) act" where
  "sys_recv K fd n f s = (case k_recv K (io_trace s) fd n f of (r, d) \<Rightarrow>
     (Inr (r, d), s\<lparr>io_trace := io_trace s @ [Ev_recv fd n f r d]\<rparr>))"

definition sys_poll :: "posix \<Rightarrow> int \<Rightarrow> poll_interest \<Rightarrow> ('a io_scheme, int) act" where
  "sys_poll K fd i s = (let r = k_poll K (io_trace s) fd i in
     (Inr r, s\<lparr>io_trace := io_trace s @ [Ev_poll fd i r]\<rparr>))"

definition sys_pipe :: "posix \<Rightarrow> ('a io_scheme, int \<times> int \<times> int) act" where
  "sys_pipe K s = (case k_pipe K (io_trace s) of (r, a, b) \<Rightarrow>
     (Inr (r, a, b), s\<lparr>io_trace := io_trace s @ [Ev_pipe r a b]\<rparr>))"

definition sys_write :: "posix \<Rightarrow> int \<Rightarrow> bytes \<Rightarrow> ('a io_scheme, int) act" where
  "sys_write K fd d s = (let r = k_write K (io_trace s) fd d in
     (Inr r, s\<lparr>io_trace := io_trace s @ [Ev_write fd d r]\<rparr>))"

definition sys_select :: "posix \<Rightarrow> int \<Rightarrow> int set \<Rightarrow> int set \<Rightarrow>
    ('a io_scheme, int \<times> int set \<times> int set) act" where
  "sys_select K n rd wr s = (case k_select K (io_trace s) n rd wr of (r, rd', wr') \<Rightarrow>
     (Inr (r, rd', wr'), s\<lparr>io_trace := io_trace s @ [Ev_select n rd wr r rd' wr']\<rparr>))"

definition sys_shutdown :: "int \<Rightarrow> ('a io_scheme, unit) act" where
  "sys_shutdown fd = emit (Ev_shutdown fd)"

definition sys_close :: "int \<Rightarrow> ('a io_scheme, unit) act" where
  "sys_close fd = emit (Ev_close fd)"

text \<open>A runtime error whose message ends in the text of the last error.\<close>

definition throw_errno :: "posix \<Rightarrow> string \<Rightarrow> ('a io_scheme, 'b) act" where
  "throw_errno K msg s = (Inl (Runtime_error (msg @ k_strerror K (io_trace s))), s)"

lemmas sys_defs = emit_def sys_socket_def sys_setsockopt_def sys_bind_def sys_listen_def
  sys_accept_def sys_connect_def sys_getfl_def sys_setfl_def sys_send_def sys_recv_def
  sys_poll_def sys_pipe_def sys_write_def sys_select_def sys_shutdown_def sys_close_def
  throw_errno_def

text \<open>
  Every system call leaves the state alone except for the trace, so its weakest precondition
  is the postcondition at the longer trace.
\<close>

lemma wp_sys [wp_simps]:
  "wp (emit e) Q E s = Q () (s\<lparr>io_trace := io_trace s @ [e]\<rparr>)"
  "wp (sys_socket K) R E s = (let r = k_socket K (io_trace s) in
     R r (s\<lparr>io_trace := io_trace s @ [Ev_socket r]\<rparr>))"
  "wp (sys_setsockopt K fd opt v) R E s = (let r = k_setsockopt K (io_trace s) fd opt v in
     R r (s\<lparr>io_trace := io_trace s @ [Ev_setsockopt fd opt v r]\<rparr>))"
  "wp (sys_bind K fd a) R E s = (let r = k_bind K (io_trace s) fd a in
     R r (s\<lparr>io_trace := io_trace s @ [Ev_bind fd a r]\<rparr>))"
  "wp (sys_listen K fd n) R E s = (let r = k_listen K (io_trace s) fd n in
     R r (s\<lparr>io_trace := io_trace s @ [Ev_listen fd n r]\<rparr>))"
  "wp (sys_accept K fd) R E s = (let r = k_accept K (io_trace s) fd in
     R r (s\<lparr>io_trace := io_trace s @ [Ev_accept fd r]\<rparr>))"
  "wp (sys_connect K fd a) R E s = (let r = k_connect K (io_trace s) fd a in
     R r (s\<lparr>io_trace := io_trace s @ [Ev_connect fd a r]\<rparr>))"
  "wp (sys_getfl K fd) R E s = (let r = k_getfl K (io_trace s) fd in
     R r (s\<lparr>io_trace := io_trace s @ [Ev_getfl fd r]\<rparr>))"
  "wp (sys_setfl fd v) Q E s = Q () (s\<lparr>io_trace := io_trace s @ [Ev_setfl fd v]\<rparr>)"
  "wp (sys_send K fd d) R E s = (let r = k_send K (io_trace s) fd d in
     R r (s\<lparr>io_trace := io_trace s @ [Ev_send fd d r]\<rparr>))"
  "wp (sys_recv K fd m f) T E s = (case k_recv K (io_trace s) fd m f of (r, d) \<Rightarrow>
     T (r, d) (s\<lparr>io_trace := io_trace s @ [Ev_recv fd m f r d]\<rparr>))"
  "wp (sys_poll K fd i) R E s = (let r = k_poll K (io_trace s) fd i in
     R r (s\<lparr>io_trace := io_trace s @ [Ev_poll fd i r]\<rparr>))"
  "wp (sys_pipe K) U E s = (case k_pipe K (io_trace s) of (r, a, b) \<Rightarrow>
     U (r, a, b) (s\<lparr>io_trace := io_trace s @ [Ev_pipe r a b]\<rparr>))"
  "wp (sys_write K fd d) R E s = (let r = k_write K (io_trace s) fd d in
     R r (s\<lparr>io_trace := io_trace s @ [Ev_write fd d r]\<rparr>))"
  "wp (sys_select K n rd wr) V E s = (case k_select K (io_trace s) n rd wr of (r, rd', wr') \<Rightarrow>
     V (r, rd', wr') (s\<lparr>io_trace := io_trace s @ [Ev_select n rd wr r rd' wr']\<rparr>))"
  "wp (sys_shutdown fd) Q E s = Q () (s\<lparr>io_trace := io_trace s @ [Ev_shutdown fd]\<rparr>)"
  "wp (sys_close fd) Q E s = Q () (s\<lparr>io_trace := io_trace s @ [Ev_close fd]\<rparr>)"
  "wp (throw_errno K msg) W E s = E (Runtime_error (msg @ k_strerror K (io_trace s))) s"
  by (simp_all add: sys_defs wp_def modify_def Let_def split: prod.splits)

section \<open>Descriptor sets\<close>

text \<open>
  \<open>fd_set\<close> is a bit field for the descriptors below \<open>FD_SETSIZE\<close>; setting, clearing
  or testing any other descriptor is undefined behaviour.
\<close>

definition fd_in_range :: "posix \<Rightarrow> int \<Rightarrow> bool" where
  "fd_in_range K fd \<longleftrightarrow> 0 \<le> fd \<and> fd < FD_SETSIZE K"

definition check_fd :: "posix \<Rightarrow> int \<Rightarrow> ('s, unit) act" where
  "check_fd K fd =
     (if fd_in_range K fd then skip else throw (Undefined_behaviour ''descriptor outside fd_set''))"

lemma wp_check_fd [wp_simps]:
  "wp (check_fd K fd) Q E s =
     (if fd_in_range K fd then Q () s else E (Undefined_behaviour ''descriptor outside fd_set'') s)"
  by (simp add: check_fd_def wp_simps)

lemma check_fd_run [act_simps]: "fd_in_range K fd \<Longrightarrow> check_fd K fd s = (Inr (), s)"
  by (simp add: check_fd_def act_simps)

section \<open>The user's callback\<close>

text \<open>
  A call through the callback pointer; \<open>cb\<close> says whether it points to an object. What the
  user's code does in the callback is not modelled beyond the call itself.
\<close>

definition call_callback :: "bool \<Rightarrow> callback_event \<Rightarrow> ('a io_scheme, unit) act" where
  "call_callback cb e =
     (if cb then emit (Ev_callback e) else throw (Undefined_behaviour ''null callback''))"

lemma wp_call_callback [wp_simps]:
  "wp (call_callback cb e) Q E s =
     (if cb then Q () (s\<lparr>io_trace := io_trace s @ [Ev_callback e]\<rparr>)
      else E (Undefined_behaviour ''null callback'') s)"
  by (simp add: call_callback_def wp_simps)

section \<open>What a trace says\<close>

text \<open>The descriptors the process holds after a trace.\<close>

fun track_fd :: "int set \<Rightarrow> event \<Rightarrow> int set" where
  "track_fd S (Ev_socket r) = (if r = -1 then S else insert r S)"
| "track_fd S (Ev_accept fd r) = (if r = -1 then S else insert r S)"
| "track_fd S (Ev_pipe r a b) = (if r = -1 then S else insert a (insert b S))"
| "track_fd S (Ev_close fd) = S - {fd}"
| "track_fd S _ = S"

definition open_fds :: "event list \<Rightarrow> int set" where
  "open_fds tr = foldl track_fd {} tr"

lemma open_fds_Nil [simp]: "open_fds [] = {}"
  by (simp add: open_fds_def)

lemma open_fds_snoc [simp]: "open_fds (tr @ [e]) = track_fd (open_fds tr) e"
  by (simp add: open_fds_def)

text \<open>The callback calls of a trace, and the bytes given to one descriptor to send.\<close>

fun callback_of :: "event \<Rightarrow> callback_event list" where
  "callback_of (Ev_callback c) = [c]"
| "callback_of _ = []"

definition callbacks :: "event list \<Rightarrow> callback_event list" where
  "callbacks tr = concat (map callback_of tr)"

lemma callbacks_simps [simp]:
  "callbacks [] = []"
  "callbacks (a @ b) = callbacks a @ callbacks b"
  "callbacks (e # a) = callback_of e @ callbacks a"
  by (simp_all add: callbacks_def)

fun sent_of :: "int \<Rightarrow> event \<Rightarrow> bytes list" where
  "sent_of fd (Ev_send fd' d r) = (if fd' = fd then [d] else [])"
| "sent_of fd _ = []"

definition sent_on :: "int \<Rightarrow> event list \<Rightarrow> bytes list" where
  "sent_on fd tr = concat (map (sent_of fd) tr)"

lemma sent_on_simps [simp]:
  "sent_on fd [] = []"
  "sent_on fd (a @ b) = sent_on fd a @ sent_on fd b"
  "sent_on fd (e # a) = sent_of fd e @ sent_on fd a"
  by (simp_all add: sent_on_def)

text \<open>The descriptors closed, in order, with repetitions.\<close>

fun closed_by :: "event \<Rightarrow> int list" where
  "closed_by (Ev_close fd) = [fd]"
| "closed_by _ = []"

definition closes :: "event list \<Rightarrow> int list" where
  "closes tr = concat (map closed_by tr)"

lemma closes_simps [simp]:
  "closes [] = []"
  "closes (a @ b) = closes a @ closes b"
  "closes (e # a) = closed_by e @ closes a"
  by (simp_all add: closes_def)

section \<open>Documented behaviour of the kernel\<close>

text \<open>
  \<open>recv\<close> returns -1, or the number of bytes it stored, at most the room it was given.
\<close>

definition recv_fits :: "posix \<Rightarrow> bool" where
  "recv_fits K \<longleftrightarrow> (\<forall>tr fd n f r d. k_recv K tr fd n f = (r, d) \<longrightarrow>
     (r = -1 \<and> d = []) \<or> (r = int (length d) \<and> length d \<le> n))"

lemma recv_fitsD:
  assumes "recv_fits K" and "k_recv K tr fd n f = (r, d)"
  shows "r = -1 \<and> d = [] \<or> r = int (length d) \<and> length d \<le> n"
  using assms unfolding recv_fits_def by blast

text \<open>
  A new descriptor is not negative and not one that is still open; \<open>accept\<close> may fail
  with -1.
\<close>

definition accept_fresh :: "posix \<Rightarrow> bool" where
  "accept_fresh K \<longleftrightarrow> (\<forall>tr fd. k_accept K tr fd = -1 \<or>
     (0 \<le> k_accept K tr fd \<and> k_accept K tr fd \<notin> open_fds tr))"

text \<open>
  \<open>select\<close> only returns descriptors it was asked about, below its first argument.
\<close>

definition select_subset :: "posix \<Rightarrow> bool" where
  "select_subset K \<longleftrightarrow> (\<forall>tr n rd wr. case k_select K tr n rd wr of (r, rd', wr') \<Rightarrow>
     rd' \<subseteq> rd \<and> wr' \<subseteq> wr \<and> (\<forall>fd \<in> rd' \<union> wr'. fd < n))"

lemma select_subsetD:
  assumes "select_subset K" and "k_select K tr n rd wr = (r, rd', wr')"
  shows "rd' \<subseteq> rd" "wr' \<subseteq> wr" "\<forall>fd \<in> rd' \<union> wr'. fd < n"
proof -
  have "case k_select K tr n rd wr of (r, rd', wr') \<Rightarrow>
      rd' \<subseteq> rd \<and> wr' \<subseteq> wr \<and> (\<forall>fd \<in> rd' \<union> wr'. fd < n)"
    using assms(1) by (simp add: select_subset_def)
  then show "rd' \<subseteq> rd" "wr' \<subseteq> wr" "\<forall>fd \<in> rd' \<union> wr'. fd < n" using assms(2) by auto
qed

text \<open>
  A scripted kernel: a small instance for concrete runs. New descriptors count up from 3,
  \<open>accept\<close> fails when they reach 1024, every other call succeeds, every \<open>send\<close> takes all its bytes, and \<open>recv\<close> answers what
  \<open>feed\<close> says for the history.
\<close>

fun new_fds :: "event \<Rightarrow> int list" where
  "new_fds (Ev_socket r) = [r]"
| "new_fds (Ev_accept fd r) = [r]"
| "new_fds (Ev_pipe r a b) = [a, b]"
| "new_fds _ = []"

definition next_fd :: "event list \<Rightarrow> int" where
  "next_fd tr = 1 + foldr max (concat (map new_fds tr)) 2"

definition scripted :: "(event list \<Rightarrow> int \<Rightarrow> bytes) \<Rightarrow> (event list \<Rightarrow> int set \<times> int set) \<Rightarrow> posix" where
  "scripted feed ready =
     \<lparr>k_socket = next_fd, k_setsockopt = (\<lambda>_ _ _ _. 0), k_bind = (\<lambda>_ _ _. 0),
      k_listen = (\<lambda>_ _ _. 0), k_accept = (\<lambda>tr _. if next_fd tr < 1024 then next_fd tr else -1), k_connect = (\<lambda>_ _ _. 0),
      k_getfl = (\<lambda>_ _. 2), k_send = (\<lambda>_ _ d. int (length d)),
      k_recv = (\<lambda>tr fd n _. let d = take n (feed tr fd) in (int (length d), d)),
      k_poll = (\<lambda>_ _ _. 1), k_pipe = (\<lambda>tr. (0, next_fd tr, next_fd tr + 1)),
      k_write = (\<lambda>_ _ d. int (length d)),
      k_select = (\<lambda>tr n rd wr. (1, {fd \<in> fst (ready tr). fd \<in> rd \<and> fd < n},
        {fd \<in> snd (ready tr). fd \<in> wr \<and> fd < n})),
      k_strerror = (\<lambda>_. ''error''), k_htons = (\<lambda>x. x), k_inet_pton = (\<lambda>_. (1, 0x7F000001)),
      O_NONBLOCK = 2048, FD_SETSIZE = 1024, indet_int = 0, indet_buffer = replicate 1024 CHR ''?'',
      indet_fd_set = {}\<rparr>"

lemma scripted_recv_fits: "recv_fits (scripted feed ready)"
  by (auto simp: recv_fits_def scripted_def Let_def)

lemma scripted_select_subset: "select_subset (scripted feed ready)"
  by (auto simp: select_subset_def scripted_def)

lemma foldr_max_ge: "(m::int) \<le> foldr max xs m \<and> (\<forall>x \<in> set xs. x \<le> foldr max xs m)"
  by (induction xs) (auto simp: le_max_iff_disj)

lemma open_fds_new: "fd \<in> open_fds tr \<Longrightarrow> fd \<in> set (concat (map new_fds tr))"
proof (induction tr arbitrary: fd rule: rev_induct)
  case (snoc e tr)
  then show ?case by (cases e) (auto split: if_splits)
qed simp

lemma next_fd_fresh: "2 < next_fd tr" "next_fd tr \<notin> open_fds tr"
proof -
  let ?xs = "concat (map new_fds tr)"
  have "2 \<le> foldr max ?xs 2" and le: "\<forall>x \<in> set ?xs. x \<le> foldr max ?xs 2"
    using foldr_max_ge [of 2 ?xs] by blast+
  then show "2 < next_fd tr" by (simp add: next_fd_def)
  have "next_fd tr \<notin> set ?xs" using le unfolding next_fd_def by force
  then show "next_fd tr \<notin> open_fds tr" using open_fds_new by blast
qed

lemma scripted_accept_fresh: "accept_fresh (scripted feed ready)"
proof -
  have "0 \<le> next_fd tr" for tr using next_fd_fresh(1) [of tr] by simp
  then show ?thesis by (simp add: accept_fresh_def scripted_def next_fd_fresh(2))
qed

end
