(* ===== verification/Posix_Socket.thy ===== *)
theory Posix_Socket
  imports Posix_Kernel
begin

unbundle bit_operations_syntax

text \<open>
  \<open>posix/Socket\<close>: the wrapper around a file descriptor that the server, its connections
  and the client use.
\<close>

record Socket =
  mSocket :: int

definition Socket_new :: "posix \<Rightarrow> ('a io_scheme, Socket) act" where
  "Socket_new K =
     bindE (sys_socket K) (\<lambda>r.
       if r = -1 then throw_errno K ''Socket Creation Error  ''
       else ret \<lparr>mSocket = r\<rparr>)"

definition Socket_wrap :: "int \<Rightarrow> Socket" where
  "Socket_wrap fd = \<lparr>mSocket = fd\<rparr>"

definition Socket_getSocket :: "Socket \<Rightarrow> int" where
  "Socket_getSocket sck = mSocket sck"

definition Socket_makeNonBlocking :: "posix \<Rightarrow> Socket \<Rightarrow> ('a io_scheme, unit) act" where
  "Socket_makeNonBlocking K sck =
     bindE (sys_getfl K (mSocket sck)) (\<lambda>x. sys_setfl (mSocket sck) (x OR O_NONBLOCK K))"

definition Socket_makeBlocking :: "posix \<Rightarrow> Socket \<Rightarrow> ('a io_scheme, unit) act" where
  "Socket_makeBlocking K sck =
     bindE (sys_getfl K (mSocket sck)) (\<lambda>x. sys_setfl (mSocket sck) (x AND NOT (O_NONBLOCK K)))"

definition Socket_closeSocket :: "posix \<Rightarrow> Socket \<Rightarrow> ('a io_scheme, unit) act" where
  "Socket_closeSocket K sck =
     seqE (sys_shutdown (mSocket sck))
       (bindE (sys_setsockopt K (mSocket sck) SO_LINGER 0) (\<lambda>_.
          sys_close (mSocket sck)))"

lemma Socket_accessors [simp]:
  "mSocket (Socket_wrap fd) = fd"
  "Socket_getSocket (Socket_wrap fd) = fd"
  by (simp_all add: Socket_wrap_def Socket_getSocket_def)

text \<open>What closing appends to the trace.\<close>

definition close_events :: "posix \<Rightarrow> event list \<Rightarrow> int \<Rightarrow> event list" where
  "close_events K tr fd =
     [Ev_shutdown fd,
      Ev_setsockopt fd SO_LINGER 0 (k_setsockopt K (tr @ [Ev_shutdown fd]) fd SO_LINGER 0),
      Ev_close fd]"

lemma wp_closeSocket [wp_simps]:
  "wp (Socket_closeSocket K sck) Q E s =
     Q () (s\<lparr>io_trace := io_trace s @ close_events K (io_trace s) (mSocket sck)\<rparr>)"
  by (simp add: Socket_closeSocket_def close_events_def wp_simps Let_def)

lemma closeSocket_run [act_simps]:
  "Socket_closeSocket K sck s =
     (Inr (), s\<lparr>io_trace := io_trace s @ close_events K (io_trace s) (mSocket sck)\<rparr>)"
  by (simp add: Socket_closeSocket_def close_events_def sys_defs seqE_def bindE_def modify_def
      Let_def)

lemma wp_makeNonBlocking [wp_simps]:
  "wp (Socket_makeNonBlocking K sck) Q E s =
     (let fd = mSocket sck; x = k_getfl K (io_trace s) fd in
      Q () (s\<lparr>io_trace := io_trace s @ [Ev_getfl fd x, Ev_setfl fd (x OR O_NONBLOCK K)]\<rparr>))"
  by (simp add: Socket_makeNonBlocking_def wp_simps Let_def)

lemma open_fds_append: "open_fds (a @ b) = foldl track_fd (open_fds a) b"
  by (simp add: open_fds_def)

lemma open_fds_close [simp]:
  "open_fds (tr @ close_events K tr' fd) = open_fds tr - {fd}"
  by (simp add: close_events_def open_fds_append)

lemma callbacks_close [simp]: "callbacks (close_events K tr fd) = []"
  by (simp add: close_events_def callbacks_def)

lemma sent_on_close [simp]: "sent_on fd' (close_events K tr fd) = []"
  by (simp add: close_events_def sent_on_def)

section \<open>Properties\<close>

text \<open>
  Closing a socket releases exactly its own descriptor, sends nothing on any descriptor,
  and cannot fail, whatever the kernel answers to the linger option.
\<close>

theorem closeSocket_releases:
  "\<exists>s'. Socket_closeSocket K sck s = (Inr (), s') \<and>
     open_fds (io_trace s') = open_fds (io_trace s) - {mSocket sck} \<and>
     (\<forall>fd. sent_on fd (io_trace s') = sent_on fd (io_trace s))"
  by (simp add: act_simps)

text \<open>
  Making a socket non-blocking and blocking again stores flags whose non-blocking bits
  are clear and whose other bits are those the kernel held before, for any kernel that
  answers \<open>F_GETFL\<close> with the flags last stored.
\<close>

theorem blocking_roundtrip:
  assumes "\<And>tr fd x. k_getfl K (tr @ [Ev_setfl fd x]) fd = x"
  shows "\<exists>s' tr. seqE (Socket_makeNonBlocking K sck) (Socket_makeBlocking K sck) s = (Inr (), s') \<and>
     io_trace s' = tr @ [Ev_setfl (mSocket sck)
       (k_getfl K (io_trace s) (mSocket sck) AND NOT (O_NONBLOCK K))]"
proof -
  have flags: "(x OR b) AND NOT b = x AND NOT b" for x b :: int
    by (rule bit_eqI) (auto simp: bit_simps)
  let ?fd = "mSocket sck"
  have "k_getfl K (io_trace s @ [Ev_getfl ?fd x] @ [Ev_setfl ?fd y]) ?fd = y" for x y
    using assms [of "io_trace s @ [Ev_getfl ?fd x]" ?fd y] by simp
  then show ?thesis
    by (simp add: Socket_makeNonBlocking_def Socket_makeBlocking_def sys_defs seqE_def bindE_def
        modify_def Let_def flags)
qed

definition flag_kernel :: posix where
  "flag_kernel = (scripted (\<lambda>_ _. []) (\<lambda>_. ({}, {})))
     \<lparr>k_getfl := (\<lambda>tr fd. if tr = [] then 2 else (case last tr of Ev_setfl fd' x \<Rightarrow> x | _ \<Rightarrow> 2))\<rparr>"

theorem blocking_roundtrip_witness:
  "\<exists>s' tr. seqE (Socket_makeNonBlocking flag_kernel \<lparr>mSocket = 5\<rparr>)
       (Socket_makeBlocking flag_kernel \<lparr>mSocket = 5\<rparr>) \<lparr>io_trace = []\<rparr> = (Inr (), s') \<and>
     io_trace s' = tr @ [Ev_setfl 5 2]"
  using blocking_roundtrip [of flag_kernel "\<lparr>mSocket = 5\<rparr>" "\<lparr>io_trace = []\<rparr>"]
  by (simp add: flag_kernel_def scripted_def)

end
