(* ===== verification/Posix_Client_Socket.thy ===== *)
theory Posix_Client_Socket
  imports Posix_Socket
begin

unbundle bit_operations_syntax

text \<open>
  \<open>client/posix/Socket\<close>: the client library builds a socket wrapper of its own, from its
  own two files. It is modelled from those files, and every operation is then shown to be
  that of the server's wrapper on the same descriptor, so that the client's proofs use one
  set of rules.
\<close>

record Client_Socket =
  csk_mSocket :: int

definition Client_Socket_new :: "posix \<Rightarrow> ('a io_scheme, Client_Socket) act" where
  "Client_Socket_new K =
     bindE (sys_socket K) (\<lambda>fd.
       if fd = -1 then throw_errno K ''Socket Creation Error  ''
       else ret \<lparr>csk_mSocket = fd\<rparr>)"

definition Client_Socket_wrap :: "int \<Rightarrow> Client_Socket" where
  "Client_Socket_wrap fd = \<lparr>csk_mSocket = fd\<rparr>"

definition Client_Socket_getSocket :: "Client_Socket \<Rightarrow> int" where
  "Client_Socket_getSocket sck = csk_mSocket sck"

definition Client_Socket_makeNonBlocking :: "posix \<Rightarrow> Client_Socket \<Rightarrow> ('a io_scheme, unit) act" where
  "Client_Socket_makeNonBlocking K sck =
     bindE (sys_getfl K (csk_mSocket sck)) (\<lambda>x. sys_setfl (csk_mSocket sck) (x OR O_NONBLOCK K))"

definition Client_Socket_makeBlocking :: "posix \<Rightarrow> Client_Socket \<Rightarrow> ('a io_scheme, unit) act" where
  "Client_Socket_makeBlocking K sck =
     bindE (sys_getfl K (csk_mSocket sck)) (\<lambda>x. sys_setfl (csk_mSocket sck) (x AND NOT (O_NONBLOCK K)))"

definition Client_Socket_closeSocket :: "posix \<Rightarrow> Client_Socket \<Rightarrow> ('a io_scheme, unit) act" where
  "Client_Socket_closeSocket K sck =
     seqE (sys_shutdown (csk_mSocket sck))
       (bindE (sys_setsockopt K (csk_mSocket sck) SO_LINGER 0) (\<lambda>_.
          sys_close (csk_mSocket sck)))"

section \<open>The wrappers of the two libraries agree\<close>

definition server_wrapper :: "Client_Socket \<Rightarrow> Socket" where
  "server_wrapper sck = Socket_wrap (csk_mSocket sck)"

lemma server_wrapper_mSocket [simp]: "mSocket (server_wrapper sck) = csk_mSocket sck"
  by (simp add: server_wrapper_def)

lemma Client_Socket_accessors [simp]:
  "csk_mSocket (Client_Socket_wrap fd) = fd"
  "Client_Socket_getSocket sck = csk_mSocket sck"
  by (simp_all add: Client_Socket_wrap_def Client_Socket_getSocket_def)

text \<open>
  A new socket is the server's up to the wrapper; closing it and changing its blocking mode
  are the server's operations.
\<close>

lemma Client_Socket_new_server:
  "Client_Socket_new K = bindE (Socket_new K) (\<lambda>sck. ret (Client_Socket_wrap (mSocket sck)))"
  by (rule ext) (simp add: Client_Socket_new_def Socket_new_def Client_Socket_wrap_def sys_defs bindE_def
      throw_errno_def ret_def gets_def throw_def modify_def Let_def)

lemma Client_Socket_server [simp]:
  "Client_Socket_makeNonBlocking K sck = Socket_makeNonBlocking K (server_wrapper sck)"
  "Client_Socket_makeBlocking K sck = Socket_makeBlocking K (server_wrapper sck)"
  "Client_Socket_closeSocket K sck = Socket_closeSocket K (server_wrapper sck)"
  by (simp_all add: Client_Socket_makeNonBlocking_def Client_Socket_makeBlocking_def
      Client_Socket_closeSocket_def Socket_makeNonBlocking_def Socket_makeBlocking_def
      Socket_closeSocket_def)

end
