(* ===== verification/Outgoing_Queue.thy ===== *)
theory Outgoing_Queue
  imports C11_Prelude
begin

text \<open>
  The interface of a buffer of outgoing bytes, as the posix server connection and the posix
  client each keep one in \<open>mOutgoingBytes\<close>: a message is put in front of what is pending,
  and the writer takes everything that is pending at once. The lemmas say what a writer is
  given after a sequence of messages.
\<close>

locale outgoing_queue =
  fixes enqueue :: "bytes \<Rightarrow> 'q \<Rightarrow> 'q"
    and take_all :: "'q \<Rightarrow> bytes \<times> 'q"
    and pending :: "'q \<Rightarrow> bytes"
  assumes pending_enqueue: "pending (enqueue d q) = d @ pending q"
    and fst_take_all: "fst (take_all q) = pending q"
    and pending_take_all: "pending (snd (take_all q)) = []"
begin

lemma pending_fold: "pending (fold enqueue ds q) = concat (rev ds) @ pending q"
  by (induction ds arbitrary: q) (simp_all add: pending_enqueue)

lemma taken_after: "fst (take_all (fold enqueue ds q)) = concat (rev ds) @ pending q"
  by (simp add: fst_take_all pending_fold)

text \<open>Nothing is lost or made up between the messages and the writer.\<close>

lemma taken_length:
  "length (fst (take_all (fold enqueue ds q))) = length (pending q) + sum_list (map length ds)"
  by (simp add: taken_after length_concat rev_map [symmetric] sum_list_rev)

lemma taken_set: "set (fst (take_all (fold enqueue ds q))) = (\<Union>d\<in>set ds. set d) \<union> set (pending q)"
  by (simp add: taken_after)

text \<open>The order of the messages survives only where it makes no difference.\<close>

lemma in_order_iff:
  "pending q = [] \<Longrightarrow>
   fst (take_all (fold enqueue [a, b] q)) = concat [a, b] \<longleftrightarrow> b @ a = a @ b"
  using taken_after [of "[a, b]" q] by simp

lemma second_take_empty: "fst (take_all (snd (take_all q))) = []"
  by (simp add: fst_take_all pending_take_all)

end

end
