(* ===== verification/Posix_Client.thy ===== *)
theory Posix_Client
  imports Posix_Client_Socket Outgoing_Queue
begin

text \<open>
  \<open>client/posix\<close>: the client's end of a connection, as \<open>Client.cpp\<close> defines it. (The
  header beside it declares a different interface, that of \<open>IClient\<close>; its data members
  are those of the record here.) The client uses the socket wrapper of its own library.

  As for the server, the loop of \<open>waitForEvents\<close> is run over a schedule: one list of
  calls per iteration, those that other threads complete while the client is blocked in
  \<open>select\<close>.
\<close>

section \<open>State\<close>

record client = io +
  cl_mCallback :: bool
  cl_mWakeupPipe :: "int \<times> int"
  cl_mFdMax :: int
  cl_mConnected :: bool
  cl_mIdentifier :: bytes
  cl_mMasterWrite :: "int set"
  cl_mSocket :: int
  cl_mBuffer :: bytes
  cl_mOutgoingBytes :: bytes

definition cl_MAX_BUFFER_SIZE :: nat where
  "cl_MAX_BUFFER_SIZE = 1024"

definition cl_store :: "bytes \<Rightarrow> 'a client_scheme \<Rightarrow> 'a client_scheme" where
  "cl_store d s = s\<lparr>cl_mBuffer := d @ drop (length d) (cl_mBuffer s)\<rparr>"

section \<open>Construction\<close>

definition Client_fields :: "posix \<Rightarrow> bool \<Rightarrow> bytes \<Rightarrow> 'a client_scheme \<Rightarrow> 'a client_scheme" where
  "Client_fields K cb ident s =
     s\<lparr>cl_mCallback := cb, cl_mWakeupPipe := (indet_int K, indet_int K), cl_mFdMax := indet_int K,
       cl_mConnected := False, cl_mIdentifier := ident, cl_mMasterWrite := indet_fd_set K,
       cl_mSocket := indet_int K, cl_mBuffer := indet_buffer K, cl_mOutgoingBytes := []\<rparr>"

definition Client_prepareWakeupPipe :: "posix \<Rightarrow> ('a client_scheme, unit) act" where
  "Client_prepareWakeupPipe K =
     bindE (sys_pipe K) (\<lambda>(r, p0, p1).
       if r = -1 then throw_errno K ''Failed to create wakeup pipe ''
       else
         seqE (modify (\<lambda>s. s\<lparr>cl_mWakeupPipe := (p0, p1)\<rparr>))
           (modify (\<lambda>s. s\<lparr>cl_mFdMax := max (fst (cl_mWakeupPipe s)) (cl_mSocket s)\<rparr>)))"

text \<open>
  The address structure as the constructor fills it: \<open>inet_pton\<close> stores the address, then
  \<open>memset\<close> clears the whole structure, then the port is stored.
\<close>

definition memset_sockaddr :: "sockaddr_in \<Rightarrow> sockaddr_in" where
  "memset_sockaddr server = server\<lparr>sin_addr := 0, sin_port := 0\<rparr>"

definition client_address :: "posix \<Rightarrow> 32 word \<Rightarrow> 32 word \<Rightarrow> sockaddr_in" where
  "client_address K address port =
     (let server = \<lparr>sin_addr = address, sin_port = 0\<rparr>;
          server = memset_sockaddr server
      in server\<lparr>sin_port := k_htons K (ucast port)\<rparr>)"

definition Client_ctor :: "posix \<Rightarrow> bool \<Rightarrow> string \<Rightarrow> 32 word \<Rightarrow> bytes \<Rightarrow> ('a client_scheme, unit) act" where
  "Client_ctor K cb hostname port ident =
     seqE (modify (Client_fields K cb ident))
    (bindE (Client_Socket_new K) (\<lambda>connectSocket.
     seqE (modify (\<lambda>s. s\<lparr>cl_mSocket := Client_Socket_getSocket connectSocket\<rparr>))
       (case k_inet_pton K hostname of (result, address) \<Rightarrow>
          if result = 0 then throw (Runtime_error ''not in presentation format'')
          else if result < 0 then throw_errno K ''inet_pton Error ''
          else
            bindE (gets cl_mSocket) (\<lambda>fd.
            bindE (sys_connect K fd (client_address K address port)) (\<lambda>result.
              if result = -1 then throw_errno K ''failed to connect to host server ''
              else
                bindE (sys_recv K fd 4 No_flags) (\<lambda>_.
                bindE (sys_send K fd ident) (\<lambda>_.
                seqE (modify (\<lambda>s. s\<lparr>cl_mConnected := True\<rparr>))
               (seqE (Client_Socket_makeNonBlocking K connectSocket)
                  (Client_prepareWakeupPipe K)))))))))"

section \<open>Operations that any thread calls\<close>

definition Client_getCallback :: "('a client_scheme, bool) act" where
  "Client_getCallback = gets cl_mCallback"

definition Client_isConnected :: "('a client_scheme, bool) act" where
  "Client_isConnected = gets cl_mConnected"

definition Client_getSocket :: "('a client_scheme, int) act" where
  "Client_getSocket = gets cl_mSocket"

definition Client_getBuffer :: "('a client_scheme, bytes) act" where
  "Client_getBuffer = gets cl_mBuffer"

definition Client_performWakeup :: "posix \<Rightarrow> ('a client_scheme, unit) act" where
  "Client_performWakeup K =
     bindE (gets cl_mWakeupPipe) (\<lambda>wp.
     bindE (sys_poll K (snd wp) Poll_out) (\<lambda>_.
     bindE (sys_write K (snd wp) ''.'') (\<lambda>_. skip)))"

text \<open>\<open>mOutgoingBytes.insert(mOutgoingBytes.begin(), data, data + count)\<close>, and the swap.\<close>

definition cl_enqueue :: "bytes \<Rightarrow> 'a client_scheme \<Rightarrow> 'a client_scheme" where
  "cl_enqueue d s = s\<lparr>cl_mOutgoingBytes := vector_insert_begin (cl_mOutgoingBytes s) d\<rparr>"

definition cl_swap_out :: "'a client_scheme \<Rightarrow> bytes \<times> 'a client_scheme" where
  "cl_swap_out s = (cl_mOutgoingBytes s, s\<lparr>cl_mOutgoingBytes := []\<rparr>)"

interpretation cl_queue: outgoing_queue cl_enqueue cl_swap_out cl_mOutgoingBytes
  by unfold_locales (simp_all add: cl_enqueue_def cl_swap_out_def vector_insert_begin_def)

definition Client_sendDataToServer :: "posix \<Rightarrow> bytes \<Rightarrow> ('a client_scheme, unit) act" where
  "Client_sendDataToServer K data =
     whenE (0 < length data)
       (seqE (modify (cl_enqueue data))
       (bindE (gets cl_mSocket) (\<lambda>fd.
        seqE (check_fd K fd)
       (seqE (modify (\<lambda>s. s\<lparr>cl_mMasterWrite := insert fd (cl_mMasterWrite s)\<rparr>))
          (Client_performWakeup K)))))"

definition Client_disconnect :: "posix \<Rightarrow> ('a client_scheme, unit) act" where
  "Client_disconnect K =
     bindE (gets cl_mConnected) (\<lambda>connected.
     whenE connected
       (seqE (modify (\<lambda>s. s\<lparr>cl_mConnected := False\<rparr>))
       (bindE (gets cl_mSocket) (\<lambda>fd.
        bindE (sys_poll K fd Poll_out) (\<lambda>r.
          if r = -1 then throw_errno K ''Error polling for socket write ''
          else
            bindE (sys_send K fd []) (\<lambda>_.
            seqE (Client_Socket_closeSocket K (Client_Socket_wrap fd))
              (Client_performWakeup K)))))))"

definition Client_destructor :: "posix \<Rightarrow> ('a client_scheme, unit) act" where
  "Client_destructor K =
     noexceptE (bindE (gets cl_mConnected) (\<lambda>connected. whenE connected (Client_disconnect K)))"

section \<open>The select loop\<close>

definition Client_read :: "posix \<Rightarrow> ('a client_scheme, unit) act" where
  "Client_read K =
     bindE (gets cl_mSocket) (\<lambda>fd.
     bindE (sys_recv K fd cl_MAX_BUFFER_SIZE MSG_WAITALL) (\<lambda>(nbytes, d).
     seqE (modify (cl_store d))
       (if nbytes = -1 then throw_errno K ''Failed to recv from socket: ''
        else if nbytes = 0 then modify (\<lambda>s. s\<lparr>cl_mConnected := False\<rparr>)
        else
          bindE Client_getCallback (\<lambda>receiveCB.
          bindE (gets cl_mIdentifier) (\<lambda>ident.
          bindE (gets cl_mBuffer) (\<lambda>buffer.
          whenE receiveCB
            (call_callback receiveCB (Cb_receiveComplete ident (take (nat nbytes) buffer)))))))))"

definition Client_drain_wakeup :: "posix \<Rightarrow> ('a client_scheme, unit) act" where
  "Client_drain_wakeup K =
     bindE (gets cl_mWakeupPipe) (\<lambda>wp.
     bindE (sys_recv K (fst wp) cl_MAX_BUFFER_SIZE MSG_WAITALL) (\<lambda>(_, d).
     modify (cl_store d)))"

text \<open>\<open>front()\<close> of an empty vector is undefined behaviour.\<close>

definition Client_write :: "posix \<Rightarrow> ('a client_scheme, unit) act" where
  "Client_write K =
     bindE (gets cl_swap_out) (\<lambda>(bytesToSend, s').
     seqE (modify (\<lambda>_. s'))
       (if bytesToSend = [] then throw (Undefined_behaviour ''front of an empty vector'')
        else
          bindE (gets cl_mSocket) (\<lambda>fd.
          bindE (sys_send K fd bytesToSend) (\<lambda>_.
          bindE Client_getCallback (\<lambda>sendCB.
          bindE (gets cl_mIdentifier) (\<lambda>ident.
          seqE (whenE sendCB
                  (call_callback sendCB (Cb_sendComplete ident (length bytesToSend))))
         (seqE (check_fd K fd)
            (modify (\<lambda>s. s\<lparr>cl_mMasterWrite := cl_mMasterWrite s - {fd}\<rparr>)))))))))"

datatype client_call = Send_data bytes | Disconnect

fun Client_api :: "posix \<Rightarrow> client_call \<Rightarrow> ('a client_scheme, unit) act" where
  "Client_api K (Send_data d) = Client_sendDataToServer K d"
| "Client_api K Disconnect = Client_disconnect K"

definition client_threads :: "posix \<Rightarrow> client_call list \<Rightarrow> ('a client_scheme, unit) act" where
  "client_threads K calls = for_each (\<lambda>c. tryE (Client_api K c) (\<lambda>_. skip)) calls"

text \<open>\<open>waitForEvents\<close> up to the loop; the result is \<open>masterRead\<close>.\<close>

definition Client_prepare :: "posix \<Rightarrow> ('a client_scheme, int set) act" where
  "Client_prepare K =
     seqE (modify (\<lambda>s. s\<lparr>cl_mMasterWrite := {}\<rparr>))
    (bindE (gets cl_mWakeupPipe) (\<lambda>wp.
     bindE (gets cl_mSocket) (\<lambda>fd.
     seqE (check_fd K (fst wp))
    (seqE (check_fd K fd)
       (ret {fst wp, fd})))))"

definition Client_serve :: "posix \<Rightarrow> int set \<Rightarrow> int set \<Rightarrow> ('a client_scheme, unit) act" where
  "Client_serve K readFds writeFds =
     bindE (gets cl_mSocket) (\<lambda>fd.
     bindE (gets cl_mWakeupPipe) (\<lambda>wp.
     seqE (whenE (fd \<in> readFds) (Client_read K))
    (seqE (whenE (fst wp \<in> readFds) (Client_drain_wakeup K))
       (whenE (fd \<in> writeFds) (Client_write K)))))"

text \<open>One blocking \<open>select\<close> and what follows it; the result says whether the loop is left.\<close>

definition Client_await :: "posix \<Rightarrow> int set \<Rightarrow> int set \<Rightarrow> int \<Rightarrow> ('a client_scheme, bool) act" where
  "Client_await K masterRead masterWrite fdMax =
     bindE (sys_select K (fdMax + 1) masterRead masterWrite) (\<lambda>(r, readFds, writeFds).
     if r = -1 then throw_errno K ''Select error ''
     else
       bindE (gets cl_mConnected) (\<lambda>connected.
       if \<not> connected then ret True
       else seqE (Client_serve K readFds writeFds) (ret False)))"

definition Client_iteration :: "posix \<Rightarrow> int set \<Rightarrow> client_call list \<Rightarrow> ('a client_scheme, bool) act" where
  "Client_iteration K masterRead calls =
     bindE (gets cl_mMasterWrite) (\<lambda>masterWrite.
     bindE (gets cl_mFdMax) (\<lambda>fdMax.
     seqE (client_threads K calls)
       (Client_await K masterRead masterWrite fdMax)))"

text \<open>The result says whether the loop has returned.\<close>

primrec Client_loop :: "posix \<Rightarrow> int set \<Rightarrow> client_call list list \<Rightarrow> ('a client_scheme, bool) act" where
  "Client_loop K masterRead [] = gets (\<lambda>s. \<not> cl_mConnected s)"
| "Client_loop K masterRead (calls # schedule) =
     bindE (gets cl_mConnected) (\<lambda>connected.
       if \<not> connected then ret True
       else
         bindE (Client_iteration K masterRead calls) (\<lambda>left.
         if left then ret True else Client_loop K masterRead schedule))"

definition Client_waitForEvents :: "posix \<Rightarrow> client_call list list \<Rightarrow> ('a client_scheme, bool) act" where
  "Client_waitForEvents K schedule =
     bindE (Client_prepare K) (\<lambda>masterRead. Client_loop K masterRead schedule)"

end
