(* ===== verification/Posix_Client_Facts.thy ===== *)
theory Posix_Client_Facts
  imports Posix_Client
begin

text \<open>
  What the posix client does: whom its constructor connects to and what a failed one leaks,
  the conditions under which its loop is free of undefined behaviour, when and in which order
  messages reach the server, and what it reports.
\<close>

unbundle bit_operations_syntax

section \<open>How the operations run\<close>

lemma wp_client_performWakeup [wp_simps]:
  "wp (Client_performWakeup K) Q E s =
     (let fd = snd (cl_mWakeupPipe s);
          pe = Ev_poll fd Poll_out (k_poll K (io_trace s) fd Poll_out)
      in Q () (s\<lparr>io_trace := io_trace s @ [pe, Ev_write fd ''.'' (k_write K (io_trace s @ [pe]) fd ''.'')]\<rparr>))"
  by (simp add: Client_performWakeup_def wp_simps Let_def)

lemma cl_enqueue_fields [simp]:
  "cl_mOutgoingBytes (cl_enqueue d s) = d @ cl_mOutgoingBytes s"
  "cl_mSocket (cl_enqueue d s) = cl_mSocket s" "cl_mMasterWrite (cl_enqueue d s) = cl_mMasterWrite s"
  "cl_mWakeupPipe (cl_enqueue d s) = cl_mWakeupPipe s" "cl_mConnected (cl_enqueue d s) = cl_mConnected s"
  "cl_mFdMax (cl_enqueue d s) = cl_mFdMax s" "io_trace (cl_enqueue d s) = io_trace s"
  "cl_mIdentifier (cl_enqueue d s) = cl_mIdentifier s" "cl_mCallback (cl_enqueue d s) = cl_mCallback s"
  by (simp_all add: cl_enqueue_def vector_insert_begin_def)

lemma cl_store_fields [simp]:
  "cl_mOutgoingBytes (cl_store d s) = cl_mOutgoingBytes s"
  "cl_mSocket (cl_store d s) = cl_mSocket s" "cl_mMasterWrite (cl_store d s) = cl_mMasterWrite s"
  "cl_mWakeupPipe (cl_store d s) = cl_mWakeupPipe s" "cl_mConnected (cl_store d s) = cl_mConnected s"
  "cl_mFdMax (cl_store d s) = cl_mFdMax s" "io_trace (cl_store d s) = io_trace s"
  "cl_mIdentifier (cl_store d s) = cl_mIdentifier s" "cl_mCallback (cl_store d s) = cl_mCallback s"
  by (simp_all add: cl_store_def)

section \<open>The constructor\<close>

text \<open>Socket, connect, acknowledge, identify, non-blocking, pipe: the calls of a construction.\<close>

definition connected_client :: "posix \<Rightarrow> 32 word \<Rightarrow> bytes \<Rightarrow> 'a client_scheme \<Rightarrow> 'a client_scheme \<Rightarrow> bool" where
  "connected_client K port ident s s' \<longleftrightarrow>
     (\<exists>fd rc ra ack rs x rp p0 p1.
        io_trace s' = io_trace s @
          [Ev_socket fd, Ev_connect fd \<lparr>sin_addr = 0, sin_port = k_htons K (ucast port)\<rparr> rc,
           Ev_recv fd 4 No_flags ra ack, Ev_send fd ident rs, Ev_getfl fd x,
           Ev_setfl fd (x OR O_NONBLOCK K), Ev_pipe rp p0 p1] \<and>
        fd \<noteq> -1 \<and> rc \<noteq> -1 \<and> rp \<noteq> -1 \<and>
        cl_mSocket s' = fd \<and> cl_mWakeupPipe s' = (p0, p1) \<and> cl_mFdMax s' = max p0 fd \<and>
        cl_mConnected s' \<and> cl_mIdentifier s' = ident \<and> cl_mOutgoingBytes s' = [])"

definition unconnected_client :: "posix \<Rightarrow> 'a client_scheme \<Rightarrow> fault \<Rightarrow> 'a client_scheme \<Rightarrow> bool" where
  "unconnected_client K s e s' \<longleftrightarrow>
     (\<exists>w. e = Runtime_error w) \<and>
     (k_socket K (io_trace s) \<noteq> -1 \<longrightarrow> k_socket K (io_trace s) \<in> open_fds (io_trace s'))"

lemma wp_case_prod: "wp (case x of (a, b) \<Rightarrow> f a b) Q E s = (case x of (a, b) \<Rightarrow> wp (f a b) Q E s)"
  by (cases x) simp

lemma Client_ctor_wp:
  "wp (Client_ctor K cb hostname port ident) (\<lambda>_. connected_client K port ident s)
     (unconnected_client K s) s"
  by (simp add: Client_ctor_def Client_prepareWakeupPipe_def Client_Socket_new_def wp_simps Let_def
      Client_fields_def unconnected_client_def connected_client_def
      client_address_def memset_sockaddr_def open_fds_append wp_case_prod split: prod.splits)

section \<open>The loop\<close>

text \<open>
  The socket is in the write set exactly if bytes are pending, and nothing else is.
\<close>

definition client_inv :: "posix \<Rightarrow> 'a client_scheme \<Rightarrow> bool" where
  "client_inv K s \<longleftrightarrow> fd_in_range K (cl_mSocket s) \<and>
     cl_mMasterWrite s = (if cl_mOutgoingBytes s = [] then {} else {cl_mSocket s})"

definition pending_kept :: "bool \<Rightarrow> int \<Rightarrow> posix \<Rightarrow> 'a client_scheme \<Rightarrow> bool" where
  "pending_kept b fd K s \<longleftrightarrow> client_inv K s \<and> cl_mSocket s = fd \<and> (b \<longrightarrow> cl_mOutgoingBytes s \<noteq> [])"

lemma keeps_client_api: "keeps False (pending_kept b fd K) (Client_api K c)"
proof (cases c)
  case (Send_data d)
  then show ?thesis
    by (auto intro!: keepsI simp: Client_sendDataToServer_def wp_simps pending_kept_def
        client_inv_def Let_def)
next
  case Disconnect
  then show ?thesis
    by (auto intro!: keepsI simp: Client_disconnect_def wp_simps pending_kept_def client_inv_def Let_def)
qed

lemma keeps_client_threads: "keeps False (pending_kept b fd K) (client_threads K calls)"
  unfolding client_threads_def by (intro keeps_intros keeps_client_api)

lemma keeps_client_read: "keeps False (pending_kept b fd K) (Client_read K)"
  by (auto intro!: keepsI simp: Client_read_def Client_getCallback_def wp_simps pending_kept_def
      client_inv_def split: prod.splits)

lemma keeps_client_drain: "keeps False (pending_kept b fd K) (Client_drain_wakeup K)"
  by (auto intro!: keepsI simp: Client_drain_wakeup_def wp_simps pending_kept_def client_inv_def
      split: prod.splits)

lemma wp_client_write:
  "pending_kept True fd K s \<Longrightarrow> wp (Client_write K) (\<lambda>_. pending_kept False fd K) E s"
  by (auto simp: Client_write_def Client_getCallback_def wp_simps pending_kept_def client_inv_def
      cl_swap_out_def Let_def)

lemma after_fault_mono:
  "after_fault ub I e s \<Longrightarrow> (\<And>s. I s \<Longrightarrow> J s) \<Longrightarrow> after_fault ub J e s"
  by (cases e) auto

lemma pending_kept_weaken: "pending_kept b fd K s \<Longrightarrow> pending_kept False fd K s"
  by (simp add: pending_kept_def)

lemma pending_kept_event [simp]: "pending_kept b fd K (s\<lparr>io_trace := tr\<rparr>) = pending_kept b fd K s"
  by (simp add: pending_kept_def client_inv_def)

lemma wp_client_serve:
  assumes t: "pending_kept b fd K t" and wr: "fd \<in> wr \<longrightarrow> b"
  shows "wp (Client_serve K rd wr) (\<lambda>_. pending_kept False fd K)
    (after_fault False (pending_kept False fd K)) t"
proof -
  let ?J = "pending_kept b fd K" and ?I = "pending_kept False fd K"
  let ?E = "after_fault False ?I"
  have weak: "?E e u" if "after_fault False ?J e u" for e and u :: "'a client_scheme"
    using that by (rule after_fault_mono) (rule pending_kept_weaken)
  have step: "wp (whenE c m) (\<lambda>_. ?J) ?E u" if "?J u" "keeps False ?J m"
    for c m and u :: "'a client_scheme"
    using that(1) wp_mono [OF keeps_wp [OF that(2,1)], of "\<lambda>_. ?J" ?E] weak by (auto simp: wp_whenE)
  have last: "wp (whenE (fd \<in> wr) (Client_write K)) (\<lambda>_. ?I) ?E u" if "?J u" for u :: "'a client_scheme"
    using that wr wp_client_write [of fd K u] pending_kept_weaken [OF that]
    by (cases b) (auto simp: wp_whenE)
  have sock: "cl_mSocket t = fd" using t by (simp add: pending_kept_def)
  show ?thesis
    unfolding Client_serve_def wp_bindE wp_gets wp_seqE sock
    by (rule wp_mono [OF step [OF t keeps_client_read]], rule wp_mono [OF step [OF _ keeps_client_drain]])
      (auto intro: last)
qed

lemma wp_client_iteration:
  assumes sel: "select_subset K" and inv: "pending_kept False fd K s"
  shows "wp (Client_iteration K rd calls)
    (\<lambda>left s'. pending_kept False fd K s' \<and> (left \<longrightarrow> \<not> cl_mConnected s'))
    (after_fault False (pending_kept False fd K)) s"
proof -
  let ?b = "cl_mOutgoingBytes s \<noteq> []"
  let ?I = "pending_kept False fd K" and ?J = "pending_kept ?b fd K"
  let ?Q = "\<lambda>left s'. ?I s' \<and> (left \<longrightarrow> \<not> cl_mConnected s')" and ?E = "after_fault False ?I"
  have start: "?J s" using inv by (simp add: pending_kept_def)
  have W: "cl_mMasterWrite s = (if ?b then {fd} else {})"
    using inv by (auto simp: pending_kept_def client_inv_def)
  have await: "wp (Client_await K rd (cl_mMasterWrite s) (cl_mFdMax s)) ?Q ?E t"
    if t: "?J t" for t :: "'a client_scheme"
  proof -
    obtain r rd' wr where k: "k_select K (io_trace t) (cl_mFdMax s + 1) rd (cl_mMasterWrite s) = (r, rd', wr)"
      by (cases "k_select K (io_trace t) (cl_mFdMax s + 1) rd (cl_mMasterWrite s)")
    let ?t = "t\<lparr>io_trace := io_trace t @ [Ev_select (cl_mFdMax s + 1) rd (cl_mMasterWrite s) r rd' wr]\<rparr>"
    have "fd \<in> wr \<longrightarrow> ?b" using select_subsetD(2) [OF sel k] W by auto
    then have "wp (Client_serve K rd' wr) (\<lambda>_. ?I) ?E ?t"
      by (intro wp_client_serve) (use t in simp_all)
    then have "wp (Client_serve K rd' wr) (\<lambda>_. wp (ret False) ?Q ?E) ?E ?t"
      by (rule wp_mono) (simp_all add: wp_ret)
    then show ?thesis
      using pending_kept_weaken [OF t] by (simp add: Client_await_def wp_simps k)
  qed
  have "wp (client_threads K calls) (\<lambda>_. wp (Client_await K rd (cl_mMasterWrite s) (cl_mFdMax s)) ?Q ?E) ?E s"
    by (rule wp_mono [OF keeps_wp [OF keeps_client_threads start]])
      (auto intro: await after_fault_mono pending_kept_weaken)
  then show ?thesis by (simp add: Client_iteration_def wp_bindE wp_gets wp_seqE)
qed

lemma wp_client_loop:
  assumes sel: "select_subset K" and inv: "pending_kept False fd K s"
  shows "wp (Client_loop K rd schedule)
    (\<lambda>returned s'. pending_kept False fd K s' \<and> (returned \<longleftrightarrow> \<not> cl_mConnected s'))
    (after_fault False (pending_kept False fd K)) s"
  using inv
proof (induction schedule arbitrary: s)
  case Nil
  then show ?case by (simp add: wp_simps)
next
  case (Cons calls schedule)
  have "wp (Client_iteration K rd calls)
      (\<lambda>left. wp (if left then ret True else Client_loop K rd schedule)
        (\<lambda>returned s'. pending_kept False fd K s' \<and> (returned \<longleftrightarrow> \<not> cl_mConnected s'))
        (after_fault False (pending_kept False fd K)))
      (after_fault False (pending_kept False fd K)) s"
    by (rule wp_mono [OF wp_client_iteration [OF sel Cons.prems]]) (use Cons.IH in \<open>auto simp: wp_ret\<close>)
  then show ?case using Cons.prems by (simp add: wp_bindE wp_gets wp_ret)
qed

section \<open>Properties\<close>

text \<open>
  A client whose constructor returns went through the whole handshake, by exactly these
  calls and in this order, but never with the host it was given: the address structure is
  cleared after the host's address was stored in it, so every client connects to address 0,
  on the low 16 bits of the port.
\<close>

theorem client_ctor_ignores_hostname:
  assumes "Client_ctor K cb hostname port ident s = (Inr (), s')"
  shows "\<exists>fd rc ra ack rs x rp p0 p1.
    io_trace s' = io_trace s @
      [Ev_socket fd,
       Ev_connect fd \<lparr>sin_addr = 0, sin_port = k_htons K (word_of_nat (unat port mod 2 ^ 16))\<rparr> rc,
       Ev_recv fd 4 No_flags ra ack, Ev_send fd ident rs, Ev_getfl fd x,
       Ev_setfl fd (x OR O_NONBLOCK K), Ev_pipe rp p0 p1] \<and>
    fd \<noteq> -1 \<and> rc \<noteq> -1 \<and> rp \<noteq> -1 \<and> cl_mSocket s' = fd \<and> cl_mConnected s'"
proof -
  have "(ucast port :: 16 word) = word_of_nat (unat port mod 2 ^ 16)"
    by (simp add: word_unat_eq_iff unsigned_ucast_eq unsigned_of_nat take_bit_eq_mod)
  with wp_normalD [OF Client_ctor_wp assms] show ?thesis
    unfolding connected_client_def by auto
qed

definition client_blank :: client where
  "client_blank =
     \<lparr>io_trace = [], cl_mCallback = True, cl_mWakeupPipe = (0, 0), cl_mFdMax = 0,
      cl_mConnected = False, cl_mIdentifier = [], cl_mMasterWrite = {}, cl_mSocket = 0,
      cl_mBuffer = [], cl_mOutgoingBytes = []\<rparr>"

definition client_kernel :: posix where
  "client_kernel = scripted (\<lambda>_ _. ''ack'') (\<lambda>_. ({}, {}))"

theorem client_ctor_ignores_hostname_witness:
  "\<exists>s' fd rc rest. Client_ctor client_kernel True ''192.168.1.1'' 80 ''alice'' client_blank = (Inr (), s') \<and>
    io_trace s' = Ev_socket fd # Ev_connect fd \<lparr>sin_addr = 0, sin_port = 80\<rparr> rc # rest"
proof -
  obtain s' where s': "Client_ctor client_kernel True ''192.168.1.1'' 80 ''alice'' client_blank = (Inr (), s')"
    by (simp add: Client_ctor_def Client_prepareWakeupPipe_def Client_Socket_new_def sys_defs seqE_def
        bindE_def modify_def ret_def gets_def Socket_makeNonBlocking_def Let_def client_kernel_def
        scripted_def next_fd_def Client_fields_def client_blank_def)
  from client_ctor_ignores_hostname [OF s'] s' show ?thesis
    by (auto simp: client_blank_def client_kernel_def scripted_def)
qed

text \<open>
  A client constructor that throws after it has created the socket leaks it: the
  descriptor is still open, and the object whose destructor would close it does not exist.
\<close>

theorem client_ctor_leaks_socket:
  assumes "Client_ctor K cb hostname port ident s = (Inl e, s')" and "k_socket K (io_trace s) \<noteq> -1"
  shows "(\<exists>w. e = Runtime_error w) \<and> k_socket K (io_trace s) \<in> open_fds (io_trace s')"
  using wp_faultD [OF Client_ctor_wp assms(1)] assms(2) by (auto simp: unconnected_client_def)

theorem client_ctor_leaks_socket_witness:
  "\<exists>e s'. Client_ctor (client_kernel\<lparr>k_inet_pton := (\<lambda>_. (0, 0))\<rparr>) True ''localhost'' 80 ''alice''
      client_blank = (Inl e, s') \<and> 3 \<in> open_fds (io_trace s')"
proof -
  let ?K = "client_kernel\<lparr>k_inet_pton := (\<lambda>_. (0, 0))\<rparr>"
  obtain e s' where s': "Client_ctor ?K True ''localhost'' 80 ''alice'' client_blank = (Inl e, s')"
    by (simp add: Client_ctor_def Client_Socket_new_def sys_defs seqE_def bindE_def modify_def ret_def
        throw_def Let_def client_kernel_def scripted_def next_fd_def Client_fields_def client_blank_def)
  have "k_socket ?K (io_trace client_blank) = 3"
    by (simp add: client_kernel_def scripted_def next_fd_def client_blank_def)
  with client_ctor_leaks_socket [OF s'] s' show ?thesis by auto
qed

text \<open>
  C15 The loop of a client whose descriptors fit the descriptor sets and that has nothing
  pending when it starts, when the calls of other threads (any messages, and \<open>disconnect\<close>)
  are made, each whole, while the loop is blocked in \<open>select\<close>: over any number of iterations it
  never reaches undefined behaviour; it returns exactly when the client is no longer connected,
  or leaves with a runtime error; and the write set holds the socket exactly if bytes are
  pending, so that no message waits unnoticed. (A message that is queued between the statements
  of the loop can make the next write undefined behaviour: theory \<open>Client_Race\<close>.)
\<close>

theorem client_wait_is_defined:
  assumes "select_subset K" and "fd_in_range K (cl_mSocket s)"
    and "fd_in_range K (fst (cl_mWakeupPipe s))" and "cl_mOutgoingBytes s = []"
    and "Client_waitForEvents K schedule s = (r, s')"
  shows "((\<exists>w. r = Inl (Runtime_error w)) \<or> r = Inr (\<not> cl_mConnected s')) \<and>
    cl_mMasterWrite s' = (if cl_mOutgoingBytes s' = [] then {} else {cl_mSocket s'})"
proof -
  let ?I = "pending_kept False (cl_mSocket s) K"
  have "?I (s\<lparr>cl_mMasterWrite := {}\<rparr>)" using assms(2,4) by (simp add: pending_kept_def client_inv_def)
  from wp_client_loop [OF assms(1) this, of "{fst (cl_mWakeupPipe s), cl_mSocket s}" schedule]
  have "wp (Client_waitForEvents K schedule) (\<lambda>returned s'. ?I s' \<and> (returned \<longleftrightarrow> \<not> cl_mConnected s'))
      (after_fault False ?I) s"
    using assms(2,3) by (simp add: Client_waitForEvents_def Client_prepare_def wp_simps)
  then show ?thesis
    using assms(5)
    by (auto simp: wp_def after_fault_def pending_kept_def client_inv_def split: sum.splits fault.splits)
qed

definition connected_sample :: client where
  "connected_sample = client_blank\<lparr>io_trace := [Ev_socket 3, Ev_pipe 0 4 5], cl_mSocket := 3,
     cl_mWakeupPipe := (4, 5), cl_mFdMax := 4, cl_mConnected := True, cl_mIdentifier := ''alice''\<rparr>"

lemma connected_sample_facts:
  "select_subset client_kernel" "fd_in_range client_kernel (cl_mSocket connected_sample)"
  "fd_in_range client_kernel (fst (cl_mWakeupPipe connected_sample))"
  "cl_mOutgoingBytes connected_sample = []"
  by (simp add: client_kernel_def scripted_select_subset)
    (simp_all add: fd_in_range_def connected_sample_def client_blank_def client_kernel_def scripted_def)

theorem client_wait_is_defined_witness:
  "\<exists>r s'. Client_waitForEvents client_kernel [[Send_data ''hi''], [Disconnect]] connected_sample = (r, s') \<and>
    ((\<exists>w. r = Inl (Runtime_error w)) \<or> r = Inr (\<not> cl_mConnected s'))"
proof -
  obtain r s' where "Client_waitForEvents client_kernel [[Send_data ''hi''], [Disconnect]]
      connected_sample = (r, s')"
    by (cases "Client_waitForEvents client_kernel [[Send_data ''hi''], [Disconnect]] connected_sample")
  with client_wait_is_defined [OF connected_sample_facts this] show ?thesis by blast
qed

text \<open>
  Messages that were queued before \<open>waitForEvents\<close> is called are not sent by it: it
  clears the write set first, and as long as no other message is sent the client gives no
  byte to its socket and keeps everything pending, over any number of iterations.
\<close>

theorem client_early_messages_wait:
  assumes "select_subset K" and "Client_waitForEvents K (replicate n []) s = (r, s')"
  shows "cl_mOutgoingBytes s' = cl_mOutgoingBytes s \<and>
    sent_on (cl_mSocket s) (io_trace s') = sent_on (cl_mSocket s) (io_trace s)"
proof -
  let ?fd = "cl_mSocket s"
  define I where "I = (\<lambda>t :: 'a client_scheme. cl_mSocket t = ?fd \<and> cl_mMasterWrite t = {} \<and>
    cl_mOutgoingBytes t = cl_mOutgoingBytes s \<and>
    sent_on ?fd (io_trace t) = sent_on ?fd (io_trace s))"
  have read: "wp (whenE c (Client_read K)) (\<lambda>_. I) (\<lambda>_. I) t" if "I t" for c t
    using that by (auto simp: Client_read_def Client_getCallback_def wp_simps I_def split: prod.splits)
  have drain: "wp (whenE c (Client_drain_wakeup K)) (\<lambda>_. I) (\<lambda>_. I) t" if "I t" for c t
    using that by (auto simp: Client_drain_wakeup_def wp_simps I_def split: prod.splits)
  have serve: "wp (Client_serve K rd {}) (\<lambda>_. I) (\<lambda>_. I) t" if "I t" for rd t
    unfolding Client_serve_def wp_bindE wp_gets wp_seqE
    by (rule wp_mono [OF read [OF that]], rule wp_mono [OF drain]) (simp_all add: wp_simps)
  have iteration: "wp (Client_iteration K rd []) (\<lambda>_. I) (\<lambda>_. I) t" if t: "I t" for rd t
  proof -
    obtain r rd' wr where k: "k_select K (io_trace t) (cl_mFdMax t + 1) rd {} = (r, rd', wr)"
      by (cases "k_select K (io_trace t) (cl_mFdMax t + 1) rd {}")
    have wr: "wr = {}" using select_subsetD(2) [OF assms(1) k] by simp
    have "wp (Client_serve K rd' {}) (\<lambda>_. I) (\<lambda>_. I)
        (t\<lparr>io_trace := io_trace t @ [Ev_select (cl_mFdMax t + 1) rd {} r rd' {}]\<rparr>)"
      by (rule serve) (use t in \<open>simp add: I_def\<close>)
    then have "wp (Client_serve K rd' {}) (\<lambda>_. wp (ret False) (\<lambda>_. I) (\<lambda>_. I)) (\<lambda>_. I)
        (t\<lparr>io_trace := io_trace t @ [Ev_select (cl_mFdMax t + 1) rd {} r rd' {}]\<rparr>)"
      by (rule wp_mono) (simp_all add: wp_ret)
    moreover have "cl_mMasterWrite t = {}" using t by (simp add: I_def)
    ultimately show ?thesis
      using t k wr
      by (simp add: Client_iteration_def client_threads_def Client_await_def wp_simps)
        (simp add: I_def)
  qed
  have loop: "wp (Client_loop K rd (replicate n [])) (\<lambda>_. I) (\<lambda>_. I) t" if "I t" for rd t n
    using that
  proof (induction n arbitrary: t)
    case (Suc n)
    have "wp (Client_iteration K rd []) (\<lambda>left. wp (if left then ret True
        else Client_loop K rd (replicate n [])) (\<lambda>_. I) (\<lambda>_. I)) (\<lambda>_. I) t"
      by (rule wp_mono [OF iteration [OF Suc.prems]]) (use Suc.IH in \<open>auto simp: wp_ret\<close>)
    then show ?case using Suc.prems by (simp add: wp_bindE wp_gets wp_ret)
  qed (simp add: wp_simps)
  have "I (s\<lparr>cl_mMasterWrite := {}\<rparr>)" by (simp add: I_def)
  then have "wp (Client_waitForEvents K (replicate n [])) (\<lambda>_. I) (\<lambda>_. I) s"
    using loop by (simp add: Client_waitForEvents_def Client_prepare_def wp_simps I_def)
  then have "I s'" using assms(2) by (auto simp: wp_def split: sum.splits)
  then show ?thesis by (simp add: I_def)
qed

theorem client_early_messages_wait_witness:
  "\<exists>r s'. Client_waitForEvents client_kernel (replicate 7 []) (cl_enqueue ''hi'' connected_sample) = (r, s') \<and>
    cl_mOutgoingBytes s' = ''hi''"
proof -
  obtain r s' where run: "Client_waitForEvents client_kernel (replicate 7 [])
      (cl_enqueue ''hi'' connected_sample) = (r, s')"
    by (cases "Client_waitForEvents client_kernel (replicate 7 []) (cl_enqueue ''hi'' connected_sample)")
  from client_early_messages_wait [OF connected_sample_facts(1) run] run show ?thesis
    by (simp add: connected_sample_facts(4))
qed

lemma sendDataToServer_run:
  assumes "d \<noteq> []" and "fd_in_range K (cl_mSocket s)"
  shows "\<exists>t. Client_sendDataToServer K d s = (Inr (), t) \<and> cl_mSocket t = cl_mSocket s \<and>
    cl_mOutgoingBytes t = d @ cl_mOutgoingBytes s \<and>
    sent_on fd (io_trace t) = sent_on fd (io_trace s) \<and> cl_mSocket s \<in> cl_mMasterWrite t \<and>
    cl_mCallback t = cl_mCallback s \<and> cl_mIdentifier t = cl_mIdentifier s"
  using assms
  by (simp add: Client_sendDataToServer_def Client_performWakeup_def seqE_def bindE_def act_simps
      sys_defs Let_def sent_on_def)

lemma sendAll_run:
  assumes "\<forall>d \<in> set ds. d \<noteq> []" and "fd_in_range K (cl_mSocket s)"
  shows "\<exists>t. for_each (Client_sendDataToServer K) ds s = (Inr (), t) \<and> cl_mSocket t = cl_mSocket s \<and>
    cl_mOutgoingBytes t = cl_mOutgoingBytes (fold cl_enqueue ds s) \<and>
    sent_on fd (io_trace t) = sent_on fd (io_trace s) \<and>
    cl_mCallback t = cl_mCallback s \<and> cl_mIdentifier t = cl_mIdentifier s"
  using assms
proof (induction ds arbitrary: s)
  case Nil
  then show ?case by (simp add: act_simps)
next
  case (Cons d ds)
  obtain t where t: "Client_sendDataToServer K d s = (Inr (), t)" "cl_mSocket t = cl_mSocket s"
    "cl_mOutgoingBytes t = d @ cl_mOutgoingBytes s"
    "sent_on fd (io_trace t) = sent_on fd (io_trace s)"
    "cl_mCallback t = cl_mCallback s" "cl_mIdentifier t = cl_mIdentifier s"
    using sendDataToServer_run [of d K s fd] Cons.prems by auto
  have "\<forall>d \<in> set ds. d \<noteq> []" "fd_in_range K (cl_mSocket t)" using Cons.prems t(2) by auto
  from Cons.IH [OF this] t show ?case
    by (simp add: seqE_def bindE_def cl_queue.pending_fold)
qed

lemma client_write_run:
  assumes "cl_mOutgoingBytes s \<noteq> []" and "fd_in_range K (cl_mSocket s)"
    and "k_send K (io_trace s) (cl_mSocket s) (cl_mOutgoingBytes s) = r"
  shows "\<exists>t. Client_write K s = (Inr (), t) \<and> cl_mOutgoingBytes t = [] \<and>
    cl_mMasterWrite t = cl_mMasterWrite s - {cl_mSocket s} \<and>
    io_trace t = io_trace s @ Ev_send (cl_mSocket s) (cl_mOutgoingBytes s) r #
      (if cl_mCallback s
       then [Ev_callback (Cb_sendComplete (cl_mIdentifier s) (length (cl_mOutgoingBytes s)))] else [])"
  using assms
  by (simp add: Client_write_def Client_getCallback_def cl_swap_out_def seqE_def bindE_def act_simps
      sys_send_def Let_def call_callback_def emit_def)

text \<open>
  The bytes that the client writes after several messages were given to it are the messages
  in the reverse of the order they were given in, in one \<open>send\<close>, before whatever was
  pending; each message wakes the loop once.
\<close>


theorem client_messages_sent_reversed:
  assumes "\<forall>d \<in> set ds. d \<noteq> []" and "ds \<noteq> []" and "fd_in_range K (cl_mSocket s)"
  shows "\<exists>s'. seqE (for_each (Client_sendDataToServer K) ds) (Client_write K) s = (Inr (), s') \<and>
    sent_on (cl_mSocket s) (io_trace s') =
      sent_on (cl_mSocket s) (io_trace s) @ [concat (rev ds) @ cl_mOutgoingBytes s] \<and>
    cl_mOutgoingBytes s' = []"
proof -
  obtain t where t: "for_each (Client_sendDataToServer K) ds s = (Inr (), t)" "cl_mSocket t = cl_mSocket s"
    "cl_mOutgoingBytes t = concat (rev ds) @ cl_mOutgoingBytes s"
    "sent_on (cl_mSocket s) (io_trace t) = sent_on (cl_mSocket s) (io_trace s)"
    using sendAll_run [OF assms(1,3), of "cl_mSocket s"] by (auto simp: cl_queue.pending_fold)
  have "cl_mOutgoingBytes t \<noteq> []" using assms(1,2) t(3) by (cases ds) auto
  from client_write_run [OF this, of K] assms(3) t show ?thesis
    by (auto simp: seqE_def bindE_def)
qed

theorem client_messages_sent_reversed_witness:
  "\<exists>s'. seqE (for_each (Client_sendDataToServer client_kernel) [''first '', ''second'']) (Client_write client_kernel)
      connected_sample = (Inr (), s') \<and>
    sent_on 3 (io_trace s') = [''secondfirst '']"
proof -
  have "cl_mSocket connected_sample = 3" "sent_on 3 (io_trace connected_sample) = []"
    by (simp_all add: connected_sample_def client_blank_def)
  with client_messages_sent_reversed [of "[''first '', ''second'']" client_kernel connected_sample]
    connected_sample_facts show ?thesis by auto
qed

text \<open>
  The client reports every write as complete: whatever \<open>send\<close> returns, an error or
  a part of the bytes, the callback is told that all of them were sent, it is never told of
  a failure, and the bytes that were not taken are lost.
\<close>

theorem client_reports_complete_despite_failure:
  assumes "cl_mOutgoingBytes s \<noteq> []" and "fd_in_range K (cl_mSocket s)" and "cl_mCallback s"
  shows "\<exists>s'. Client_write K s = (Inr (), s') \<and> cl_mOutgoingBytes s' = [] \<and>
    callbacks (io_trace s') = callbacks (io_trace s) @
      [Cb_sendComplete (cl_mIdentifier s) (length (cl_mOutgoingBytes s))]"
  using client_write_run [OF assms(1,2) refl] assms(3) by auto

theorem client_reports_complete_despite_failure_witness:
  "\<exists>s'. Client_write (client_kernel\<lparr>k_send := (\<lambda>_ _ _. -1)\<rparr>) (cl_enqueue ''hello'' connected_sample) =
      (Inr (), s') \<and>
    cl_mOutgoingBytes s' = [] \<and> callbacks (io_trace s') = [Cb_sendComplete ''alice'' 5]"
proof -
  have "cl_mIdentifier connected_sample = ''alice''" "cl_mCallback connected_sample"
    "callbacks (io_trace connected_sample) = []"
    by (simp_all add: connected_sample_def client_blank_def)
  with client_reports_complete_despite_failure [of "cl_enqueue ''hello'' connected_sample"
      "client_kernel\<lparr>k_send := (\<lambda>_ _ _. -1)\<rparr>"] connected_sample_facts(2,4)
  show ?thesis by (auto simp: fd_in_range_def eval_nat_numeral)
qed

text \<open>
  When the server closes the connection the client only notes it: the loop ends, and the
  destructor then does nothing, because \<open>disconnect\<close> would close the socket only of a
  connected client. The socket stays open for good.
\<close>

theorem client_server_close_leaks_socket:
  assumes "k_recv K (io_trace s) (cl_mSocket s) cl_MAX_BUFFER_SIZE MSG_WAITALL = (0, [])"
    and "cl_mSocket s \<in> open_fds (io_trace s)"
  shows "\<exists>s'. seqE (Client_read K) (Client_destructor K) s = (Inr (), s') \<and>
    \<not> cl_mConnected s' \<and> cl_mSocket s' \<in> open_fds (io_trace s') \<and>
    callbacks (io_trace s') = callbacks (io_trace s)"
proof -
  let ?t = "(cl_store [] (s\<lparr>io_trace := io_trace s @ [Ev_recv (cl_mSocket s) cl_MAX_BUFFER_SIZE MSG_WAITALL 0 []]\<rparr>))
    \<lparr>cl_mConnected := False\<rparr>"
  have "Client_read K s = (Inr (), ?t)"
    using assms(1) by (simp add: Client_read_def seqE_def bindE_def act_simps sys_recv_def)
  moreover have "Client_destructor K ?t = (Inr (), ?t)"
    by (simp add: Client_destructor_def noexceptE_def bindE_def act_simps)
  ultimately show ?thesis
    using assms(2) by (simp add: seqE_def bindE_def open_fds_append)
qed

theorem client_server_close_leaks_socket_witness:
  "\<exists>s'. seqE (Client_read (client_kernel\<lparr>k_recv := (\<lambda>_ _ _ _. (0, []))\<rparr>))
      (Client_destructor (client_kernel\<lparr>k_recv := (\<lambda>_ _ _ _. (0, []))\<rparr>)) connected_sample = (Inr (), s') \<and>
    cl_mSocket s' \<in> open_fds (io_trace s')"
  using client_server_close_leaks_socket [of "client_kernel\<lparr>k_recv := (\<lambda>_ _ _ _. (0, []))\<rparr>" connected_sample]
  by (fastforce simp: connected_sample_def client_blank_def open_fds_def)

text \<open>
  Disconnecting a connected client whose poll succeeds sends an empty message, closes
  exactly its socket, wakes the loop and leaves it unconnected; disconnecting again does
  nothing. Where the poll fails, a destructor that disconnects terminates the process.
\<close>

theorem client_disconnect_closes_once:
  assumes "cl_mConnected s"
  shows "if k_poll K (io_trace s) (cl_mSocket s) Poll_out \<noteq> -1
    then \<exists>s'. Client_disconnect K s = (Inr (), s') \<and> \<not> cl_mConnected s' \<and>
      sent_on (cl_mSocket s) (io_trace s') = sent_on (cl_mSocket s) (io_trace s) @ [[]] \<and>
      open_fds (io_trace s') = open_fds (io_trace s) - {cl_mSocket s} \<and>
      Client_disconnect K s' = (Inr (), s')
    else \<exists>s'. Client_destructor K s = (Inl Std_terminate, s') \<and>
      open_fds (io_trace s') = open_fds (io_trace s)"
  using assms
  by (simp add: Client_disconnect_def Client_destructor_def Client_performWakeup_def noexceptE_def
      seqE_def bindE_def act_simps sys_defs Let_def close_events_def open_fds_append)

theorem client_disconnect_closes_once_witness:
  "\<exists>s'. Client_disconnect client_kernel connected_sample = (Inr (), s') \<and>
    \<not> cl_mConnected s' \<and> open_fds (io_trace s') = {4, 5}"
proof -
  have facts: "cl_mConnected connected_sample" "cl_mSocket connected_sample = 3"
    "open_fds (io_trace connected_sample) = {3, 4, 5}"
    "k_poll client_kernel (io_trace connected_sample) 3 Poll_out \<noteq> -1"
    by (auto simp: connected_sample_def client_blank_def open_fds_def client_kernel_def scripted_def)
  have "{3, 4, 5} - {3::int} = {4, 5}" by auto
  with client_disconnect_closes_once [OF facts(1), of client_kernel] facts(2-4) show ?thesis
    by auto
qed

end
