(* ===== verification/Client_Race.thy ===== *)
theory Client_Race
  imports Posix_Client_Facts
begin

text \<open>
  The posix client has no lock either. Here the statements of \<open>sendDataToServer\<close>, which any
  thread calls, and those of the loop's write branch are steps of their own. They come in
  another order than the server's (the bytes first, the write set second), so that besides a
  message that is not sent there is a second way to go wrong: the loop may be told to write
  when there is nothing to write.
\<close>

section \<open>Steps\<close>

text \<open>\<open>bytesToSend\<close> is the local vector of the write branch.\<close>

record client_race = client +
  cl_bytesToSend :: bytes

datatype client_step =
    Insert_bytes bytes
  | Watch_socket
  | Wake_up
  | Swap_bytes
  | Send_bytes
  | Unwatch_socket

fun client_step_run :: "posix \<Rightarrow> client_step \<Rightarrow> ('a client_race_scheme, unit) act" where
  "client_step_run K (Insert_bytes d) = modify (cl_enqueue d)"
| "client_step_run K Watch_socket =
     bindE (gets cl_mSocket) (\<lambda>fd.
     seqE (check_fd K fd)
       (modify (\<lambda>s. s\<lparr>cl_mMasterWrite := insert fd (cl_mMasterWrite s)\<rparr>)))"
| "client_step_run K Wake_up = Client_performWakeup K"
| "client_step_run K Swap_bytes =
     bindE (gets cl_swap_out) (\<lambda>(bytesToSend, s'). modify (\<lambda>_. s'\<lparr>cl_bytesToSend := bytesToSend\<rparr>))"
| "client_step_run K Send_bytes =
     bindE (gets cl_bytesToSend) (\<lambda>bytesToSend.
       if bytesToSend = [] then throw (Undefined_behaviour ''front of an empty vector'')
       else
         bindE (gets cl_mSocket) (\<lambda>fd.
         bindE (sys_send K fd bytesToSend) (\<lambda>_.
         bindE Client_getCallback (\<lambda>sendCB.
         bindE (gets cl_mIdentifier) (\<lambda>ident.
         whenE sendCB (call_callback sendCB (Cb_sendComplete ident (length bytesToSend))))))))"
| "client_step_run K Unwatch_socket =
     bindE (gets cl_mSocket) (\<lambda>fd.
     seqE (check_fd K fd)
       (modify (\<lambda>s. s\<lparr>cl_mMasterWrite := cl_mMasterWrite s - {fd}\<rparr>)))"

definition client_interleaving :: "posix \<Rightarrow> client_step list \<Rightarrow> ('a client_race_scheme, unit) act" where
  "client_interleaving K zs = for_each (client_step_run K) zs"

definition client_sender_steps :: "bytes \<Rightarrow> client_step list" where
  "client_sender_steps d = [Insert_bytes d, Watch_socket, Wake_up]"

definition client_writer_steps :: "client_step list" where
  "client_writer_steps = [Swap_bytes, Send_bytes, Unwatch_socket]"

text \<open>Run without interruption, the steps are the model's operations.\<close>

lemma client_sender_steps_atomic:
  "d \<noteq> [] \<Longrightarrow> client_interleaving K (client_sender_steps d) s = Client_sendDataToServer K d s"
  by (auto simp: client_interleaving_def client_sender_steps_def Client_sendDataToServer_def seqE_def
      bindE_def act_simps check_fd_def split: sum.splits prod.splits)

lemma client_writer_steps_atomic:
  "client_interleaving K client_writer_steps s =
    Client_write K (s\<lparr>cl_bytesToSend := cl_mOutgoingBytes s\<rparr>)"
  by (auto simp: client_interleaving_def client_writer_steps_def Client_write_def cl_swap_out_def
      seqE_def bindE_def act_simps Client_getCallback_def sys_defs check_fd_def call_callback_def Let_def
      split: sum.splits prod.splits)

section \<open>How two threads go wrong\<close>

definition precedes :: "'x \<Rightarrow> 'x \<Rightarrow> 'x list \<Rightarrow> bool" where
  "precedes x y zs \<longleftrightarrow> y \<in> set (dropWhile (\<lambda>z. z \<noteq> x) zs)"

text \<open>
  A client is stuck when bytes are pending that the loop does not watch for, and overeager
  when the loop watches for nothing.
\<close>

definition client_stuck :: "'a client_scheme \<Rightarrow> bool" where
  "client_stuck s \<longleftrightarrow> cl_mOutgoingBytes s \<noteq> [] \<and> cl_mSocket s \<notin> cl_mMasterWrite s"

definition client_overeager :: "'a client_scheme \<Rightarrow> bool" where
  "client_overeager s \<longleftrightarrow> cl_mOutgoingBytes s = [] \<and> cl_mSocket s \<in> cl_mMasterWrite s"

lemma overeager_write_undefined:
  assumes "client_overeager s"
  shows "\<exists>u t. Client_write K s = (Inl (Undefined_behaviour u), t)"
  using assms by (simp add: client_overeager_def Client_write_def cl_swap_out_def bindE_def seqE_def act_simps)

text \<open>
  What the steps do to the pending bytes, the loop's interest in the socket and the local
  vector of the loop.
\<close>

fun client_abs :: "client_step \<Rightarrow> bytes \<times> bool \<times> bytes \<Rightarrow> (bytes \<times> bool \<times> bytes) option" where
  "client_abs (Insert_bytes d) (pending, watched, local) = Some (d @ pending, watched, local)"
| "client_abs Watch_socket (pending, watched, local) = Some (pending, True, local)"
| "client_abs Wake_up a = Some a"
| "client_abs Swap_bytes (pending, watched, local) = Some ([], watched, pending)"
| "client_abs Send_bytes (pending, watched, local) =
     (if local = [] then None else Some (pending, watched, local))"
| "client_abs Unwatch_socket (pending, watched, local) = Some (pending, False, local)"

fun client_abs_all :: "client_step list \<Rightarrow> bytes \<times> bool \<times> bytes \<Rightarrow> (bytes \<times> bool \<times> bytes) option" where
  "client_abs_all [] a = Some a"
| "client_abs_all (z # zs) a =
     (case client_abs z a of None \<Rightarrow> None | Some a' \<Rightarrow> client_abs_all zs a')"

definition client_represents :: "posix \<Rightarrow> bytes \<times> bool \<times> bytes \<Rightarrow> 'a client_race_scheme \<Rightarrow> bool" where
  "client_represents K a s \<longleftrightarrow> fd_in_range K (cl_mSocket s) \<and>
     a = (cl_mOutgoingBytes s, cl_mSocket s \<in> cl_mMasterWrite s, cl_bytesToSend s)"

lemma client_step_refines:
  assumes "client_represents K a s" and "client_abs z a = Some a'"
  shows "wp (client_step_run K z) (\<lambda>_. client_represents K a') (\<lambda>_ _. False) s"
  using assms
  by (cases z) (auto simp: client_represents_def wp_simps cl_enqueue_def cl_swap_out_def
      vector_insert_begin_def Client_performWakeup_def Client_getCallback_def Let_def
      split: if_splits)

lemma client_interleaving_refines:
  "client_represents K a s \<Longrightarrow> client_abs_all zs a = Some a' \<Longrightarrow>
   wp (client_interleaving K zs) (\<lambda>_. client_represents K a') (\<lambda>_ _. False) s"
proof (induction zs arbitrary: a s)
  case Nil
  then show ?case by (simp add: client_interleaving_def wp_simps)
next
  case (Cons z zs)
  obtain a1 where a1: "client_abs z a = Some a1" "client_abs_all zs a1 = Some a'"
    using Cons.prems(2) by (auto split: option.splits)
  show ?case
    unfolding client_interleaving_def for_each.simps wp_seqE
    by (rule wp_mono [OF client_step_refines [OF Cons.prems(1) a1(1)]])
      (simp_all add: Cons.IH [OF _ a1(2), unfolded client_interleaving_def])
qed

lemma client_interleavings_abs:
  assumes "zs \<in> shuffles (client_sender_steps d) client_writer_steps" and "d \<noteq> []" and "pending \<noteq> []"
  shows "\<exists>pending' watched' local'.
    client_abs_all zs (pending, watched, local) = Some (pending', watched', local') \<and>
    (pending' \<noteq> [] \<longleftrightarrow> precedes Swap_bytes (Insert_bytes d) zs) \<and>
    (watched' \<longleftrightarrow> precedes Unwatch_socket Watch_socket zs)"
  using assms
  by (auto simp: client_sender_steps_def client_writer_steps_def precedes_def)

lemma client_interleavings_order:
  assumes "zs \<in> shuffles (client_sender_steps d) client_writer_steps"
  shows "precedes (Insert_bytes d) Swap_bytes zs \<longleftrightarrow> \<not> precedes Swap_bytes (Insert_bytes d) zs"
    and "precedes Watch_socket Unwatch_socket zs \<longleftrightarrow> \<not> precedes Unwatch_socket Watch_socket zs"
  using assms
  by (auto simp: client_sender_steps_def client_writer_steps_def precedes_def)

section \<open>Properties\<close>

text \<open>
  C22 Of the interleavings of a thread that sends and the loop that writes, none faults by
  itself, but they leave the client in the following states. Where the loop takes the pending
  bytes before the message is added, and clears the write set after the sender set it, the
  message is stuck. Where the message is taken with the pending bytes and the sender sets
  the write set after the loop cleared it, the loop watches for nothing, and its next write is
  undefined behaviour. All other interleavings are right.
\<close>

theorem client_send_races_with_loop:
  assumes "fd_in_range K (cl_mSocket s)" and "cl_mOutgoingBytes s \<noteq> []" and "d \<noteq> []"
    and "zs \<in> shuffles (client_sender_steps d) client_writer_steps"
  shows "\<exists>s'. client_interleaving K zs s = (Inr (), s') \<and>
    (client_stuck s' \<longleftrightarrow>
       precedes Swap_bytes (Insert_bytes d) zs \<and> precedes Watch_socket Unwatch_socket zs) \<and>
    (client_overeager s' \<longleftrightarrow>
       precedes (Insert_bytes d) Swap_bytes zs \<and> precedes Unwatch_socket Watch_socket zs) \<and>
    (client_overeager s' \<longrightarrow> (\<exists>u t. Client_write K s' = (Inl (Undefined_behaviour u), t)))"
proof -
  obtain p w l where abs: "client_abs_all zs
      (cl_mOutgoingBytes s, cl_mSocket s \<in> cl_mMasterWrite s, cl_bytesToSend s) = Some (p, w, l)"
    and out: "p \<noteq> [] \<longleftrightarrow> precedes Swap_bytes (Insert_bytes d) zs"
      "w \<longleftrightarrow> precedes Unwatch_socket Watch_socket zs"
    using client_interleavings_abs [OF assms(4,3,2)] by metis
  have "wp (client_interleaving K zs) (\<lambda>_. client_represents K (p, w, l)) (\<lambda>_ _. False) s"
    by (rule client_interleaving_refines [OF _ abs]) (simp add: client_represents_def assms(1))
  then obtain s' where s': "client_interleaving K zs s = (Inr (), s')"
    "client_represents K (p, w, l) s'"
    by (auto simp: wp_def split: prod.splits sum.splits)
  show ?thesis
    using s' out client_interleavings_order [OF assms(4)] overeager_write_undefined [of s']
    by (intro exI [of _ s']) (auto simp: client_represents_def client_stuck_def client_overeager_def)
qed

definition sample_race :: client_race where
  "sample_race =
     \<lparr>io_trace = [], cl_mCallback = True, cl_mWakeupPipe = (4, 5), cl_mFdMax = 4, cl_mConnected = True,
      cl_mIdentifier = ''bob'', cl_mMasterWrite = {3}, cl_mSocket = 3, cl_mBuffer = [],
      cl_mOutgoingBytes = ''early'', cl_bytesToSend = []\<rparr>"

theorem client_send_races_with_loop_witness:
  "\<exists>s' u t. client_interleaving client_kernel
      [Insert_bytes ''late'', Swap_bytes, Send_bytes, Unwatch_socket, Watch_socket, Wake_up] sample_race =
        (Inr (), s') \<and> client_overeager s' \<and> Client_write client_kernel s' = (Inl (Undefined_behaviour u), t)"
proof -
  let ?zs = "[Insert_bytes ''late'', Swap_bytes, Send_bytes, Unwatch_socket, Watch_socket, Wake_up]"
  have "?zs \<in> shuffles (client_sender_steps ''late'') client_writer_steps"
    by (simp add: client_sender_steps_def client_writer_steps_def)
  moreover have "fd_in_range client_kernel (cl_mSocket sample_race)" "cl_mOutgoingBytes sample_race \<noteq> []"
    by (simp_all add: fd_in_range_def client_kernel_def scripted_def sample_race_def)
  moreover have "precedes (Insert_bytes ''late'') Swap_bytes ?zs" "precedes Unwatch_socket Watch_socket ?zs"
    by (simp_all add: precedes_def)
  ultimately show ?thesis
    using client_send_races_with_loop [of client_kernel sample_race "''late''" ?zs] by auto
qed

end
