(* ===== verification/Client_Threads.thy ===== *)
theory Client_Threads
  imports Posix_Client_Facts "HOL-Library.Multiset"
begin

text \<open>
  The posix client with its loop and any number of threads that call \<open>sendDataToServer\<close> and
  \<open>disconnect\<close>, statement by statement. \<open>Client_Race\<close> compares the orders of one message and
  one write; here a schedule is any list of labels. A statement is atomic; what two threads
  do inside the vector at the same time is not modelled. An exception ends the thread that
  made the call, and one that leaves the loop ends the run.
\<close>

section \<open>The threads\<close>

text \<open>
  The calls of other threads: \<open>sendDataToServer\<close> queues, watches and wakes;
  \<open>disconnect\<close> tests the flag, clears it, polls, sends nothing, closes and wakes.
\<close>

datatype caller =
    Cl_send bytes
  | Cl_watch
  | Cl_disconnect
  | Cl_clear
  | Cl_poll
  | Cl_last_send
  | Cl_close
  | Cl_wake
  | Cl_over

datatype client_pc =
    Cl_test
  | Cl_select "int set"
  | Cl_connected "int set" "int set"
  | Cl_read "int set" "int set"
  | Cl_drain "int set" "int set"
  | Cl_write "int set"
  | Cl_sending bytes
  | Cl_unwatch
  | Cl_returned

fun caller_step :: "posix \<Rightarrow> caller \<Rightarrow> ('a client_scheme, caller) act" where
  "caller_step K (Cl_send d) =
     (if 0 < length d then seqE (modify (cl_enqueue d)) (ret Cl_watch) else ret Cl_over)"
| "caller_step K Cl_watch =
     bindE (gets cl_mSocket) (\<lambda>fd.
     seqE (check_fd K fd)
    (seqE (modify (\<lambda>s. s\<lparr>cl_mMasterWrite := insert fd (cl_mMasterWrite s)\<rparr>))
       (ret Cl_wake)))"
| "caller_step K Cl_disconnect =
     bindE (gets cl_mConnected) (\<lambda>connected. ret (if connected then Cl_clear else Cl_over))"
| "caller_step K Cl_clear = seqE (modify (\<lambda>s. s\<lparr>cl_mConnected := False\<rparr>)) (ret Cl_poll)"
| "caller_step K Cl_poll =
     bindE (gets cl_mSocket) (\<lambda>fd.
     bindE (sys_poll K fd Poll_out) (\<lambda>r.
       if r = -1 then throw_errno K ''Error polling for socket write '' else ret Cl_last_send))"
| "caller_step K Cl_last_send =
     bindE (gets cl_mSocket) (\<lambda>fd. bindE (sys_send K fd []) (\<lambda>_. ret Cl_close))"
| "caller_step K Cl_close =
     bindE (gets cl_mSocket) (\<lambda>fd.
     seqE (Client_Socket_closeSocket K (Client_Socket_wrap fd)) (ret Cl_wake))"
| "caller_step K Cl_wake = seqE (Client_performWakeup K) (ret Cl_over)"
| "caller_step K Cl_over = ret Cl_over"

text \<open>\<open>masterRead\<close> is the local set that the loop was entered with.\<close>

fun client_loop_step :: "posix \<Rightarrow> int set \<Rightarrow> client_pc \<Rightarrow> ('a client_scheme, client_pc) act" where
  "client_loop_step K masterRead Cl_test =
     bindE (gets cl_mConnected) (\<lambda>connected.
       if \<not> connected then ret Cl_returned
       else bindE (gets cl_mMasterWrite) (\<lambda>masterWrite. ret (Cl_select masterWrite)))"
| "client_loop_step K masterRead (Cl_select masterWrite) =
     bindE (gets cl_mFdMax) (\<lambda>fdMax.
     bindE (sys_select K (fdMax + 1) masterRead masterWrite) (\<lambda>(r, readFds, writeFds).
       if r = -1 then throw_errno K ''Select error '' else ret (Cl_connected readFds writeFds)))"
| "client_loop_step K masterRead (Cl_connected readFds writeFds) =
     bindE (gets cl_mConnected) (\<lambda>connected.
       ret (if \<not> connected then Cl_returned else Cl_read readFds writeFds))"
| "client_loop_step K masterRead (Cl_read readFds writeFds) =
     bindE (gets cl_mSocket) (\<lambda>fd.
     seqE (whenE (fd \<in> readFds) (Client_read K)) (ret (Cl_drain readFds writeFds)))"
| "client_loop_step K masterRead (Cl_drain readFds writeFds) =
     bindE (gets cl_mWakeupPipe) (\<lambda>wp.
     seqE (whenE (fst wp \<in> readFds) (Client_drain_wakeup K)) (ret (Cl_write writeFds)))"
| "client_loop_step K masterRead (Cl_write writeFds) =
     bindE (gets cl_mSocket) (\<lambda>fd.
       if fd \<in> writeFds
       then bindE (gets cl_swap_out) (\<lambda>(bytesToSend, s'). seqE (modify (\<lambda>_. s')) (ret (Cl_sending bytesToSend)))
       else ret Cl_test)"
| "client_loop_step K masterRead (Cl_sending bytesToSend) =
     (if bytesToSend = [] then throw (Undefined_behaviour ''front of an empty vector'')
      else
        bindE (gets cl_mSocket) (\<lambda>fd.
        bindE (sys_send K fd bytesToSend) (\<lambda>_.
        bindE Client_getCallback (\<lambda>sendCB.
        bindE (gets cl_mIdentifier) (\<lambda>ident.
        seqE (whenE sendCB (call_callback sendCB (Cb_sendComplete ident (length bytesToSend))))
          (ret Cl_unwatch))))))"
| "client_loop_step K masterRead Cl_unwatch =
     bindE (gets cl_mSocket) (\<lambda>fd.
     seqE (check_fd K fd)
    (seqE (modify (\<lambda>s. s\<lparr>cl_mMasterWrite := cl_mMasterWrite s - {fd}\<rparr>))
       (ret Cl_test)))"
| "client_loop_step K masterRead Cl_returned = ret Cl_returned"

declare client_loop_step.simps [simp del]

section \<open>Uninterrupted, the steps are the operations\<close>

lemma caller_steps_send:
  "run_steps (caller_step K) 3 (Cl_send d) = seqE (Client_sendDataToServer K d) (ret Cl_over)"
  by (rule ext) (auto simp: numeral_eq_Suc Client_sendDataToServer_def bindE_def seqE_def
      act_simps throw_def check_fd_def split: prod.splits sum.splits)

lemma caller_steps_disconnect:
  "run_steps (caller_step K) 6 Cl_disconnect = seqE (Client_disconnect K) (ret Cl_over)"
  by (rule ext) (auto simp: numeral_eq_Suc Client_disconnect_def bindE_def seqE_def sys_defs Let_def
      act_simps split: prod.splits sum.splits)

lemma client_steps_write:
  "\<exists>n. run_steps (client_loop_step K masterRead) n (Cl_write wr) s =
    bindE (gets cl_mSocket) (\<lambda>fd. seqE (whenE (fd \<in> wr) (Client_write K)) (ret Cl_test)) s"
  by (intro exI [of _ "if cl_mSocket s \<in> wr then 3 else 1"])
    (auto simp: numeral_eq_Suc client_loop_step.simps Client_write_def cl_swap_out_def bindE_def seqE_def act_simps
      Client_getCallback_def sys_defs Let_def throw_def check_fd_def call_callback_def modify_def
      split: prod.splits sum.splits)

text \<open>The members that the branches of the loop read are not changed by them.\<close>

lemma client_branch_fields:
  "Client_read K s = (r, t) \<Longrightarrow> cl_mSocket t = cl_mSocket s \<and> cl_mWakeupPipe t = cl_mWakeupPipe s"
  "Client_drain_wakeup K s = (r, t) \<Longrightarrow> cl_mSocket t = cl_mSocket s \<and> cl_mWakeupPipe t = cl_mWakeupPipe s"
  by (auto simp: Client_read_def Client_drain_wakeup_def Client_getCallback_def cl_store_def bindE_def seqE_def
      act_simps sys_defs Let_def call_callback_def throw_def split: prod.splits sum.splits if_splits)

lemma client_steps_serve:
  "\<exists>n. run_steps (client_loop_step K masterRead) n (Cl_read rd wr) s =
    bindE (Client_serve K rd wr) (\<lambda>_. ret Cl_test) s"
proof -
  let ?read = "whenE (cl_mSocket s \<in> rd) (Client_read K)"
  let ?drain = "whenE (fst (cl_mWakeupPipe s) \<in> rd) (Client_drain_wakeup K)"
  let ?wbranch = "seqE (whenE (cl_mSocket s \<in> wr) (Client_write K)) (ret Cl_test)"
  have step: "run_steps (client_loop_step K masterRead) 1 (Cl_read rd wr) s = bindE ?read (\<lambda>_. ret (Cl_drain rd wr)) s"
    by (simp add: client_loop_step.simps ret_bindE seqE_def bindE_def act_simps split: prod.splits sum.splits)
  have rest: "\<exists>n. run_steps (client_loop_step K masterRead) n (Cl_drain rd wr) t = seqE ?drain ?wbranch t"
    if t: "?read s = (Inr (), t)" for t
  proof -
    have f: "cl_mSocket t = cl_mSocket s" "cl_mWakeupPipe t = cl_mWakeupPipe s"
      using t client_branch_fields(1) [of K s] by (auto simp: whenE_run split: if_splits)
    have drain: "run_steps (client_loop_step K masterRead) 1 (Cl_drain rd wr) t = bindE ?drain (\<lambda>_. ret (Cl_write wr)) t"
      using f by (simp add: client_loop_step.simps ret_bindE seqE_def bindE_def act_simps split: prod.splits sum.splits)
    have "\<exists>n. run_steps (client_loop_step K masterRead) n (Cl_write wr) u = ?wbranch u" if u: "?drain t = (Inr (), u)" for u
    proof -
      have "cl_mSocket u = cl_mSocket s"
        using u f client_branch_fields(2) [of K t] by (auto simp: whenE_run split: if_splits)
      then show ?thesis using client_steps_write [of K masterRead wr u] by (simp add: bindE_def act_simps)
    qed
    then have "\<exists>n. run_steps (client_loop_step K masterRead) n (Cl_drain rd wr) t = bindE ?drain (\<lambda>_. ?wbranch) t"
      by (intro run_steps_then [OF drain]) simp
    then show ?thesis by (simp add: seqE_def)
  qed
  have "\<exists>n. run_steps (client_loop_step K masterRead) n (Cl_read rd wr) s = bindE ?read (\<lambda>_. seqE ?drain ?wbranch) s"
    by (rule run_steps_then [OF step]) (use rest in simp)
  moreover have "bindE ?read (\<lambda>_. seqE ?drain ?wbranch) s = bindE (Client_serve K rd wr) (\<lambda>_. ret Cl_test) s"
    by (simp add: Client_serve_def seqE_def bindE_assoc bindE_def act_simps)
  ultimately show ?thesis by metis
qed

theorem client_steps_are_iteration:
  assumes "cl_mConnected s"
  shows "\<exists>n. run_steps (client_loop_step K masterRead) n Cl_test s =
    bindE (Client_iteration K masterRead []) (\<lambda>left. ret (if left then Cl_returned else Cl_test)) s"
proof -
  obtain r rd wr where sel: "k_select K (io_trace s) (cl_mFdMax s + 1) masterRead (cl_mMasterWrite s) = (r, rd, wr)"
    by (cases "k_select K (io_trace s) (cl_mFdMax s + 1) masterRead (cl_mMasterWrite s)")
  let ?t = "s\<lparr>io_trace := io_trace s @ [Ev_select (cl_mFdMax s + 1) masterRead (cl_mMasterWrite s) r rd wr]\<rparr>"
  obtain n where n: "run_steps (client_loop_step K masterRead) n (Cl_read rd wr) ?t =
    bindE (Client_serve K rd wr) (\<lambda>_. ret Cl_test) ?t"
    using client_steps_serve by blast
  show ?thesis
  proof (cases "r = -1")
    case True
    then show ?thesis
      using assms sel by (intro exI [of _ 2]) (simp add: numeral_eq_Suc client_loop_step.simps Client_iteration_def
        Client_await_def client_threads_def sys_select_def bindE_def seqE_def act_simps throw_errno_def)
  next
    case False
    then show ?thesis
      using assms sel n by (intro exI [of _ "3 + n"]) (simp add: numeral_eq_Suc client_loop_step.simps Client_iteration_def
        Client_await_def client_threads_def sys_select_def bindE_def seqE_def act_simps
        split: prod.splits sum.splits)
  qed
qed

section \<open>The system\<close>

record client_system = client +
  ct_callers :: "caller list"
  ct_loop :: client_pc
  ct_queued :: bytes

datatype client_label = Call_send bytes | Call_disconnect | Caller nat | Loop_step

text \<open>The history: the bytes that were queued. What the kernel was given is in the trace.\<close>

fun note_caller :: "caller \<Rightarrow> 'a client_system_scheme \<Rightarrow> 'a client_system_scheme" where
  "note_caller (Cl_send d) s = s\<lparr>ct_queued := d @ ct_queued s\<rparr>"
| "note_caller _ s = s"

definition caller_run :: "posix \<Rightarrow> nat \<Rightarrow> ('a client_system_scheme, unit) act" where
  "caller_run K n =
     bindE (gets ct_callers) (\<lambda>ts.
       if n < length ts
       then
         seqE (modify (note_caller (ts ! n)))
        (bindE (tryE (caller_step K (ts ! n)) (\<lambda>_. ret Cl_over)) (\<lambda>t.
         modify (\<lambda>s. s\<lparr>ct_callers := (ct_callers s)[n := t]\<rparr>)))
       else skip)"

definition client_loop_run :: "posix \<Rightarrow> int set \<Rightarrow> ('a client_system_scheme, unit) act" where
  "client_loop_run K masterRead =
     bindE (gets ct_loop) (\<lambda>pc.
     bindE (client_loop_step K masterRead pc) (\<lambda>pc'.
     modify (\<lambda>s. s\<lparr>ct_loop := pc'\<rparr>)))"

fun client_label_run :: "posix \<Rightarrow> int set \<Rightarrow> client_label \<Rightarrow> ('a client_system_scheme, unit) act" where
  "client_label_run K masterRead (Call_send d) =
     modify (\<lambda>s. s\<lparr>ct_callers := ct_callers s @ [Cl_send d]\<rparr>)"
| "client_label_run K masterRead Call_disconnect =
     modify (\<lambda>s. s\<lparr>ct_callers := ct_callers s @ [Cl_disconnect]\<rparr>)"
| "client_label_run K masterRead (Caller n) = caller_run K n"
| "client_label_run K masterRead Loop_step = client_loop_run K masterRead"

definition client_system_run :: "posix \<Rightarrow> int set \<Rightarrow> client_label list \<Rightarrow> ('a client_system_scheme, unit) act" where
  "client_system_run K masterRead labels = for_each (client_label_run K masterRead) labels"

section \<open>No byte is lost or repeated\<close>

text \<open>The bytes that the loop has taken and not yet handed to the kernel.\<close>

fun in_hand :: "client_pc \<Rightarrow> bytes" where
  "in_hand (Cl_sending b) = b"
| "in_hand _ = []"

text \<open>
  \<open>before\<close> are the bytes that the trace hands to \<open>::send\<close> on the client's socket when the run
  starts; all that it hands over afterwards was queued.
\<close>

definition client_bytes_kept :: "int \<Rightarrow> char multiset \<Rightarrow> 'a client_system_scheme \<Rightarrow> bool" where
  "client_bytes_kept fd before s \<longleftrightarrow> cl_mSocket s = fd \<and>
     before + mset (ct_queued s) =
       mset (concat (sent_on fd (io_trace s))) + mset (in_hand (ct_loop s)) + mset (cl_mOutgoingBytes s)"

lemma client_bytes_kept_updates [simp]:
  "client_bytes_kept fd b (s\<lparr>cl_mConnected := c\<rparr>) = client_bytes_kept fd b s"
  "client_bytes_kept fd b (s\<lparr>cl_mMasterWrite := W\<rparr>) = client_bytes_kept fd b s"
  "client_bytes_kept fd b (s\<lparr>cl_mBuffer := buf\<rparr>) = client_bytes_kept fd b s"
  "client_bytes_kept fd b (s\<lparr>ct_callers := ts\<rparr>) = client_bytes_kept fd b s"
  "client_bytes_kept fd b (cl_store d s) = client_bytes_kept fd b s"
  by (simp_all add: client_bytes_kept_def cl_store_def)

lemma client_bytes_kept_trace:
  "client_bytes_kept fd b s \<Longrightarrow> concat (sent_on fd es) = [] \<Longrightarrow>
   client_bytes_kept fd b (s\<lparr>io_trace := io_trace s @ es\<rparr>)"
  by (simp add: client_bytes_kept_def)

lemma keeps_caller_run: "keeps True (client_bytes_kept fd b) (caller_run K n)"
proof (rule keepsI)
  fix s :: "'a client_system_scheme"
  assume inv: "client_bytes_kept fd b s"
  show "wp (caller_run K n) (\<lambda>_. client_bytes_kept fd b) (after_fault True (client_bytes_kept fd b)) s"
  proof (cases "ct_callers s ! n")
    case (Cl_send d)
    then show ?thesis
      using inv by (simp add: caller_run_def wp_simps client_bytes_kept_def cl_enqueue_def vector_insert_begin_def
          union_ac)
  next
    case Cl_close
    then show ?thesis
      using inv by (simp add: caller_run_def wp_simps Let_def client_bytes_kept_trace close_events_def)
  qed (use inv in \<open>simp_all add: caller_run_def wp_simps Let_def client_bytes_kept_trace\<close>)
qed

lemma client_bytes_kept_pc:
  "client_bytes_kept fd b s \<Longrightarrow> in_hand pc = in_hand (ct_loop s) \<Longrightarrow> client_bytes_kept fd b (s\<lparr>ct_loop := pc\<rparr>)"
  by (simp add: client_bytes_kept_def)

lemma keeps_client_loop_run: "keeps True (client_bytes_kept fd b) (client_loop_run K masterRead)"
proof (rule keepsI)
  fix s :: "'a client_system_scheme"
  assume inv: "client_bytes_kept fd b s"
  show "wp (client_loop_run K masterRead) (\<lambda>_. client_bytes_kept fd b) (after_fault True (client_bytes_kept fd b)) s"
  proof (cases "ct_loop s")
    case (Cl_write wr)
    then show ?thesis
      using inv by (auto simp: client_loop_run_def client_loop_step.simps wp_simps cl_swap_out_def client_bytes_kept_def)
  next
    case (Cl_sending bs)
    then show ?thesis
      using inv by (auto simp: client_loop_run_def client_loop_step.simps wp_simps Client_getCallback_def Let_def
        client_bytes_kept_def)
  next
    case (Cl_read rd wr)
    then show ?thesis
      using inv by (auto simp: client_loop_run_def client_loop_step.simps wp_simps Client_read_def Client_getCallback_def
        client_bytes_kept_def cl_store_def split: prod.splits)
  next
    case (Cl_drain rd wr)
    then show ?thesis
      using inv by (auto simp: client_loop_run_def client_loop_step.simps wp_simps Client_drain_wakeup_def
        client_bytes_kept_def cl_store_def split: prod.splits)
  qed (use inv in \<open>auto simp: client_loop_run_def client_loop_step.simps wp_simps client_bytes_kept_pc
      client_bytes_kept_trace Let_def split: prod.splits\<close>)
qed

lemma keeps_client_system: "keeps True (client_bytes_kept fd b) (client_system_run K masterRead labels)"
proof -
  have "keeps True (client_bytes_kept fd b) (client_label_run K masterRead l :: ('a client_system_scheme, unit) act)" for l
    by (cases l) (simp_all add: keeps_caller_run keeps_client_loop_run keeps_modify)
  then show ?thesis unfolding client_system_run_def by (intro keeps_intros)
qed

section \<open>Two threads that disconnect\<close>

text \<open>How many statements a call of \<open>disconnect\<close> has left, and whether it will still close.\<close>

fun statements_left :: "caller \<Rightarrow> nat" where
  "statements_left Cl_disconnect = 6"
| "statements_left Cl_clear = 5"
| "statements_left Cl_poll = 4"
| "statements_left Cl_last_send = 3"
| "statements_left Cl_close = 2"
| "statements_left Cl_wake = 1"
| "statements_left _ = 0"

definition disconnecting :: "caller set" where
  "disconnecting = {Cl_disconnect, Cl_clear, Cl_poll, Cl_last_send, Cl_close, Cl_wake, Cl_over}"

definition will_close :: "caller \<Rightarrow> nat" where
  "will_close t = (if t \<in> {Cl_clear, Cl_poll, Cl_last_send, Cl_close} then 1 else 0)"

text \<open>
  Two such calls are under way, which between them close the socket until it has been closed
  \<open>N\<close> times; while the client is connected, both have passed their test.
\<close>

definition both_leaving :: "posix \<Rightarrow> int \<Rightarrow> nat \<Rightarrow> client_label list \<Rightarrow> 'a client_system_scheme \<Rightarrow> bool" where
  "both_leaving K fd N ls s \<longleftrightarrow>
     cl_mSocket s = fd \<and> (\<forall>tr. k_poll K tr fd Poll_out \<noteq> -1) \<and>
     (\<exists>a b. ct_callers s = [a, b] \<and> a \<in> disconnecting \<and> b \<in> disconnecting \<and>
        statements_left a \<le> count_list ls (Caller 0) \<and> statements_left b \<le> count_list ls (Caller 1) \<and>
        count_list (closes (io_trace s)) fd + will_close a + will_close b = N \<and>
        (cl_mConnected s \<longrightarrow> a = Cl_clear \<and> b = Cl_clear))"

lemma both_leaving_two:
  "ct_callers s = [a, b] \<Longrightarrow> both_leaving K fd N ls s \<longleftrightarrow>
     cl_mSocket s = fd \<and> (\<forall>tr. k_poll K tr fd Poll_out \<noteq> -1) \<and> a \<in> disconnecting \<and> b \<in> disconnecting \<and>
     statements_left a \<le> count_list ls (Caller 0) \<and> statements_left b \<le> count_list ls (Caller 1) \<and>
     count_list (closes (io_trace s)) fd + will_close a + will_close b = N \<and>
     (cl_mConnected s \<longrightarrow> a = Cl_clear \<and> b = Cl_clear)"
  by (simp add: both_leaving_def)

lemma both_leaving_step:
  assumes "both_leaving K fd N (Caller n # ls) s" and "n < 2"
  shows "\<exists>s'. caller_run K n s = (Inr (), s') \<and> both_leaving K fd N ls s'"
proof -
  obtain a b where ab: "ct_callers s = [a, b]" "a \<in> disconnecting" "b \<in> disconnecting"
    "statements_left a \<le> count_list (Caller n # ls) (Caller 0)"
    "statements_left b \<le> count_list (Caller n # ls) (Caller 1)"
    "count_list (closes (io_trace s)) fd + will_close a + will_close b = N"
    "cl_mConnected s \<longrightarrow> a = Cl_clear \<and> b = Cl_clear"
    and fd: "cl_mSocket s = fd" "\<forall>tr. k_poll K tr fd Poll_out \<noteq> -1"
    using assms(1) unfolding both_leaving_def by blast
  consider "n = 0" | "n = 1" using assms(2) by linarith
  then show ?thesis
  proof cases
    case 1
    then show ?thesis
      using ab fd
      by (cases a) (auto simp: disconnecting_def caller_run_def seqE_def bindE_def tryE_def act_simps sys_poll_def
          sys_send_def Let_def both_leaving_def will_close_def close_events_def Client_performWakeup_def sys_write_def)
  next
    case 2
    then show ?thesis
      using ab fd
      by (cases b) (auto simp: disconnecting_def caller_run_def seqE_def bindE_def tryE_def act_simps sys_poll_def
          sys_send_def Let_def both_leaving_def will_close_def close_events_def Client_performWakeup_def sys_write_def)
  qed
qed

lemma both_leaving_run:
  "both_leaving K fd N ls s \<Longrightarrow> set ls \<subseteq> {Caller 0, Caller 1} \<Longrightarrow>
   \<exists>s'. client_system_run K masterRead ls s = (Inr (), s') \<and> both_leaving K fd N [] s'"
proof (induction ls arbitrary: s)
  case Nil
  then show ?case by (simp add: client_system_run_def act_simps)
next
  case (Cons l ls)
  then obtain n where n: "l = Caller n" "n < 2" by auto
  obtain s1 where s1: "caller_run K n s = (Inr (), s1)" "both_leaving K fd N ls s1"
    using both_leaving_step [OF Cons.prems(1) [unfolded n(1)] n(2)] by blast
  from Cons.IH [OF s1(2)] Cons.prems(2) show ?case
    using s1(1) by (simp add: client_system_run_def n seqE_def bindE_def)
qed

section \<open>A concrete client\<close>

definition client_with_threads :: client_system where
  "client_with_threads =
     \<lparr>io_trace = [], cl_mCallback = True, cl_mWakeupPipe = (4, 5), cl_mFdMax = 4, cl_mConnected = True,
      cl_mIdentifier = ''bob'', cl_mMasterWrite = {}, cl_mSocket = 3, cl_mBuffer = [],
      cl_mOutgoingBytes = [], ct_callers = [], ct_loop = Cl_test, ct_queued = []\<rparr>"

definition willing_kernel :: posix where
  "willing_kernel = scripted (\<lambda>_ _. ''data'') (\<lambda>_. ({}, {3}))"

section \<open>Properties\<close>

text \<open>
  C14 However a schedule interleaves the statements of the client's loop with those of the
  threads that call \<open>sendDataToServer\<close> and \<open>disconnect\<close>, no byte is lost or repeated before
  it reaches the kernel. In a run that starts with nothing pending and that has not ended in
  undefined behaviour, the bytes that the trace newly hands to \<open>::send\<close> on the client's socket
  (whatever the kernel takes of them), those in the loop's local vector and those in
  \<open>mOutgoingBytes\<close> are, with their multiplicities, the bytes queued so far.
\<close>

theorem client_threads_conserve_bytes:
  assumes "cl_mOutgoingBytes s = []" and "in_hand (ct_loop s) = []" and "ct_queued s = []"
    and "client_system_run K masterRead labels s = (r, s')" and "\<forall>u. r \<noteq> Inl (Undefined_behaviour u)"
  shows "mset (concat (sent_on (cl_mSocket s) (io_trace s))) + mset (ct_queued s') =
    mset (concat (sent_on (cl_mSocket s) (io_trace s'))) +
    mset (in_hand (ct_loop s')) + mset (cl_mOutgoingBytes s')"
proof -
  let ?I = "client_bytes_kept (cl_mSocket s) (mset (concat (sent_on (cl_mSocket s) (io_trace s))))"
  have "?I s" using assms(1-3) by (simp add: client_bytes_kept_def)
  then have run: "wp (client_system_run K masterRead labels) (\<lambda>_. ?I) (after_fault True ?I) s"
    by (rule keeps_wp [OF keeps_client_system])
  have "?I s'"
    using run assms(4,5) by (auto simp: wp_def after_fault_def split: sum.splits fault.splits)
  then show ?thesis by (simp add: client_bytes_kept_def)
qed

theorem client_threads_conserve_bytes_witness:
  "\<exists>s'. client_system_run willing_kernel {3, 4}
      [Call_send ''hi'', Caller 0, Caller 0, Loop_step, Loop_step, Loop_step, Loop_step, Loop_step, Loop_step,
       Loop_step, Call_send ''!'', Caller 1] client_with_threads = (Inr (), s') \<and>
    concat (sent_on 3 (io_trace s')) = ''hi'' \<and> mset (ct_queued s') = mset ''hi'' + mset ''!''"
proof -
  let ?labels = "[Call_send ''hi'', Caller 0, Caller 0, Loop_step, Loop_step, Loop_step, Loop_step, Loop_step,
    Loop_step, Loop_step, Call_send ''!'', Caller 1]"
  obtain s' where s': "client_system_run willing_kernel {3, 4} ?labels client_with_threads = (Inr (), s')"
    "ct_loop s' = Cl_unwatch" "cl_mOutgoingBytes s' = ''!''" "concat (sent_on 3 (io_trace s')) = ''hi''"
    by (simp add: client_system_run_def caller_run_def client_loop_run_def client_loop_step.simps seqE_def bindE_def
        tryE_def act_simps cl_enqueue_def vector_insert_begin_def check_fd_def fd_in_range_def cl_swap_out_def
        sys_select_def sys_send_def Client_getCallback_def call_callback_def emit_def client_with_threads_def
        willing_kernel_def scripted_def)
  have "cl_mOutgoingBytes client_with_threads = []" "in_hand (ct_loop client_with_threads) = []"
    "ct_queued client_with_threads = []"
    "cl_mSocket client_with_threads = 3" "io_trace client_with_threads = []"
    by (simp_all add: client_with_threads_def)
  from client_threads_conserve_bytes [OF this(1-3) s'(1)] this(4,5) s' show ?thesis by simp
qed

text \<open>
  C23 Two threads that call \<open>disconnect\<close> at once, where \<open>poll\<close> does not fail: \<open>mConnected\<close> is tested and cleared by two
  statements, without a lock. In every interleaving both calls return and the client is
  disconnected, but the socket is closed once only if the thread that takes the first
  statement also takes the second; if both test before either clears, it is closed twice, and
  the second time the number may belong to somebody else.
\<close>

theorem client_disconnects_race:
  assumes "cl_mConnected s" and "ct_callers s = [Cl_disconnect, Cl_disconnect]" and "cl_mSocket s = fd"
    and "\<forall>tr. k_poll K tr fd Poll_out \<noteq> -1"
    and "ls \<in> shuffles (replicate 6 (Caller 0)) (replicate 6 (Caller 1))"
  shows "\<exists>s'. client_system_run K masterRead ls s = (Inr (), s') \<and>
    ct_callers s' = [Cl_over, Cl_over] \<and> \<not> cl_mConnected s' \<and>
    count_list (closes (io_trace s')) fd =
      count_list (closes (io_trace s)) fd + (if ls ! 0 = ls ! 1 then 1 else 2)"
proof -
  let ?l0 = "replicate 6 (Caller 0)" and ?l1 = "replicate 6 (Caller 1)"
  have mset: "mset ls = mset (?l0 @ ?l1)" using assms(5) by (simp add: mset_shuffles)
  then have "length ls = length (?l0 @ ?l1)" and set: "set ls = set (?l0 @ ?l1)"
    and "count_list ls c = count_list (?l0 @ ?l1) c" for c
    by (rule mset_eq_length, rule mset_eq_setD) (metis mset count_mset)
  then have count: "length ls = 12" "count_list ls (Caller 0) = 6" "count_list ls (Caller 1) = 6"
    by (simp_all add: numeral_eq_Suc)
  then obtain x y ms where ls: "ls = x # y # ms" by (auto simp: numeral_eq_Suc length_Suc_conv)
  then have xy: "x \<in> {Caller 0, Caller 1}" "y \<in> {Caller 0, Caller 1}" "set ms \<subseteq> {Caller 0, Caller 1}"
    using set by auto
  let ?N = "count_list (closes (io_trace s)) fd + (if x = y then 1 else 2)"
  have "\<exists>s2. client_system_run K masterRead [x, y] s = (Inr (), s2) \<and> both_leaving K fd ?N ms s2"
    using xy count(2,3) assms(1-4) unfolding ls
    by (auto simp: client_system_run_def caller_run_def seqE_def bindE_def tryE_def act_simps both_leaving_two
        disconnecting_def will_close_def)
  then obtain s2 where s2: "client_system_run K masterRead [x, y] s = (Inr (), s2)" "both_leaving K fd ?N ms s2"
    by blast
  obtain s' where s': "client_system_run K masterRead ms s2 = (Inr (), s')" "both_leaving K fd ?N [] s'"
    using both_leaving_run [OF s2(2) xy(3)] by blast
  have "client_system_run K masterRead ls s = (Inr (), s')"
    using s2(1) s'(1) by (auto simp: ls client_system_run_def seqE_def bindE_def act_simps
        split: prod.splits sum.splits)
  moreover have over: "t = Cl_over" if "t \<in> disconnecting" "statements_left t = 0" for t
    using that by (auto simp: disconnecting_def)
  moreover have "ct_callers s' = [Cl_over, Cl_over]" "\<not> cl_mConnected s'"
    "count_list (closes (io_trace s')) fd = ?N"
    using s'(2) by (auto simp: both_leaving_def will_close_def dest!: over)
  ultimately show ?thesis using ls by simp
qed

theorem client_disconnects_race_witness:
  "\<exists>s'. client_system_run willing_kernel {3, 4} (splice (replicate 6 (Caller 0)) (replicate 6 (Caller 1)))
      (client_with_threads\<lparr>ct_callers := [Cl_disconnect, Cl_disconnect]\<rparr>) = (Inr (), s') \<and>
    count_list (closes (io_trace s')) 3 = 2"
proof -
  let ?s = "client_with_threads\<lparr>ct_callers := [Cl_disconnect, Cl_disconnect]\<rparr>"
  let ?ls = "splice (replicate 6 (Caller 0)) (replicate 6 (Caller 1))"
  have first: "?ls ! 0 \<noteq> ?ls ! 1" by (simp add: numeral_eq_Suc)
  have s: "cl_mConnected ?s" "ct_callers ?s = [Cl_disconnect, Cl_disconnect]" "cl_mSocket ?s = 3"
    "closes (io_trace ?s) = []"
    by (simp_all add: client_with_threads_def)
  have "\<forall>tr. k_poll willing_kernel tr 3 Poll_out \<noteq> -1"
    by (simp add: willing_kernel_def scripted_def)
  from client_disconnects_race [OF s(1-3) this splice_in_shuffles, of "{3, 4}"] show ?thesis
    unfolding s(4) if_not_P [OF first] by auto
qed

end
