(* ===== verification/Posix_ServerConnection.thy ===== *)
theory Posix_ServerConnection
  imports Posix_Socket Outgoing_Queue
begin

text \<open>
  \<open>posix/ServerConnection\<close>: the server's end of one connection. Connection objects live on
  the heap and are used through pointers; \<open>sc_heap\<close> holds the live ones, so that a use
  after \<open>delete\<close> is visible as undefined behaviour. Vectors of bytes are taken to be
  shorter than \<open>2 ^ 31\<close>, so that their sizes are the same in \<open>int\<close> and \<open>size_t\<close>.
\<close>

unbundle bit_operations_syntax

section \<open>Objects and the heap\<close>

definition MAX_BUFFER_SIZE :: nat where
  "MAX_BUFFER_SIZE = 1024"

record server_connection =
  mOutgoingBytes :: bytes
  sc_mSocket :: int
  mBuffer :: bytes
  mIdentifier :: bytes

record heap_io = io +
  sc_heap :: "addr \<rightharpoonup> server_connection"
  sc_next :: addr

text \<open>A canonical order for updates of the state: the trace last.\<close>

lemma heap_io_update_order [simp]:
  "sc_heap_update f (io_trace_update g s) = io_trace_update g (sc_heap_update f s)"
  "sc_next_update h (io_trace_update g s) = io_trace_update g (sc_next_update h s)"
  "sc_heap_update f (sc_next_update h s) = sc_next_update h (sc_heap_update f s)"
  by simp_all

definition deref :: "addr \<Rightarrow> ('a heap_io_scheme, server_connection) act" where
  "deref p s =
     (case sc_heap s p of
        None \<Rightarrow> (Inl (Undefined_behaviour ''use of a dead ServerConnection''), s)
      | Some c \<Rightarrow> (Inr c, s))"

definition update_at ::
    "addr \<Rightarrow> (server_connection \<Rightarrow> server_connection) \<Rightarrow> ('a heap_io_scheme, unit) act" where
  "update_at p f =
     bindE (deref p) (\<lambda>c. modify (\<lambda>s. s\<lparr>sc_heap := (sc_heap s)(p \<mapsto> f c)\<rparr>))"

text \<open>Storing \<open>d\<close> at the start of a character array.\<close>

definition store_bytes :: "bytes \<Rightarrow> bytes \<Rightarrow> bytes" where
  "store_bytes buf d = d @ drop (length d) buf"

definition ServerConnection_blank :: "posix \<Rightarrow> server_connection" where
  "ServerConnection_blank K =
     \<lparr>mOutgoingBytes = [], sc_mSocket = indet_int K, mBuffer = indet_buffer K, mIdentifier = []\<rparr>"

definition sc_alloc :: "posix \<Rightarrow> ('a heap_io_scheme, addr) act" where
  "sc_alloc K s =
     (Inr (sc_next s), s\<lparr>sc_heap := (sc_heap s)(sc_next s \<mapsto> ServerConnection_blank K),
        sc_next := Suc (sc_next s)\<rparr>)"

definition sc_dealloc :: "addr \<Rightarrow> 'a heap_io_scheme \<Rightarrow> 'a heap_io_scheme" where
  "sc_dealloc p s = s\<lparr>sc_heap := (sc_heap s)(p := None)\<rparr>"

section \<open>Operations\<close>

definition ServerConnection_performReceive :: "posix \<Rightarrow> addr \<Rightarrow> ('a heap_io_scheme, bytes) act" where
  "ServerConnection_performReceive K p =
     bindE (deref p) (\<lambda>c.
     bindE (sys_recv K (sc_mSocket c) MAX_BUFFER_SIZE MSG_WAITALL) (\<lambda>(nbytes, d).
     seqE (update_at p (\<lambda>c. c\<lparr>mBuffer := store_bytes (mBuffer c) d\<rparr>))
       (if nbytes = -1 then throw_errno K ''failed to recv from socket: ''
        else if nbytes = 0 then throw (Runtime_error ''remote device closing connection'')
        else bindE (deref p) (\<lambda>c. ret (take (nat nbytes) (mBuffer c))))))"

definition ServerConnection_ctor :: "posix \<Rightarrow> addr \<Rightarrow> int \<Rightarrow> ('a heap_io_scheme, unit) act" where
  "ServerConnection_ctor K p serverSocket =
     bindE (sys_accept K serverSocket) (\<lambda>possibleSocket.
       if possibleSocket = -1 then throw_errno K ''failed to handle new connection: ''
       else
         seqE (update_at p (\<lambda>c. c\<lparr>sc_mSocket := Socket_getSocket (Socket_wrap possibleSocket)\<rparr>))
        (seqE (Socket_makeNonBlocking K (Socket_wrap possibleSocket))
        (bindE (sys_send K possibleSocket ''ack'') (\<lambda>_.
         bindE (sys_poll K possibleSocket Poll_in_pri) (\<lambda>r.
           if r = -1 then throw_errno K ''failed to poll socket for receive: ''
           else
             bindE (ServerConnection_performReceive K p) (\<lambda>res.
             update_at p (\<lambda>c. c\<lparr>mIdentifier := res\<rparr>)))))))"

text \<open>
  \<open>new ServerConnection(serverSocket)\<close>: a constructor that throws gives the memory back,
  and does not run the destructor.
\<close>

definition new_ServerConnection :: "posix \<Rightarrow> int \<Rightarrow> ('a heap_io_scheme, addr) act" where
  "new_ServerConnection K serverSocket =
     bindE (sc_alloc K) (\<lambda>p.
     seqE (unwind (ServerConnection_ctor K p serverSocket) (sc_dealloc p)) (ret p))"

definition ServerConnection_destructor :: "posix \<Rightarrow> addr \<Rightarrow> ('a heap_io_scheme, unit) act" where
  "ServerConnection_destructor K p =
     bindE (deref p) (\<lambda>c. Socket_closeSocket K (Socket_wrap (sc_mSocket c)))"

definition delete_ServerConnection :: "posix \<Rightarrow> addr \<Rightarrow> ('a heap_io_scheme, unit) act" where
  "delete_ServerConnection K p =
     seqE (ServerConnection_destructor K p) (modify (sc_dealloc p))"

definition ServerConnection_getSocket :: "addr \<Rightarrow> ('a heap_io_scheme, int) act" where
  "ServerConnection_getSocket p = bindE (deref p) (\<lambda>c. ret (sc_mSocket c))"

definition ServerConnection_getBuffer :: "addr \<Rightarrow> ('a heap_io_scheme, bytes) act" where
  "ServerConnection_getBuffer p = bindE (deref p) (\<lambda>c. ret (mBuffer c))"

definition ServerConnection_getIdentifier :: "addr \<Rightarrow> ('a heap_io_scheme, bytes) act" where
  "ServerConnection_getIdentifier p = bindE (deref p) (\<lambda>c. ret (mIdentifier c))"

text \<open>\<open>mOutgoingBytes.insert(mOutgoingBytes.begin(), data, data + count)\<close>\<close>

definition sc_enqueue :: "bytes \<Rightarrow> server_connection \<Rightarrow> server_connection" where
  "sc_enqueue d c = c\<lparr>mOutgoingBytes := vector_insert_begin (mOutgoingBytes c) d\<rparr>"

definition ServerConnection_addQueuedMessage :: "addr \<Rightarrow> bytes \<Rightarrow> ('a heap_io_scheme, unit) act" where
  "ServerConnection_addQueuedMessage p d = update_at p (sc_enqueue d)"

text \<open>\<open>mOutgoingBytes.swap(bytesToSend)\<close> with a new vector.\<close>

definition sc_swap_out :: "server_connection \<Rightarrow> bytes \<times> server_connection" where
  "sc_swap_out c = (mOutgoingBytes c, c\<lparr>mOutgoingBytes := []\<rparr>)"

text \<open>
  The address of the first element of the bytes to send is taken with \<open>operator[]\<close>, which
  is undefined behaviour for an empty vector.
\<close>

definition ServerConnection_sendQueuedMessage ::
    "posix \<Rightarrow> bool \<Rightarrow> addr \<Rightarrow> ('a heap_io_scheme, unit) act" where
  "ServerConnection_sendQueuedMessage K cb p =
     bindE (deref p) (\<lambda>c.
       case sc_swap_out c of (bytesToSend, c') \<Rightarrow>
         seqE (update_at p (\<lambda>_. c'))
           (if bytesToSend = [] then throw (Undefined_behaviour ''element of an empty vector'')
            else
              bindE (sys_send K (sc_mSocket c) bytesToSend) (\<lambda>r.
              whenE (r = int (length bytesToSend))
                (call_callback cb (Cb_sendComplete (mIdentifier c) (length bytesToSend))))))"

interpretation sc_queue: outgoing_queue sc_enqueue sc_swap_out mOutgoingBytes
  by unfold_locales (simp_all add: sc_enqueue_def sc_swap_out_def vector_insert_begin_def)

section \<open>How the operations run\<close>

lemma deref_run [act_simps]: "sc_heap s p = Some c \<Longrightarrow> deref p s = (Inr c, s)"
  by (simp add: deref_def)

lemma deref_dead [act_simps]:
  "sc_heap s p = None \<Longrightarrow>
   deref p s = (Inl (Undefined_behaviour ''use of a dead ServerConnection''), s)"
  by (simp add: deref_def)

lemma wp_deref [wp_simps]:
  "wp (deref p) Q E s =
     (case sc_heap s p of
        None \<Rightarrow> E (Undefined_behaviour ''use of a dead ServerConnection'') s
      | Some c \<Rightarrow> Q c s)"
  by (simp add: wp_def deref_def split: option.splits)

lemma wp_update_at [wp_simps]:
  "wp (update_at p f) Q E s =
     (case sc_heap s p of
        None \<Rightarrow> E (Undefined_behaviour ''use of a dead ServerConnection'') s
      | Some c \<Rightarrow> Q () (s\<lparr>sc_heap := (sc_heap s)(p \<mapsto> f c)\<rparr>))"
  by (simp add: update_at_def wp_simps split: option.splits)

lemma update_at_run [act_simps]:
  "sc_heap s p = Some c \<Longrightarrow> update_at p f s = (Inr (), s\<lparr>sc_heap := (sc_heap s)(p \<mapsto> f c)\<rparr>)"
  by (simp add: update_at_def bindE_def deref_def modify_def)

lemma performReceive_run:
  assumes "sc_heap s p = Some c"
    and "k_recv K (io_trace s) (sc_mSocket c) MAX_BUFFER_SIZE MSG_WAITALL = (n, d)"
  shows "ServerConnection_performReceive K p s =
    (let s' = s\<lparr>io_trace := io_trace s @ [Ev_recv (sc_mSocket c) MAX_BUFFER_SIZE MSG_WAITALL n d],
                sc_heap := (sc_heap s)(p \<mapsto> c\<lparr>mBuffer := store_bytes (mBuffer c) d\<rparr>)\<rparr>
     in (if n = -1 then Inl (Runtime_error (''failed to recv from socket: '' @
              k_strerror K (io_trace s')))
         else if n = 0 then Inl (Runtime_error ''remote device closing connection'')
         else Inr (take (nat n) (store_bytes (mBuffer c) d)), s'))"
  using assms
  by (simp add: ServerConnection_performReceive_def bindE_def seqE_def deref_def sys_recv_def
      update_at_def modify_def throw_errno_def throw_def ret_def Let_def)

lemma sendQueuedMessage_run:
  assumes "sc_heap s p = Some c" and "mOutgoingBytes c \<noteq> []"
    and "k_send K (io_trace s) (sc_mSocket c) (mOutgoingBytes c) = r"
  shows "ServerConnection_sendQueuedMessage K True p s =
    (Inr (), s\<lparr>sc_heap := (sc_heap s)(p \<mapsto> c\<lparr>mOutgoingBytes := []\<rparr>),
       io_trace := io_trace s @ [Ev_send (sc_mSocket c) (mOutgoingBytes c) r] @
         (if r = int (length (mOutgoingBytes c))
          then [Ev_callback (Cb_sendComplete (mIdentifier c) (length (mOutgoingBytes c)))]
          else [])\<rparr>)"
  using assms
  by (simp add: ServerConnection_sendQueuedMessage_def bindE_def seqE_def deref_def sc_swap_out_def
      update_at_def modify_def sys_send_def whenE_def call_callback_def emit_def skip_def ret_def
      Let_def)

lemma addQueuedMessages_run:
  "sc_heap s p = Some c \<Longrightarrow>
   for_each (ServerConnection_addQueuedMessage p) ds s =
     (Inr (), s\<lparr>sc_heap := (sc_heap s)(p \<mapsto> fold sc_enqueue ds c)\<rparr>)"
proof (induction ds arbitrary: s c)
  case Nil
  then show ?case by (simp add: act_simps fun_upd_idem)
next
  case (Cons d ds)
  let ?s1 = "s\<lparr>sc_heap := (sc_heap s)(p \<mapsto> sc_enqueue d c)\<rparr>"
  have "for_each (ServerConnection_addQueuedMessage p) ds ?s1 =
      (Inr (), ?s1\<lparr>sc_heap := (sc_heap ?s1)(p \<mapsto> fold sc_enqueue ds (sc_enqueue d c))\<rparr>)"
    by (rule Cons.IH) simp
  moreover have "ServerConnection_addQueuedMessage p d s = (Inr (), ?s1)"
    using Cons.prems by (simp add: ServerConnection_addQueuedMessage_def act_simps)
  moreover have "?s1\<lparr>sc_heap := (sc_heap ?s1)(p \<mapsto> fold sc_enqueue (d # ds) c)\<rparr> =
      s\<lparr>sc_heap := (sc_heap s)(p \<mapsto> fold sc_enqueue (d # ds) c)\<rparr>"
    by simp
  ultimately show ?case by (simp add: seqE_def bindE_def del: fun_upd_apply)
qed

lemma fold_sc_enqueue_other:
  "sc_mSocket (fold sc_enqueue ds c) = sc_mSocket c"
  "mIdentifier (fold sc_enqueue ds c) = mIdentifier c"
  by (induction ds arbitrary: c) (simp_all add: sc_enqueue_def)

lemma wp_delete [wp_simps]:
  "wp (delete_ServerConnection K p) Q E s =
     (case sc_heap s p of
        None \<Rightarrow> E (Undefined_behaviour ''use of a dead ServerConnection'') s
      | Some c \<Rightarrow> Q () (sc_dealloc p (s\<lparr>io_trace := io_trace s @
          close_events K (io_trace s) (sc_mSocket c)\<rparr>)))"
  by (simp add: delete_ServerConnection_def ServerConnection_destructor_def wp_simps
      split: option.splits)

lemma delete_run [act_simps]:
  "sc_heap s p = Some c \<Longrightarrow> delete_ServerConnection K p s =
     (Inr (), sc_dealloc p (s\<lparr>io_trace := io_trace s @
        close_events K (io_trace s) (sc_mSocket c)\<rparr>))"
  by (simp add: delete_ServerConnection_def ServerConnection_destructor_def seqE_def bindE_def
      deref_def act_simps)

section \<open>The handshake of the constructor\<close>

lemma performReceive_wpI:
  assumes "recv_fits K" and "sc_heap s p = Some c"
    and "\<And>d. d \<noteq> [] \<Longrightarrow> length d \<le> MAX_BUFFER_SIZE \<Longrightarrow> Q d (s\<lparr>io_trace := io_trace s @
           [Ev_recv (sc_mSocket c) MAX_BUFFER_SIZE MSG_WAITALL (int (length d)) d],
         sc_heap := (sc_heap s)(p \<mapsto> c\<lparr>mBuffer := store_bytes (mBuffer c) d\<rparr>)\<rparr>)"
    and "\<And>w n d. k_recv K (io_trace s) (sc_mSocket c) MAX_BUFFER_SIZE MSG_WAITALL = (n, d) \<Longrightarrow>
         n \<le> 0 \<Longrightarrow> E (Runtime_error w) (s\<lparr>io_trace := io_trace s @
           [Ev_recv (sc_mSocket c) MAX_BUFFER_SIZE MSG_WAITALL n d],
         sc_heap := (sc_heap s)(p \<mapsto> c\<lparr>mBuffer := store_bytes (mBuffer c) d\<rparr>)\<rparr>)"
  shows "wp (ServerConnection_performReceive K p) Q E s"
proof -
  obtain n d where recv: "k_recv K (io_trace s) (sc_mSocket c) MAX_BUFFER_SIZE MSG_WAITALL = (n, d)"
    by (cases "k_recv K (io_trace s) (sc_mSocket c) MAX_BUFFER_SIZE MSG_WAITALL")
  note run = performReceive_run [OF assms(2) recv]
  consider "n = -1" | "n = 0" "d = []" | "n \<noteq> -1" "n \<noteq> 0" "n = int (length d)" "d \<noteq> []"
      "length d \<le> MAX_BUFFER_SIZE"
    using recv_fitsD [OF assms(1) recv] by fastforce
  then show ?thesis
  proof cases
    case 3
    then show ?thesis
      using assms(3) [of d] by (simp add: wp_def run Let_def store_bytes_def)
  qed (use assms(4) [OF recv] in \<open>simp_all add: wp_def run Let_def\<close>)
qed

text \<open>
  The events of a successful construction: the new descriptor is made non-blocking,
  acknowledged, polled and read once. The bytes read are the identifier.
\<close>

definition handshake_events :: "posix \<Rightarrow> int \<Rightarrow> int \<Rightarrow> int \<Rightarrow> int \<Rightarrow> int \<Rightarrow> bytes \<Rightarrow> event list" where
  "handshake_events K srv fd x r pr ident =
     [Ev_accept srv fd, Ev_getfl fd x, Ev_setfl fd (x OR O_NONBLOCK K), Ev_send fd ''ack'' r,
      Ev_poll fd Poll_in_pri pr,
      Ev_recv fd MAX_BUFFER_SIZE MSG_WAITALL (int (length ident)) ident]"

definition accepted :: "posix \<Rightarrow> int \<Rightarrow> bytes \<Rightarrow> server_connection" where
  "accepted K fd ident =
     \<lparr>mOutgoingBytes = [], sc_mSocket = fd, mBuffer = store_bytes (indet_buffer K) ident,
      mIdentifier = ident\<rparr>"

definition built :: "posix \<Rightarrow> int \<Rightarrow> 'a heap_io_scheme \<Rightarrow> addr \<Rightarrow> 'a heap_io_scheme \<Rightarrow> bool" where
  "built K srv s p s' \<longleftrightarrow>
     (\<exists>fd x r pr ident.
        fd = k_accept K (io_trace s) srv \<and> fd \<noteq> -1 \<and>
        ident \<noteq> [] \<and> length ident \<le> MAX_BUFFER_SIZE \<and> p = sc_next s \<and>
        s' = s\<lparr>sc_next := Suc p,
                io_trace := io_trace s @ handshake_events K srv fd x r pr ident,
                sc_heap := (sc_heap s)(p \<mapsto> accepted K fd ident)\<rparr>)"

text \<open>What follows a failed handshake's \<open>accept\<close> in the trace: up to the failed call.\<close>

definition failed_handshake :: "posix \<Rightarrow> int \<Rightarrow> event list \<Rightarrow> bool" where
  "failed_handshake K fd tr \<longleftrightarrow>
     fd = -1 \<and> tr = [] \<or>
     fd \<noteq> -1 \<and> (\<exists>x r pr tr'.
        tr = [Ev_getfl fd x, Ev_setfl fd (x OR O_NONBLOCK K), Ev_send fd ''ack'' r,
              Ev_poll fd Poll_in_pri pr] @ tr' \<and>
        (tr' = [] \<or> (\<exists>n. n \<le> 0 \<and> tr' = [Ev_recv fd MAX_BUFFER_SIZE MSG_WAITALL n []])))"

definition not_built :: "posix \<Rightarrow> int \<Rightarrow> 'a heap_io_scheme \<Rightarrow> fault \<Rightarrow> 'a heap_io_scheme \<Rightarrow> bool" where
  "not_built K srv s e s' \<longleftrightarrow>
     (\<exists>fd w tr. fd = k_accept K (io_trace s) srv \<and> e = Runtime_error w \<and>
        s' = s\<lparr>sc_next := Suc (sc_next s), io_trace := io_trace s @ Ev_accept srv fd # tr,
                sc_heap := (sc_heap s)(sc_next s := None)\<rparr> \<and>
        failed_handshake K fd tr)"

lemma new_ServerConnection_wp:
  assumes "recv_fits K"
  shows "wp (new_ServerConnection K srv) (built K srv s) (not_built K srv s) s"
proof -
  define fd where "fd = k_accept K (io_trace s) srv"
  have alloc: "wp (sc_alloc K) Q E s = Q (sc_next s)
      (s\<lparr>sc_heap := (sc_heap s)(sc_next s \<mapsto> ServerConnection_blank K), sc_next := Suc (sc_next s)\<rparr>)"
    for Q E
    by (simp add: sc_alloc_def wp_def)
  show ?thesis
  proof (cases "fd = -1")
    case True
    then show ?thesis
      by (simp add: new_ServerConnection_def ServerConnection_ctor_def wp_simps alloc Let_def
          fd_def [symmetric] sc_dealloc_def not_built_def failed_handshake_def)
  next
    case False
    have rest: "wp (bindE (ServerConnection_performReceive K (sc_next s))
          (\<lambda>res. update_at (sc_next s) (\<lambda>c. c\<lparr>mIdentifier := res\<rparr>)))
        (\<lambda>_. wp (ret (sc_next s)) (built K srv s) (not_built K srv s))
        (\<lambda>e s'. not_built K srv s e (sc_dealloc (sc_next s) s'))
        (s\<lparr>sc_next := Suc (sc_next s), io_trace := io_trace s @ [Ev_accept srv fd, Ev_getfl fd x,
              Ev_setfl fd (x OR O_NONBLOCK K), Ev_send fd ''ack'' r, Ev_poll fd Poll_in_pri pr],
            sc_heap := (sc_heap s)(sc_next s \<mapsto> (ServerConnection_blank K)\<lparr>sc_mSocket := fd\<rparr>)\<rparr>)"
      for x r pr
      unfolding wp_bindE
    proof (rule performReceive_wpI [OF assms,
          where c = "(ServerConnection_blank K)\<lparr>sc_mSocket := fd\<rparr>"], goal_cases)
      case 1
      then show ?case by simp
    next
      case (2 ident)
      then show ?case
        using False
        by (simp add: wp_simps)
          (unfold built_def, intro exI [of _ fd] exI [of _ x] exI [of _ r] exI [of _ pr]
            exI [of _ ident], simp add: fd_def handshake_events_def accepted_def
            ServerConnection_blank_def)
    next
      case (3 w n d)
      then have "d = []" and "n \<le> 0"
        using recv_fitsD [OF assms 3(1)] by auto
      then show ?case
        using False
        by (simp add: not_built_def sc_dealloc_def ServerConnection_blank_def)
          (intro exI [of _ "[Ev_getfl fd x, Ev_setfl fd (x OR O_NONBLOCK K),
              Ev_send fd ''ack'' r, Ev_poll fd Poll_in_pri pr,
              Ev_recv fd MAX_BUFFER_SIZE MSG_WAITALL n d]"],
            simp add: fd_def failed_handshake_def)
    qed
    have failed: "not_built K srv s (Runtime_error w)
        (s\<lparr>sc_next := Suc (sc_next s), io_trace := io_trace s @ Ev_accept srv fd #
             [Ev_getfl fd x, Ev_setfl fd (x OR O_NONBLOCK K), Ev_send fd ''ack'' r,
              Ev_poll fd Poll_in_pri pr],
           sc_heap := (sc_heap s)(sc_next s := None)\<rparr>)" for w x r pr
      unfolding not_built_def using False
      by (intro exI [of _ fd] exI [of _ w] exI [of _ "[Ev_getfl fd x, Ev_setfl fd (x OR O_NONBLOCK K),
            Ev_send fd ''ack'' r, Ev_poll fd Poll_in_pri pr]"])
        (simp add: fd_def failed_handshake_def)
    show ?thesis
      using False rest failed
      by (simp add: new_ServerConnection_def ServerConnection_ctor_def wp_simps alloc Let_def
          fd_def [symmetric] sc_dealloc_def)
  qed
qed

lemma failed_handshake_neutral: "failed_handshake K fd tr \<Longrightarrow> foldl track_fd S tr = S"
  by (auto simp: failed_handshake_def)

lemma open_fds_not_built:
  "not_built K srv s e s' \<Longrightarrow>
   open_fds (io_trace s') = track_fd (open_fds (io_trace s)) (Ev_accept srv (k_accept K (io_trace s) srv))"
  by (auto simp: not_built_def open_fds_append failed_handshake_neutral)

lemma new_ServerConnection_built:
  "recv_fits K \<Longrightarrow> new_ServerConnection K srv s = (Inr p, s') \<Longrightarrow> built K srv s p s'"
  by (rule wp_normalD [OF new_ServerConnection_wp])

lemma new_ServerConnection_not_built:
  "recv_fits K \<Longrightarrow> new_ServerConnection K srv s = (Inl e, s') \<Longrightarrow> not_built K srv s e s'"
  by (rule wp_faultD [OF new_ServerConnection_wp])

section \<open>Properties\<close>

text \<open>
  C24 A connection is only constructed through the whole handshake, where \<open>recv\<close> stores what it
  counts: the descriptor that \<open>accept\<close> returned is made non-blocking, sent the three bytes "ack", polled and read
  once, in this order and with nothing else in between; the object then holds that
  descriptor, an empty outgoing queue, and as its identifier exactly the bytes read, at least
  one and at most \<open>MAX_BUFFER_SIZE\<close>.
\<close>

theorem server_connection_handshake:
  assumes "recv_fits K" and "new_ServerConnection K srv s = (Inr p, s')"
  shows "\<exists>fd x r pr ident.
    io_trace s' = io_trace s @
      [Ev_accept srv fd, Ev_getfl fd x, Ev_setfl fd (x OR O_NONBLOCK K), Ev_send fd ''ack'' r,
       Ev_poll fd Poll_in_pri pr,
       Ev_recv fd MAX_BUFFER_SIZE MSG_WAITALL (int (length ident)) ident] \<and>
    fd \<noteq> -1 \<and> 1 \<le> length ident \<and> length ident \<le> 1024 \<and>
    (\<exists>c. sc_heap s' p = Some c \<and> sc_mSocket c = fd \<and> mIdentifier c = ident \<and>
         mOutgoingBytes c = []) \<and>
    (\<forall>q. q \<noteq> p \<longrightarrow> sc_heap s' q = sc_heap s q)"
  using new_ServerConnection_built [OF assms]
  by (fastforce simp: built_def handshake_events_def accepted_def MAX_BUFFER_SIZE_def Suc_le_eq)

definition sample_kernel :: posix where
  "sample_kernel = scripted (\<lambda>tr fd. ''alice'') (\<lambda>_. ({}, {}))"

definition sample_heap :: heap_io where
  "sample_heap = \<lparr>io_trace = [], sc_heap = Map.empty, sc_next = 1\<rparr>"

lemma sample_new:
  "\<exists>s'. new_ServerConnection sample_kernel 3 sample_heap = (Inr 1, s')"
  by (simp add: new_ServerConnection_def ServerConnection_ctor_def sc_alloc_def update_at_def
      ServerConnection_performReceive_def Socket_makeNonBlocking_def sys_defs seqE_def bindE_def
      unwind_def deref_def modify_def ret_def throw_def Let_def sample_heap_def sample_kernel_def
      scripted_def next_fd_def MAX_BUFFER_SIZE_def)

theorem server_connection_handshake_witness:
  "\<exists>s' fd x r pr ident. new_ServerConnection sample_kernel 3 sample_heap = (Inr 1, s') \<and>
    io_trace s' =
      [Ev_accept 3 fd, Ev_getfl fd x, Ev_setfl fd (x OR O_NONBLOCK sample_kernel),
       Ev_send fd ''ack'' r, Ev_poll fd Poll_in_pri pr,
       Ev_recv fd MAX_BUFFER_SIZE MSG_WAITALL (int (length ident)) ident] \<and>
    1 \<le> length ident \<and> length ident \<le> 1024"
proof -
  obtain s' where new: "new_ServerConnection sample_kernel 3 sample_heap = (Inr 1, s')"
    using sample_new by blast
  have "recv_fits sample_kernel" by (simp add: sample_kernel_def scripted_recv_fits)
  from server_connection_handshake [OF this new] new show ?thesis
    by (auto simp: sample_heap_def)
qed

text \<open>
  A handshake that fails after \<open>accept\<close> leaks the accepted descriptor: the runtime error
  leaves with the descriptor still open, while no connection object is left that could ever
  close it.
\<close>

theorem server_connection_ctor_leaks:
  assumes "recv_fits K" and "new_ServerConnection K srv s = (Inl e, s')"
    and "sc_heap s (sc_next s) = None" and "k_accept K (io_trace s) srv = fd" and "fd \<noteq> -1"
  shows "fd \<in> open_fds (io_trace s') \<and> sc_heap s' = sc_heap s \<and> (\<exists>w. e = Runtime_error w)"
proof -
  note nb = new_ServerConnection_not_built [OF assms(1,2)]
  have "sc_heap s' = (sc_heap s)(sc_next s := None)" and "\<exists>w. e = Runtime_error w"
    using nb by (auto simp: not_built_def)
  moreover have "(sc_heap s)(sc_next s := None) = sc_heap s"
    using assms(3) by (simp add: fun_upd_idem)
  moreover have "fd \<in> open_fds (io_trace s')"
    using assms(4,5) by (simp add: open_fds_not_built [OF nb])
  ultimately show ?thesis by simp
qed

definition silent_kernel :: posix where
  "silent_kernel = scripted (\<lambda>tr fd. []) (\<lambda>_. ({}, {}))"

theorem server_connection_ctor_leaks_witness:
  "\<exists>e s'. new_ServerConnection silent_kernel 3 sample_heap = (Inl e, s') \<and>
     3 \<in> open_fds (io_trace s') \<and> sc_heap s' = Map.empty \<and> (\<exists>w. e = Runtime_error w)"
proof -
  obtain e s' where new: "new_ServerConnection silent_kernel 3 sample_heap = (Inl e, s')"
    by (simp add: new_ServerConnection_def ServerConnection_ctor_def sc_alloc_def update_at_def
        ServerConnection_performReceive_def Socket_makeNonBlocking_def sys_defs seqE_def bindE_def
        unwind_def deref_def modify_def ret_def throw_def Let_def sample_heap_def silent_kernel_def
        scripted_def next_fd_def MAX_BUFFER_SIZE_def)
  have fits: "recv_fits silent_kernel" by (simp add: silent_kernel_def scripted_recv_fits)
  have "sc_heap sample_heap (sc_next sample_heap) = None"
    and "k_accept silent_kernel (io_trace sample_heap) 3 = 3"
    by (simp_all add: sample_heap_def silent_kernel_def scripted_def next_fd_def)
  from server_connection_ctor_leaks [OF fits new this] new show ?thesis
    by (auto simp: sample_heap_def)
qed

text \<open>
  C32 The bytes written after several messages were queued are the messages in the reverse of
  the order they were queued in, before whatever was pending: one \<open>send\<close> carries all of
  them, every byte once, and the queue is empty afterwards.
\<close>

theorem queued_messages_sent_reversed:
  assumes "sc_heap s p = Some c" and "concat ds \<noteq> []"
  shows "\<exists>s'. seqE (for_each (ServerConnection_addQueuedMessage p) ds)
       (ServerConnection_sendQueuedMessage K True p) s = (Inr (), s') \<and>
     sent_on (sc_mSocket c) (io_trace s') =
       sent_on (sc_mSocket c) (io_trace s) @ [concat (rev ds) @ mOutgoingBytes c] \<and>
     map_option mOutgoingBytes (sc_heap s' p) = Some []"
proof -
  let ?c = "fold sc_enqueue ds c"
  have out: "mOutgoingBytes ?c = concat (rev ds) @ mOutgoingBytes c"
    by (rule sc_queue.pending_fold)
  have "concat (rev ds) \<noteq> []" using assms(2) by auto
  then have ne: "mOutgoingBytes ?c \<noteq> []" by (simp add: out)
  show ?thesis
    using sendQueuedMessage_run [OF _ ne refl, of "s\<lparr>sc_heap := (sc_heap s)(p \<mapsto> ?c)\<rparr>" p K]
    by (simp add: seqE_def bindE_def addQueuedMessages_run [OF assms(1)] out
        fold_sc_enqueue_other)
qed

theorem queued_messages_sent_reversed_witness:
  "\<exists>s'. seqE (for_each (ServerConnection_addQueuedMessage 1) [''first '', ''second''])
       (ServerConnection_sendQueuedMessage sample_kernel True 1)
       (sample_heap\<lparr>sc_heap := [1 \<mapsto> accepted sample_kernel 7 ''alice'']\<rparr>) = (Inr (), s') \<and>
     sent_on 7 (io_trace s') = [''secondfirst '']"
  using queued_messages_sent_reversed [of
      "sample_heap\<lparr>sc_heap := [1 \<mapsto> accepted sample_kernel 7 ''alice'']\<rparr>" 1
      "accepted sample_kernel 7 ''alice''" "[''first '', ''second'']" sample_kernel]
  by (auto simp: accepted_def sample_heap_def)

text \<open>
  A write that the kernel takes only in part, or refuses, loses the rest: the queue was
  emptied before the call, the unsent bytes are nowhere in the object afterwards, and the
  callback hears of neither success nor failure.
\<close>

theorem partial_send_loses_data:
  assumes "sc_heap s p = Some c" and "mOutgoingBytes c \<noteq> []"
    and "k_send K (io_trace s) (sc_mSocket c) (mOutgoingBytes c) = r"
    and "r < int (length (mOutgoingBytes c))"
  shows "\<exists>s'. ServerConnection_sendQueuedMessage K True p s = (Inr (), s') \<and>
     sc_heap s' p = Some (c\<lparr>mOutgoingBytes := []\<rparr>) \<and>
     callbacks (io_trace s') = callbacks (io_trace s)"
  using assms(4) by (simp add: sendQueuedMessage_run [OF assms(1-3)] callbacks_def)

theorem partial_send_loses_data_witness:
  "\<exists>s'. ServerConnection_sendQueuedMessage (sample_kernel\<lparr>k_send := (\<lambda>_ _ _. 2)\<rparr>) True 1
       (sample_heap\<lparr>sc_heap := [1 \<mapsto> sc_enqueue ''hello'' (accepted sample_kernel 7 ''alice'')]\<rparr>) =
       (Inr (), s') \<and>
     sc_heap s' 1 = Some (accepted sample_kernel 7 ''alice'') \<and> callbacks (io_trace s') = []"
  using partial_send_loses_data [of
      "sample_heap\<lparr>sc_heap := [1 \<mapsto> sc_enqueue ''hello'' (accepted sample_kernel 7 ''alice'')]\<rparr>" 1
      "sc_enqueue ''hello'' (accepted sample_kernel 7 ''alice'')" "sample_kernel\<lparr>k_send := (\<lambda>_ _ _. 2)\<rparr>" 2]
  by (simp add: accepted_def sample_heap_def sc_enqueue_def vector_insert_begin_def)

end
