(* ===== verification/Connection_Store.thy ===== *)
theory Connection_Store
  imports C11_Prelude
begin

text \<open>
  The interface of the container of connections that both platforms have: connections are
  added with a key (the descriptor, or the event handle) and an identifier, removed by key,
  and looked up by either. Its abstract value is the list of entries in the order they were
  added. The predicate \<open>removable\<close> says for which keys the container keeps the contract
  of removal; \<open>absent\<close> is what a lookup by key gives for a key that is not there.
\<close>

type_synonym 'k entry = "'k \<times> bytes \<times> addr"

definition find_entry :: "'k \<Rightarrow> 'k entry list \<Rightarrow> addr option" where
  "find_entry k es = map_option (\<lambda>e. snd (snd e)) (find (\<lambda>e. fst e = k) es)"

lemma find_entry_Nil [simp]: "find_entry k [] = None"
  by (simp add: find_entry_def)

lemma find_entry_Cons [simp]:
  "find_entry k (e # es) = (if fst e = k then Some (snd (snd e)) else find_entry k es)"
  by (simp add: find_entry_def)

lemma find_entry_append:
  "find_entry k (as @ bs) = (case find_entry k as of None \<Rightarrow> find_entry k bs | Some p \<Rightarrow> Some p)"
  by (induction as) auto

lemma find_entry_None: "find_entry k es = None \<longleftrightarrow> k \<notin> fst ` set es"
  by (induction es) auto

lemma find_entry_Some: "find_entry k es = Some p \<Longrightarrow> \<exists>i. (k, i, p) \<in> set es"
  by (induction es) (auto split: if_splits)

lemma find_entry_filter:
  "find_entry k' (filter (\<lambda>e. fst e \<noteq> k) es) = (if k' = k then None else find_entry k' es)"
  by (induction es) auto

locale connection_store =
  fixes entries :: "'s \<Rightarrow> 'k entry list"
    and inv :: "'s \<Rightarrow> bool"
    and addable :: "'k entry \<Rightarrow> 's \<Rightarrow> bool"
    and add :: "'k entry \<Rightarrow> ('s, unit) act"
    and removable :: "'k \<Rightarrow> 's \<Rightarrow> bool"
    and remove :: "'k \<Rightarrow> ('s, unit) act"
    and lookup_key :: "'k \<Rightarrow> ('s, addr) act"
    and lookup_id :: "bytes \<Rightarrow> ('s, addr) act"
    and absent :: "fault + addr"
  assumes distinct_keys: "inv s \<Longrightarrow> distinct (map fst (entries s))"
    and add_ok: "inv s \<Longrightarrow> addable e s \<Longrightarrow>
      \<exists>s'. add e s = (Inr (), s') \<and> inv s' \<and> entries s' = entries s @ [e] \<and>
           lookup_id (fst (snd e)) s' = (Inr (snd (snd e)), s')"
    and addable_fresh: "inv s \<Longrightarrow> addable e s \<Longrightarrow> fst e \<notin> fst ` set (entries s)"
    and remove_ok: "inv s \<Longrightarrow> removable k s \<Longrightarrow>
      \<exists>s'. remove k s = (Inr (), s') \<and> inv s' \<and>
           entries s' = filter (\<lambda>e. fst e \<noteq> k) (entries s)"
    and lookup_key_eq: "inv s \<Longrightarrow>
      lookup_key k s = (case find_entry k (entries s) of None \<Rightarrow> absent | Some p \<Rightarrow> Inr p, s)"
    and lookup_id_sound: "inv s \<Longrightarrow> lookup_id i s = (Inr p, s') \<Longrightarrow>
      s' = s \<and> (\<exists>k. (k, i, p) \<in> set (entries s))"
begin

lemma lookup_key_run:
  "inv s \<Longrightarrow> find_entry k (entries s) = Some p \<Longrightarrow> lookup_key k s = (Inr p, s)"
  "inv s \<Longrightarrow> find_entry k (entries s) = None \<Longrightarrow> lookup_key k s = (absent, s)"
  by (simp_all add: lookup_key_eq)

text \<open>A connection that was added is found under its key; the others are where they were.\<close>

lemma lookup_added:
  assumes "inv s" and "addable e s"
  shows "\<exists>s'. add e s = (Inr (), s') \<and> lookup_key (fst e) s' = (Inr (snd (snd e)), s') \<and>
    lookup_id (fst (snd e)) s' = (Inr (snd (snd e)), s') \<and>
    (\<forall>k. k \<noteq> fst e \<longrightarrow> fst (lookup_key k s') = fst (lookup_key k s))"
proof -
  obtain s' where s': "add e s = (Inr (), s')" "inv s'" "entries s' = entries s @ [e]"
    "lookup_id (fst (snd e)) s' = (Inr (snd (snd e)), s')"
    using add_ok [OF assms] by blast
  have "find_entry (fst e) (entries s) = None"
    using addable_fresh [OF assms] by (simp add: find_entry_None)
  then show ?thesis
    using s' assms(1) by (auto simp: lookup_key_eq find_entry_append split: option.splits)
qed

text \<open>A removed key is gone and every other key is where it was.\<close>

lemma lookup_removed:
  assumes "inv s" and "removable k s"
  shows "\<exists>s'. remove k s = (Inr (), s') \<and> lookup_key k s' = (absent, s') \<and>
    (\<forall>k'. k' \<noteq> k \<longrightarrow> fst (lookup_key k' s') = fst (lookup_key k' s))"
proof -
  obtain s' where "remove k s = (Inr (), s')" "inv s'"
    "entries s' = filter (\<lambda>e. fst e \<noteq> k) (entries s)"
    using remove_ok [OF assms] by blast
  then show ?thesis
    using assms(1) by (auto simp: lookup_key_eq find_entry_filter)
qed

text \<open>Adding a connection and removing it again gives the same entries.\<close>

lemma add_remove:
  assumes "inv s" and "addable e s" and "add e s = (Inr (), s1)" and "removable (fst e) s1"
  shows "\<exists>s2. remove (fst e) s1 = (Inr (), s2) \<and> inv s2 \<and> entries s2 = entries s"
proof -
  have s1: "inv s1" "entries s1 = entries s @ [e]"
    using add_ok [OF assms(1,2)] assms(3) by auto
  have "filter (\<lambda>e'. fst e' \<noteq> fst e) (entries s) = entries s"
    using addable_fresh [OF assms(1,2)] by (intro filter_True) (metis imageI)
  then show ?thesis
    using remove_ok [OF s1(1) assms(4)] s1(2) by auto
qed

end

end
