(* ===== verification/Posix_Connections.thy ===== *)
theory Posix_Connections
  imports Posix_ServerConnection Connection_Store
begin

text \<open>
  \<open>posix/Connections\<close>: the container of the connections of a server, with its map from
  identifiers, the set of descriptors to select on (a reference to the set the server owns,
  here a field of the same state) and the largest descriptor.
\<close>

record conns_io = heap_io +
  mContainer :: "addr list"
  mMapping :: "bytes \<rightharpoonup> addr"
  mRead :: "int set"
  mFdMax :: int

lemma conns_update_order [simp]:
  "mContainer_update f (io_trace_update t s) = io_trace_update t (mContainer_update f s)"
  "mMapping_update g (io_trace_update t s) = io_trace_update t (mMapping_update g s)"
  "mRead_update h (io_trace_update t s) = io_trace_update t (mRead_update h s)"
  "mFdMax_update k (io_trace_update t s) = io_trace_update t (mFdMax_update k s)"
  "mContainer_update f (sc_heap_update u s) = sc_heap_update u (mContainer_update f s)"
  "mMapping_update g (sc_heap_update u s) = sc_heap_update u (mMapping_update g s)"
  "mRead_update h (sc_heap_update u s) = sc_heap_update u (mRead_update h s)"
  "mFdMax_update k (sc_heap_update u s) = sc_heap_update u (mFdMax_update k s)"
  "mContainer_update f (sc_next_update v s) = sc_next_update v (mContainer_update f s)"
  "mMapping_update g (sc_next_update v s) = sc_next_update v (mMapping_update g s)"
  "mRead_update h (sc_next_update v s) = sc_next_update v (mRead_update h s)"
  "mFdMax_update k (sc_next_update v s) = sc_next_update v (mFdMax_update k s)"
  "mContainer_update f (mMapping_update g s) = mMapping_update g (mContainer_update f s)"
  "mContainer_update f (mRead_update h s) = mRead_update h (mContainer_update f s)"
  "mContainer_update f (mFdMax_update k s) = mFdMax_update k (mContainer_update f s)"
  "mMapping_update g (mRead_update h s) = mRead_update h (mMapping_update g s)"
  "mMapping_update g (mFdMax_update k s) = mFdMax_update k (mMapping_update g s)"
  "mRead_update h (mFdMax_update k s) = mFdMax_update k (mRead_update h s)"
  by simp_all

section \<open>Operations\<close>

definition Connections_new :: "int set \<Rightarrow> ('a conns_io_scheme, unit) act" where
  "Connections_new rd =
     modify (\<lambda>s. s\<lparr>mContainer := [], mMapping := Map.empty, mRead := rd, mFdMax := -1\<rparr>)"

definition Connections_addServerConnection :: "posix \<Rightarrow> addr \<Rightarrow> ('a conns_io_scheme, unit) act" where
  "Connections_addServerConnection K client =
     seqE (modify (\<lambda>s. s\<lparr>mContainer := mContainer s @ [client]\<rparr>))
    (bindE (ServerConnection_getIdentifier client) (\<lambda>ident.
     seqE (modify (\<lambda>s. s\<lparr>mMapping := (mMapping s)(ident \<mapsto> client)\<rparr>))
    (bindE (ServerConnection_getSocket client) (\<lambda>sckt.
     seqE (modify (\<lambda>s. s\<lparr>mFdMax := max (mFdMax s) sckt\<rparr>))
    (seqE (check_fd K sckt)
       (modify (\<lambda>s. s\<lparr>mRead := insert sckt (mRead s)\<rparr>)))))))"

text \<open>
  \<open>ServerConnectionFinder\<close>: the predicate reads the connection behind the pointer.
  \<open>std::find_if\<close> applies it up to the first match, \<open>std::remove_if\<close> to every element.
\<close>

definition ServerConnectionFinder :: "int \<Rightarrow> server_connection \<Rightarrow> bool" where
  "ServerConnectionFinder sckt c \<longleftrightarrow> sckt = sc_mSocket c"

fun find_if_conn :: "(addr \<rightharpoonup> server_connection) \<Rightarrow> int \<Rightarrow> addr list \<Rightarrow> fault + addr option" where
  "find_if_conn h sckt [] = Inr None"
| "find_if_conn h sckt (p # ps) =
     (case h p of
        None \<Rightarrow> Inl (Undefined_behaviour ''use of a dead ServerConnection'')
      | Some c \<Rightarrow> if ServerConnectionFinder sckt c then Inr (Some p) else find_if_conn h sckt ps)"

definition Connections_getServerConnection_fd :: "int \<Rightarrow> ('a conns_io_scheme, addr) act" where
  "Connections_getServerConnection_fd sckt s =
     (case find_if_conn (sc_heap s) sckt (mContainer s) of
        Inl e \<Rightarrow> (Inl e, s)
      | Inr None \<Rightarrow> (Inr null, s)
      | Inr (Some p) \<Rightarrow> (Inr p, s))"

definition Connections_getServerConnection_id :: "bytes \<Rightarrow> ('a conns_io_scheme, addr) act" where
  "Connections_getServerConnection_id ident =
     bindE (gets mMapping) (\<lambda>m.
       case m ident of
         None \<Rightarrow> throw (Runtime_error ''Connection not found'')
       | Some p \<Rightarrow> ret p)"

definition remove_if_conn :: "int \<Rightarrow> ('a conns_io_scheme, nat) act" where
  "remove_if_conn sckt =
     bindE (gets mContainer) (\<lambda>xs.
     seqE (for_each (\<lambda>p. seqE (deref p) skip) xs)
    (bindE (gets sc_heap) (\<lambda>h.
       case std_remove_if (\<lambda>p. ServerConnectionFinder sckt (the (h p))) xs of (buf, iter) \<Rightarrow>
         seqE (modify (\<lambda>s. s\<lparr>mContainer := buf\<rparr>)) (ret iter))))"

definition recompute_max :: "('a conns_io_scheme, unit) act" where
  "recompute_max =
     seqE (modify (\<lambda>s. s\<lparr>mFdMax := -1\<rparr>))
    (bindE (gets mContainer) (\<lambda>xs.
       for_each (\<lambda>p. bindE (ServerConnection_getSocket p) (\<lambda>sckt.
         modify (\<lambda>s. s\<lparr>mFdMax := max (mFdMax s) sckt\<rparr>))) xs))"

definition Connections_removeServerConnection :: "posix \<Rightarrow> int \<Rightarrow> ('a conns_io_scheme, unit) act" where
  "Connections_removeServerConnection K sckt =
     seqE (check_fd K sckt)
    (seqE (modify (\<lambda>s. s\<lparr>mRead := mRead s - {sckt}\<rparr>))
    (bindE (remove_if_conn sckt) (\<lambda>iter.
     bindE (gets mContainer) (\<lambda>buf.
       if iter \<noteq> length buf
       then
         bindE (ServerConnection_getIdentifier (buf ! iter)) (\<lambda>ident.
         seqE (modify (\<lambda>s. s\<lparr>mMapping := (mMapping s)(ident := None)\<rparr>))
        (seqE (delete_ServerConnection K (buf ! iter))
        (seqE (modify (\<lambda>s. s\<lparr>mContainer := take iter buf @ drop (Suc iter) buf\<rparr>))
           recompute_max)))
       else skip))))"

definition Connections_clear :: "posix \<Rightarrow> ('a conns_io_scheme, unit) act" where
  "Connections_clear K =
     bindE (gets mContainer) (\<lambda>xs.
     seqE (for_each (delete_ServerConnection K) xs)
       (modify (\<lambda>s. s\<lparr>mContainer := []\<rparr>)))"

definition Connections_destructor :: "posix \<Rightarrow> ('a conns_io_scheme, unit) act" where
  "Connections_destructor K = Connections_clear K"

definition Connections_getConnections :: "('a conns_io_scheme, addr list) act" where
  "Connections_getConnections = gets mContainer"

definition Connections_getMax :: "('a conns_io_scheme, int) act" where
  "Connections_getMax = gets mFdMax"

definition Connections_size :: "('a conns_io_scheme, nat) act" where
  "Connections_size = gets (\<lambda>s. length (mContainer s))"

section \<open>The invariant\<close>

definition sock_of :: "('a heap_io_scheme) \<Rightarrow> addr \<Rightarrow> int" where
  "sock_of s p = sc_mSocket (the (sc_heap s p))"

definition ident_of :: "('a heap_io_scheme) \<Rightarrow> addr \<Rightarrow> bytes" where
  "ident_of s p = mIdentifier (the (sc_heap s p))"

definition conn_entries :: "'a conns_io_scheme \<Rightarrow> int entry list" where
  "conn_entries s = map (\<lambda>p. (sock_of s p, ident_of s p, p)) (mContainer s)"

definition max_sock :: "('a heap_io_scheme) \<Rightarrow> addr list \<Rightarrow> int" where
  "max_sock s xs = fold (\<lambda>p m. max m (sock_of s p)) xs (-1)"

lemma sock_of_updates [simp]:
  "sock_of (s\<lparr>io_trace := t\<rparr>) = sock_of s"
  "sock_of (r\<lparr>mContainer := xs\<rparr>) = sock_of r"
  "sock_of (r\<lparr>mMapping := m\<rparr>) = sock_of r"
  "sock_of (r\<lparr>mRead := S\<rparr>) = sock_of r"
  "sock_of (r\<lparr>mFdMax := n\<rparr>) = sock_of r"
  by (simp_all add: sock_of_def fun_eq_iff)

lemma ident_of_updates [simp]:
  "ident_of (s\<lparr>io_trace := t\<rparr>) = ident_of s"
  "ident_of (r\<lparr>mContainer := xs\<rparr>) = ident_of r"
  "ident_of (r\<lparr>mMapping := m\<rparr>) = ident_of r"
  "ident_of (r\<lparr>mRead := S\<rparr>) = ident_of r"
  "ident_of (r\<lparr>mFdMax := n\<rparr>) = ident_of r"
  by (simp_all add: ident_of_def fun_eq_iff)

lemma max_sock_updates [simp]:
  "max_sock (s\<lparr>io_trace := t\<rparr>) = max_sock s"
  "max_sock (r\<lparr>mContainer := xs\<rparr>) = max_sock r"
  "max_sock (r\<lparr>mMapping := m\<rparr>) = max_sock r"
  "max_sock (r\<lparr>mRead := S\<rparr>) = max_sock r"
  "max_sock (r\<lparr>mFdMax := n\<rparr>) = max_sock r"
  by (simp_all add: max_sock_def fun_eq_iff)

lemma sock_of_dealloc [simp]:
  "p \<noteq> q \<Longrightarrow> sock_of (s\<lparr>sc_heap := (sc_heap s)(q := None)\<rparr>) p = sock_of s p"
  "p \<noteq> q \<Longrightarrow> ident_of (s\<lparr>sc_heap := (sc_heap s)(q := None)\<rparr>) p = ident_of s p"
  by (simp_all add: sock_of_def ident_of_def)

text \<open>
  Every pointer in the container is live, the descriptors differ, are in range of the
  descriptor sets and are selected on; the map only leads to connections in the container,
  under their identifier; \<open>mFdMax\<close> is the largest descriptor.
\<close>

definition conns_live :: "'a conns_io_scheme \<Rightarrow> bool" where
  "conns_live s \<longleftrightarrow> (\<forall>p \<in> set (mContainer s). p \<noteq> null \<and> sc_heap s p \<noteq> None)"

definition conns_inv :: "posix \<Rightarrow> 'a conns_io_scheme \<Rightarrow> bool" where
  "conns_inv K s \<longleftrightarrow>
     conns_live s \<and> distinct (mContainer s) \<and> distinct (map (sock_of s) (mContainer s)) \<and>
     (\<forall>p \<in> set (mContainer s). fd_in_range K (sock_of s p) \<and> sock_of s p \<in> mRead s) \<and>
     (\<forall>i p. mMapping s i = Some p \<longrightarrow> p \<in> set (mContainer s) \<and> ident_of s p = i) \<and>
     mFdMax s = max_sock s (mContainer s)"

text \<open>Which connections may be added, and for which descriptors removal works.\<close>

definition conn_addable :: "posix \<Rightarrow> int entry \<Rightarrow> 'a conns_io_scheme \<Rightarrow> bool" where
  "conn_addable K e s \<longleftrightarrow>
     (case e of (k, i, p) \<Rightarrow>
        p \<noteq> null \<and> p \<notin> set (mContainer s) \<and> k \<notin> sock_of s ` set (mContainer s) \<and>
        fd_in_range K k \<and>
        (\<exists>c. sc_heap s p = Some c \<and> sc_mSocket c = k \<and> mIdentifier c = i))"

definition conn_removable :: "posix \<Rightarrow> int \<Rightarrow> 'a conns_io_scheme \<Rightarrow> bool" where
  "conn_removable K sckt s \<longleftrightarrow> fd_in_range K sckt \<and>
     (sckt \<in> sock_of s ` set (mContainer s) \<longrightarrow> sock_of s (last (mContainer s)) = sckt)"

section \<open>How the operations run\<close>

lemma getSocket_run [act_simps]:
  "sc_heap s p = Some c \<Longrightarrow> ServerConnection_getSocket p s = (Inr (sc_mSocket c), s)"
  by (simp add: ServerConnection_getSocket_def bindE_def deref_def ret_def)

lemma getIdentifier_run [act_simps]:
  "sc_heap s p = Some c \<Longrightarrow> ServerConnection_getIdentifier p s = (Inr (mIdentifier c), s)"
  by (simp add: ServerConnection_getIdentifier_def bindE_def deref_def ret_def)

lemma addServerConnection_run:
  assumes "sc_heap s p = Some c" and "fd_in_range K (sc_mSocket c)"
  shows "Connections_addServerConnection K p s =
    (Inr (), s\<lparr>mContainer := mContainer s @ [p], mMapping := (mMapping s)(mIdentifier c \<mapsto> p),
       mFdMax := max (mFdMax s) (sc_mSocket c), mRead := insert (sc_mSocket c) (mRead s)\<rparr>)"
  using assms
  by (simp add: Connections_addServerConnection_def seqE_def bindE_def modify_run act_simps)

lemma find_if_conn_eq:
  assumes "\<forall>p \<in> set xs. sc_heap s p \<noteq> None"
  shows "find_if_conn (sc_heap s) k xs =
    Inr (find_entry k (map (\<lambda>p. (sock_of s p, ident_of s p, p)) xs))"
  using assms
  by (induction xs) (auto simp: ServerConnectionFinder_def sock_of_def)

lemma getServerConnection_fd_eq:
  assumes "conns_live s"
  shows "Connections_getServerConnection_fd k s =
    (case find_entry k (conn_entries s) of None \<Rightarrow> Inr null | Some p \<Rightarrow> Inr p, s)"
  using assms
  by (simp add: Connections_getServerConnection_fd_def conns_live_def find_if_conn_eq
      conn_entries_def split: option.splits)

lemma finder_all_run:
  "\<forall>p \<in> set xs. sc_heap s p \<noteq> None \<Longrightarrow> for_each (\<lambda>p. seqE (deref p) skip) xs s = (Inr (), s)"
  by (induction xs) (auto simp: seqE_def bindE_def act_simps deref_def)

lemma remove_if_conn_run:
  assumes "conns_live s"
  shows "remove_if_conn k s =
    (let kept = filter (\<lambda>p. sock_of s p \<noteq> k) (mContainer s)
     in (Inr (length kept), s\<lparr>mContainer := kept @ drop (length kept) (mContainer s)\<rparr>))"
proof -
  have "(\<lambda>p. \<not> ServerConnectionFinder k (the (sc_heap s p))) = (\<lambda>p. sock_of s p \<noteq> k)"
    by (auto simp: ServerConnectionFinder_def sock_of_def)
  then show ?thesis
    using assms
    by (simp add: remove_if_conn_def bindE_def gets_def seqE_run(1) [OF finder_all_run]
        conns_live_def std_remove_if_eq Let_def act_simps)
qed

lemma max_step_run:
  "\<forall>p \<in> set xs. sc_heap s p \<noteq> None \<Longrightarrow>
   for_each (\<lambda>p. bindE (ServerConnection_getSocket p) (\<lambda>sckt.
       modify (\<lambda>s. s\<lparr>mFdMax := max (mFdMax s) sckt\<rparr>))) xs s =
     (Inr (), s\<lparr>mFdMax := fold (\<lambda>p m. max m (sock_of s p)) xs (mFdMax s)\<rparr>)"
proof (induction xs arbitrary: s)
  case Nil
  then show ?case by (simp add: act_simps)
next
  case (Cons p xs)
  then obtain c where c: "sc_heap s p = Some c" by auto
  let ?s1 = "s\<lparr>mFdMax := max (mFdMax s) (sc_mSocket c)\<rparr>"
  have "sock_of ?s1 = sock_of s" by (simp add: sock_of_def fun_eq_iff)
  moreover have "sock_of s p = sc_mSocket c" by (simp add: sock_of_def c)
  ultimately show ?case
    using Cons.IH [of ?s1] Cons.prems c
    by (simp add: seqE_def bindE_def act_simps)
qed

lemma max_step_dead:
  "p \<in> set xs \<Longrightarrow> sc_heap s p = None \<Longrightarrow>
   \<exists>m. for_each (\<lambda>p. bindE (ServerConnection_getSocket p) (\<lambda>sckt.
       modify (\<lambda>s. s\<lparr>mFdMax := max (mFdMax s) sckt\<rparr>))) xs s =
     (Inl (Undefined_behaviour ''use of a dead ServerConnection''), s\<lparr>mFdMax := m\<rparr>)"
proof (induction xs arbitrary: s)
  case Nil
  then show ?case by simp
next
  case (Cons q xs)
  show ?case
  proof (cases "sc_heap s q")
    case None
    then show ?thesis
      by (intro exI [of _ "mFdMax s"])
        (simp add: seqE_def bindE_def ServerConnection_getSocket_def act_simps)
  next
    case (Some c)
    then have "p \<in> set xs" using Cons.prems by auto
    from Cons.IH [OF this, of "s\<lparr>mFdMax := max (mFdMax s) (sc_mSocket c)\<rparr>"] Some Cons.prems
    show ?thesis by (simp add: seqE_def bindE_def act_simps)
  qed
qed

lemma max_sock_append: "max_sock s (xs @ [p]) = max (max_sock s xs) (sock_of s p)"
  by (simp add: max_sock_def)

lemma max_sock_cong: "(\<And>p. p \<in> set xs \<Longrightarrow> sock_of s p = sock_of t p) \<Longrightarrow> max_sock s xs = max_sock t xs"
  unfolding max_sock_def by (rule fold_cong) auto

lemma fold_max_ge:
  "m \<le> fold (\<lambda>p m. max m (sock_of s p)) xs m \<and>
   (\<forall>p \<in> set xs. sock_of s p \<le> fold (\<lambda>p m. max m (sock_of s p)) xs m)"
proof (induction xs arbitrary: m)
  case (Cons p xs)
  have "max m (sock_of s p) \<le> fold (\<lambda>p m. max m (sock_of s p)) xs (max m (sock_of s p))"
    using Cons.IH by blast
  then show ?case using Cons.IH [of "max m (sock_of s p)"] by auto
qed simp

lemma max_sock_ge: "p \<in> set xs \<Longrightarrow> sock_of s p \<le> max_sock s xs"
  using fold_max_ge [where m = "-1"] by (auto simp: max_sock_def)

text \<open>
  What removal does when the descriptor is in the container: the element it deletes and
  whose identifier it erases is the last one of the container, wherever the match is.
\<close>

lemma kept_of_match:
  assumes "conns_inv K s" and "q \<in> set (mContainer s)"
  shows "filter (\<lambda>p. sock_of s p \<noteq> sock_of s q) (mContainer s) = remove1 q (mContainer s)"
proof -
  have "inj_on (sock_of s) (set (mContainer s))"
    using assms(1) by (simp add: conns_inv_def distinct_map)
  then have "filter (\<lambda>p. sock_of s p \<noteq> sock_of s q) (mContainer s) = filter (\<lambda>p. p \<noteq> q) (mContainer s)"
    using assms(2) by (intro filter_cong) (auto simp: inj_on_def)
  also have "\<dots> = remove1 q (mContainer s)"
    using assms(1) by (simp add: conns_inv_def distinct_remove1_removeAll removeAll_filter_not_eq)
      (metis (lifting))
  finally show ?thesis .
qed

lemma remove_match_run:
  assumes inv: "conns_inv K s" and q: "q \<in> set (mContainer s)" and k: "sock_of s q = k"
    and range: "fd_in_range K k" and c: "sc_heap s (last (mContainer s)) = Some c"
  shows "Connections_removeServerConnection K k s =
    recompute_max (s\<lparr>mContainer := remove1 q (mContainer s),
      mMapping := (mMapping s)(mIdentifier c := None), mRead := mRead s - {k},
      sc_heap := (sc_heap s)(last (mContainer s) := None),
      io_trace := io_trace s @ close_events K (io_trace s) (sc_mSocket c)\<rparr>)"
proof -
  let ?xs = "mContainer s" and ?kept = "remove1 q (mContainer s)"
  let ?l = "last (mContainer s)"
  have live: "conns_live (s\<lparr>mRead := mRead s - {k}\<rparr>)"
    using inv by (simp add: conns_inv_def conns_live_def)
  have so: "sock_of (s\<lparr>mRead := mRead s - {k}\<rparr>) = sock_of s"
    by (simp add: sock_of_def fun_eq_iff)
  have kept: "filter (\<lambda>p. sock_of s p \<noteq> k) ?xs = ?kept"
    using kept_of_match [OF inv q] k by simp
  have ne: "?xs \<noteq> []" using q by auto
  have len: "length ?kept = length ?xs - 1" using q by (simp add: length_remove1)
  have drop: "drop (length ?kept) ?xs = [?l]"
  proof -
    have "drop (length ?kept) (butlast ?xs @ [?l]) = [?l]" by (simp add: len)
    then show ?thesis using ne by simp
  qed
  show ?thesis
    using range c
    by (simp add: Connections_removeServerConnection_def seqE_def bindE_def modify_def gets_def
        check_fd_run remove_if_conn_run [OF live] so kept drop Let_def act_simps nth_append
        sc_dealloc_def)
qed

lemma remove_absent_run:
  assumes inv: "conns_inv K s" and k: "k \<notin> sock_of s ` set (mContainer s)"
    and range: "fd_in_range K k"
  shows "Connections_removeServerConnection K k s = (Inr (), s\<lparr>mRead := mRead s - {k}\<rparr>)"
proof -
  have live: "conns_live (s\<lparr>mRead := mRead s - {k}\<rparr>)"
    using inv by (simp add: conns_inv_def conns_live_def)
  have so: "sock_of (s\<lparr>mRead := mRead s - {k}\<rparr>) = sock_of s"
    by (simp add: sock_of_def fun_eq_iff)
  have kept: "filter (\<lambda>p. sock_of s p \<noteq> k) (mContainer s) = mContainer s"
    using k by (intro filter_True) auto
  show ?thesis
    using range
    by (simp add: Connections_removeServerConnection_def seqE_def bindE_def modify_def gets_def
        check_fd_run remove_if_conn_run [OF live] so kept Let_def act_simps)
qed


lemma recompute_max_run:
  assumes "conns_live s"
  shows "recompute_max s = (Inr (), s\<lparr>mFdMax := max_sock s (mContainer s)\<rparr>)"
proof -
  have live: "\<forall>p \<in> set (mContainer s). sc_heap (s\<lparr>mFdMax := -1\<rparr>) p \<noteq> None"
    using assms by (simp add: conns_live_def)
  have "sock_of (s\<lparr>mFdMax := -1\<rparr>) = sock_of s" by (simp add: sock_of_def fun_eq_iff)
  then show ?thesis
    using max_step_run [OF live]
    by (simp add: recompute_max_def seqE_def bindE_def modify_def gets_def max_sock_def)
qed

lemma recompute_max_dead:
  assumes "p \<in> set (mContainer s)" and "sc_heap s p = None"
  shows "\<exists>m. recompute_max s =
    (Inl (Undefined_behaviour ''use of a dead ServerConnection''), s\<lparr>mFdMax := m\<rparr>)"
  using max_step_dead [OF assms(1), of "s\<lparr>mFdMax := -1\<rparr>"] assms(2)
  by (auto simp: recompute_max_def seqE_def bindE_def modify_def gets_def)

lemma getServerConnection_id_eq:
  "Connections_getServerConnection_id i s =
    (case mMapping s i of None \<Rightarrow> Inl (Runtime_error ''Connection not found'') | Some p \<Rightarrow> Inr p, s)"
  by (simp add: Connections_getServerConnection_id_def bindE_def act_simps split: option.splits)

lemma find_entry_sock:
  assumes "conns_inv K s" and "p \<in> set (mContainer s)"
  shows "find_entry (sock_of s p) (conn_entries s) = Some p"
proof -
  have "inj_on (sock_of s) (set (mContainer s))"
    using assms(1) by (simp add: conns_inv_def distinct_map)
  then have "find_entry (sock_of s p) (map (\<lambda>p. (sock_of s p, ident_of s p, p)) xs) = Some p"
    if "p \<in> set xs" "set xs \<subseteq> set (mContainer s)" for xs
    using that by (induction xs) (auto simp: inj_on_def)
  then show ?thesis using assms(2) by (simp add: conn_entries_def)
qed

lemma getServerConnection_fd_run:
  "conns_inv K s \<Longrightarrow> p \<in> set (mContainer s) \<Longrightarrow>
     Connections_getServerConnection_fd (sock_of s p) s = (Inr p, s)"
  "conns_inv K s \<Longrightarrow> k \<notin> sock_of s ` set (mContainer s) \<Longrightarrow>
     Connections_getServerConnection_fd k s = (Inr null, s)"
proof -
  show "conns_inv K s \<Longrightarrow> p \<in> set (mContainer s) \<Longrightarrow>
      Connections_getServerConnection_fd (sock_of s p) s = (Inr p, s)"
    using find_entry_sock [of K s p] by (simp add: getServerConnection_fd_eq conns_inv_def)
  assume "conns_inv K s" and k: "k \<notin> sock_of s ` set (mContainer s)"
  moreover have "find_entry k (conn_entries s) = None"
    using k by (auto simp: find_entry_None conn_entries_def)
  ultimately show "Connections_getServerConnection_fd k s = (Inr null, s)"
    by (simp add: getServerConnection_fd_eq conns_inv_def)
qed

text \<open>What the accessors see does not depend on the container's own fields.\<close>

lemma sock_of_cong: "sc_heap s p = sc_heap t p \<Longrightarrow> sock_of s p = sock_of t p"
  by (simp add: sock_of_def)

lemma ident_of_cong: "sc_heap s p = sc_heap t p \<Longrightarrow> ident_of s p = ident_of t p"
  by (simp add: ident_of_def)

lemma conns_inv_liveD: "conns_inv K s \<Longrightarrow> p \<in> set (mContainer s) \<Longrightarrow> \<exists>c. sc_heap s p = Some c"
  by (auto simp: conns_inv_def conns_live_def)

lemma conns_inv_mappedD:
  assumes "conns_inv K s" and "mMapping s i = Some p"
  shows "p \<in> set (mContainer s) \<and> p \<noteq> null \<and> fd_in_range K (sock_of s p) \<and> (\<exists>c. sc_heap s p = Some c)"
  using assms by (auto simp: conns_inv_def conns_live_def)

lemma conns_inv_cong:
  assumes "conns_inv K s"
    and same: "mContainer t = mContainer s" "mMapping t = mMapping s" "mRead t = mRead s"
      "mFdMax t = mFdMax s"
    and heap: "\<And>p. p \<in> set (mContainer s) \<Longrightarrow>
      sc_heap t p \<noteq> None \<and> sock_of t p = sock_of s p \<and> ident_of t p = ident_of s p"
  shows "conns_inv K t"
proof -
  have socks: "map (sock_of t) (mContainer s) = map (sock_of s) (mContainer s)" using heap by simp
  have "max_sock t (mContainer s) = max_sock s (mContainer s)"
    by (rule max_sock_cong) (simp add: heap)
  then show ?thesis
    using assms(1) heap unfolding conns_inv_def conns_live_def same socks by auto
qed

lemma conns_inv_add:
  assumes inv: "conns_inv K s" and add: "conn_addable K (k, i, p) s"
  shows "\<exists>s'. Connections_addServerConnection K p s = (Inr (), s') \<and> conns_inv K s' \<and>
    conn_entries s' = conn_entries s @ [(k, i, p)] \<and> mMapping s' i = Some p \<and>
    sc_heap s' = sc_heap s"
proof -
  obtain c where c: "sc_heap s p = Some c" "sc_mSocket c = k" "mIdentifier c = i"
    and p: "p \<noteq> null" "p \<notin> set (mContainer s)" "k \<notin> sock_of s ` set (mContainer s)"
    and range: "fd_in_range K k"
    using add by (auto simp: conn_addable_def)
  let ?s' = "s\<lparr>mContainer := mContainer s @ [p], mMapping := (mMapping s)(i \<mapsto> p),
       mFdMax := max (mFdMax s) k, mRead := insert k (mRead s)\<rparr>"
  have sp: "sock_of s p = k" "ident_of s p = i"
    using c by (simp_all add: sock_of_def ident_of_def)
  have "conns_inv K ?s'"
    using inv p range c by (auto simp: conns_inv_def conns_live_def sp max_sock_append)
  moreover have "conn_entries ?s' = conn_entries s @ [(k, i, p)]"
    by (simp add: conn_entries_def sp)
  ultimately show ?thesis
    using addServerConnection_run [OF c(1)] range c by simp
qed

text \<open>Removing the connection that was added last works, and so does removing nothing.\<close>

lemma conns_inv_remove_last:
  assumes inv: "conns_inv K s" and ne: "mContainer s \<noteq> []"
    and k: "sock_of s (last (mContainer s)) = k"
  shows "\<exists>s'. Connections_removeServerConnection K k s = (Inr (), s') \<and> conns_inv K s' \<and>
    conn_entries s' = filter (\<lambda>e. fst e \<noteq> k) (conn_entries s) \<and>
    (\<exists>m n. s' = s\<lparr>mContainer := butlast (mContainer s), mMapping := m, mRead := mRead s - {k},
       mFdMax := n, sc_heap := (sc_heap s)(last (mContainer s) := None),
       io_trace := io_trace s @ close_events K (io_trace s) k\<rparr>)"
proof -
  define l where "l = last (mContainer s)"
  define xs where "xs = butlast (mContainer s)"
  have split: "mContainer s = xs @ [l]" using ne by (simp add: l_def xs_def)
  then have lin: "l \<in> set (mContainer s)" by simp
  have kl: "sock_of s l = k" using k by (simp add: l_def)
  obtain c where c: "sc_heap s l = Some c" using conns_inv_liveD [OF inv lin] by blast
  have k': "sc_mSocket c = k" using kl c by (simp add: sock_of_def)
  have idl: "ident_of s l = mIdentifier c" using c by (simp add: ident_of_def)
  have dist: "l \<notin> set xs" "distinct xs" using inv split by (auto simp: conns_inv_def)
  have rem: "remove1 l (mContainer s) = xs"
    using dist by (simp add: split remove1_append)
  have range: "fd_in_range K k" using inv lin kl by (auto simp: conns_inv_def)
  let ?t = "s\<lparr>mContainer := xs, mMapping := (mMapping s)(mIdentifier c := None),
     mRead := mRead s - {k}, sc_heap := (sc_heap s)(l := None),
     io_trace := io_trace s @ close_events K (io_trace s) (sc_mSocket c)\<rparr>"
  have live: "conns_live ?t"
    using inv dist by (auto simp: conns_inv_def conns_live_def split)
  define u where "u = ?t\<lparr>mFdMax := max_sock ?t xs\<rparr>"
  have run: "Connections_removeServerConnection K k s = (Inr (), u)"
    using remove_match_run [OF inv lin _ range] c k recompute_max_run [OF live]
    by (simp add: rem l_def [symmetric] u_def)
  have u: "mContainer u = xs" "mMapping u = (mMapping s)(mIdentifier c := None)"
    "mRead u = mRead s - {k}" "sc_heap u = (sc_heap s)(l := None)" 
    "io_trace u = io_trace s @ close_events K (io_trace s) (sc_mSocket c)"
    by (simp_all add: u_def)
  have umax: "mFdMax u = max_sock u xs"
    unfolding u_def by (simp, intro max_sock_cong sock_of_cong) simp
  have so: "sock_of u p = sock_of s p" "ident_of u p = ident_of s p" if "p \<in> set xs" for p
    using that dist(1) by (auto simp: u(4) intro: sock_of_cong ident_of_cong)
  have socks: "map (sock_of u) xs = map (sock_of s) xs" using so by simp
  have kfresh: "k \<notin> sock_of s ` set xs"
    using inv kl by (auto simp: conns_inv_def split)
  have mapped: "p \<in> set xs \<and> ident_of u p = i" if "mMapping u i = Some p" for i p
  proof -
    have ip: "i \<noteq> mIdentifier c" "mMapping s i = Some p"
      using that by (auto simp: u split: if_splits)
    then have "p \<in> set (xs @ [l])" "ident_of s p = i" using inv by (auto simp: conns_inv_def split)
    then show ?thesis using ip idl so by auto
  qed
  have inv': "conns_inv K u"
    unfolding conns_inv_def
  proof (intro conjI)
    show "conns_live u" using live by (simp add: conns_live_def u)
    show "distinct (mContainer u)" using dist by (simp add: u)
    show "distinct (map (sock_of u) (mContainer u))"
      using inv by (simp add: conns_inv_def split socks u)
    show "\<forall>p \<in> set (mContainer u). fd_in_range K (sock_of u p) \<and> sock_of u p \<in> mRead u"
      using inv so kfresh by (auto simp: conns_inv_def split u)
    show "\<forall>i p. mMapping u i = Some p \<longrightarrow> p \<in> set (mContainer u) \<and> ident_of u p = i"
      using mapped by (auto simp: u(1))
    show "mFdMax u = max_sock u (mContainer u)" by (simp add: u umax)
  qed
  have "conn_entries u = map (\<lambda>p. (sock_of s p, ident_of s p, p)) xs"
    using so by (simp add: conn_entries_def u)
  also have "\<dots> = filter (\<lambda>e. fst e \<noteq> k) (conn_entries s)"
    using kfresh kl by (auto simp: conn_entries_def split intro!: sym [OF filter_True])
  finally have "conn_entries u = filter (\<lambda>e. fst e \<noteq> k) (conn_entries s)" .
  moreover have "u = s\<lparr>mContainer := butlast (mContainer s),
       mMapping := (mMapping s)(mIdentifier c := None), mRead := mRead s - {k},
       mFdMax := max_sock ?t xs, sc_heap := (sc_heap s)(last (mContainer s) := None),
       io_trace := io_trace s @ close_events K (io_trace s) k\<rparr>"
    by (simp add: u_def k' l_def [symmetric] xs_def [symmetric])
  ultimately show ?thesis
    using run inv' by blast
qed

text \<open>Removing any other connection deletes the last one, and then walks over it.\<close>

lemma remove_other_run:
  assumes inv: "conns_inv K s" and q: "q \<in> set (mContainer s)" and k: "sock_of s q = k"
    and other: "q \<noteq> last (mContainer s)"
  shows "\<exists>s'. Connections_removeServerConnection K k s =
      (Inl (Undefined_behaviour ''use of a dead ServerConnection''), s') \<and>
    mContainer s' = remove1 q (mContainer s) \<and>
    sc_heap s' = (sc_heap s)(last (mContainer s) := None) \<and>
    mMapping s' = (mMapping s)(ident_of s (last (mContainer s)) := None) \<and>
    io_trace s' = io_trace s @ close_events K (io_trace s) (sock_of s (last (mContainer s)))"
proof -
  have lin: "last (mContainer s) \<in> set (mContainer s)" using q by (cases "mContainer s") auto
  obtain c where c: "sc_heap s (last (mContainer s)) = Some c"
    using conns_inv_liveD [OF inv lin] by blast
  have range: "fd_in_range K k" using inv q k by (auto simp: conns_inv_def)
  have dead: "last (mContainer s) \<in> set (remove1 q (mContainer s))"
    using lin other by (simp add: in_set_remove1)
  have "sock_of s (last (mContainer s)) = sc_mSocket c" "ident_of s (last (mContainer s)) = mIdentifier c"
    using c by (simp_all add: sock_of_def ident_of_def)
  then show ?thesis
    using remove_match_run [OF inv q k range c] dead
      recompute_max_dead [of "last (mContainer s)" "s\<lparr>mContainer := remove1 q (mContainer s),
        mMapping := (mMapping s)(mIdentifier c := None), mRead := mRead s - {k},
        sc_heap := (sc_heap s)(last (mContainer s) := None),
        io_trace := io_trace s @ close_events K (io_trace s) (sc_mSocket c)\<rparr>"]
    by auto
qed

lemma conns_inv_remove_absent:
  assumes inv: "conns_inv K s" and k: "k \<notin> sock_of s ` set (mContainer s)"
    and range: "fd_in_range K k"
  shows "\<exists>s'. Connections_removeServerConnection K k s = (Inr (), s') \<and> conns_inv K s' \<and>
    conn_entries s' = filter (\<lambda>e. fst e \<noteq> k) (conn_entries s)"
proof -
  have "conns_inv K (s\<lparr>mRead := mRead s - {k}\<rparr>)"
    using inv k by (auto simp: conns_inv_def conns_live_def)
  moreover have "conn_entries s = filter (\<lambda>e. fst e \<noteq> k) (conn_entries s)"
    using k by (auto simp: conn_entries_def intro!: sym [OF filter_True])
  ultimately show ?thesis
    using remove_absent_run [OF assms] by (simp add: conn_entries_def)
qed

text \<open>Deleting a list of different live connections closes the socket of each.\<close>

lemma delete_all_run:
  assumes "distinct xs" and "\<forall>p \<in> set xs. sc_heap s p \<noteq> None"
  shows "\<exists>tr. for_each (delete_ServerConnection K) xs s =
     (Inr (), s\<lparr>sc_heap := sc_heap s |` (- set xs), io_trace := io_trace s @ tr\<rparr>) \<and>
     open_fds (io_trace s @ tr) = open_fds (io_trace s) - sock_of s ` set xs \<and>
     closes tr = map (sock_of s) xs"
  using assms
proof (induction xs arbitrary: s)
  case Nil
  then show ?case by (intro exI [of _ "[]"]) (simp add: act_simps restrict_map_def)
next
  case (Cons p xs)
  then obtain c where c: "sc_heap s p = Some c" by auto
  let ?t = "sc_dealloc p (s\<lparr>io_trace := io_trace s @ close_events K (io_trace s) (sc_mSocket c)\<rparr>)"
  have "distinct xs" "\<forall>q \<in> set xs. sc_heap ?t q \<noteq> None"
    using Cons.prems by (auto simp: sc_dealloc_def)
  from Cons.IH [OF this] obtain tr where tr:
    "for_each (delete_ServerConnection K) xs ?t =
      (Inr (), ?t\<lparr>sc_heap := sc_heap ?t |` (- set xs), io_trace := io_trace ?t @ tr\<rparr>)"
    "open_fds (io_trace ?t @ tr) = open_fds (io_trace ?t) - sock_of ?t ` set xs"
    "closes tr = map (sock_of ?t) xs" by blast
  have so: "sock_of ?t ` set xs = sock_of s ` set xs" "sock_of s p = sc_mSocket c"
    "map (sock_of ?t) xs = map (sock_of s) xs"
    using Cons.prems c by (auto simp: sc_dealloc_def sock_of_def image_iff)
  have "(sc_heap s)(p := None) |` (- set xs) = sc_heap s |` (- set (p # xs))"
    by (auto simp: restrict_map_def fun_eq_iff)
  then show ?case
    using tr c so
    by (intro exI [of _ "close_events K (io_trace s) (sc_mSocket c) @ tr"])
      (auto simp: seqE_def bindE_def act_simps sc_dealloc_def open_fds_append close_events_def)
qed

section \<open>The container as a connection store\<close>

interpretation posix_store: connection_store
  conn_entries "conns_inv K" "conn_addable K" "\<lambda>e. Connections_addServerConnection K (snd (snd e))"
  "conn_removable K" "Connections_removeServerConnection K" Connections_getServerConnection_fd
  Connections_getServerConnection_id "Inr null" for K
proof (unfold_locales, goal_cases)
  case (1 s)
  then show ?case by (simp add: conns_inv_def conn_entries_def o_def)
next
  case (2 s e)
  then show ?case
    using conns_inv_add [of K s "fst e" "fst (snd e)" "snd (snd e)"]
    by (auto simp: getServerConnection_id_eq)
next
  case (3 s e)
  then show ?case by (auto simp: conn_addable_def conn_entries_def)
next
  case (4 s k)
  show ?case
  proof (cases "k \<in> sock_of s ` set (mContainer s)")
    case True
    then have "mContainer s \<noteq> []" "sock_of s (last (mContainer s)) = k"
      using 4 by (auto simp: conn_removable_def)
    then show ?thesis using conns_inv_remove_last [OF 4(1)] by blast
  next
    case False
    then show ?thesis using conns_inv_remove_absent [OF 4(1)] 4(2) by (simp add: conn_removable_def)
  qed
next
  case (5 s k)
  then show ?case by (simp add: getServerConnection_fd_eq conns_inv_def)
next
  case (6 s i p s')
  then have "s' = s" "mMapping s i = Some p"
    by (auto simp: getServerConnection_id_eq split: option.splits)
  then show ?case using 6(1) by (force simp: conns_inv_def conn_entries_def)
qed

section \<open>Properties\<close>

text \<open>
  C20 Removing a descriptor that belongs to any connection other than the one added last goes
  wrong in four ways at once: the matched connection survives with its descriptor open but
  is in no container any more; the healthy connection added last is closed and deleted
  instead, and its identifier is unmapped; its dangling pointer stays in the container; and
  the recomputation of the largest descriptor then reads through that pointer, which is
  undefined behaviour.
\<close>

theorem remove_other_connection_use_after_free:
  assumes "conns_inv K s" and "q \<in> set (mContainer s)" and "q \<noteq> last (mContainer s)"
  shows "\<exists>s'. Connections_removeServerConnection K (sock_of s q) s =
      (Inl (Undefined_behaviour ''use of a dead ServerConnection''), s') \<and>
    q \<notin> set (mContainer s') \<and> sc_heap s' q = sc_heap s q \<and> sc_heap s' q \<noteq> None \<and>
    last (mContainer s) \<in> set (mContainer s') \<and> sc_heap s' (last (mContainer s)) = None \<and>
    mMapping s' (ident_of s (last (mContainer s))) = None \<and>
    open_fds (io_trace s') = open_fds (io_trace s) - {sock_of s (last (mContainer s))}"
proof -
  have "last (mContainer s) \<in> set (mContainer s)" using assms(2) by (cases "mContainer s") auto
  moreover have "distinct (mContainer s)" using assms(1) by (simp add: conns_inv_def)
  ultimately show ?thesis
    using remove_other_run [OF assms(1,2) refl assms(3)] conns_inv_liveD [OF assms(1,2)] assms(3)
    by (auto simp: in_set_remove1)
qed

text \<open>A container of two connections, on the descriptors 7 and 8.\<close>

definition sample_conns :: conns_io where
  "sample_conns =
     \<lparr>io_trace = [Ev_accept 3 7, Ev_accept 3 8],
      sc_heap = [1 \<mapsto> accepted sample_kernel 7 ''alice'', 2 \<mapsto> accepted sample_kernel 8 ''bob''],
      sc_next = 3, mContainer = [1, 2], mMapping = [''alice'' \<mapsto> 1, ''bob'' \<mapsto> 2],
      mRead = {3, 5, 7, 8}, mFdMax = 8\<rparr>"

lemma sample_conns_inv: "conns_inv sample_kernel sample_conns"
  by (auto simp: conns_inv_def conns_live_def sample_conns_def sock_of_def ident_of_def null_def
      accepted_def max_sock_def fd_in_range_def sample_kernel_def scripted_def split: if_splits)

theorem remove_other_connection_use_after_free_witness:
  "\<exists>s'. Connections_removeServerConnection sample_kernel 7 sample_conns =
      (Inl (Undefined_behaviour ''use of a dead ServerConnection''), s') \<and>
    1 \<notin> set (mContainer s') \<and> 2 \<in> set (mContainer s') \<and> sc_heap s' 2 = None \<and>
    open_fds (io_trace s') = {7}"
  using remove_other_connection_use_after_free [OF sample_conns_inv, of 1]
  by (auto simp: sample_conns_def sock_of_def accepted_def open_fds_def)



text \<open>
  C38 A connection that is added is found by its descriptor and by its identifier, also where
  an older connection had the same identifier; every other lookup by descriptor is unchanged,
  and the largest descriptor bounds all of them.
\<close>

theorem add_then_lookup:
  assumes "conns_inv K s" and "conn_addable K (k, i, p) s"
  shows "\<exists>s'. Connections_addServerConnection K p s = (Inr (), s') \<and>
    Connections_getServerConnection_fd k s' = (Inr p, s') \<and>
    Connections_getServerConnection_id i s' = (Inr p, s') \<and>
    (\<forall>k'. k' \<noteq> k \<longrightarrow> fst (Connections_getServerConnection_fd k' s') =
                      fst (Connections_getServerConnection_fd k' s)) \<and>
    (\<forall>q \<in> set (mContainer s'). sock_of s' q \<le> mFdMax s' \<and> sock_of s' q \<in> mRead s')"
proof -
  obtain s' where s': "Connections_addServerConnection K p s = (Inr (), s')" "conns_inv K s'"
    using conns_inv_add [OF assms] by blast
  then have "\<forall>q \<in> set (mContainer s'). sock_of s' q \<le> mFdMax s' \<and> sock_of s' q \<in> mRead s'"
    by (simp add: conns_inv_def max_sock_ge)
  with posix_store.lookup_added [OF assms] s'(1) show ?thesis by auto
qed

lemma sample_addable:
  "conn_addable sample_kernel (9, ''bob'', 3)
     (sample_conns\<lparr>sc_heap := (sc_heap sample_conns)(3 \<mapsto> accepted sample_kernel 9 ''bob'')\<rparr>)"
  by (auto simp: conn_addable_def sample_conns_def sock_of_def null_def accepted_def
      fd_in_range_def sample_kernel_def scripted_def)

lemma sample_conns_inv3:
  "conns_inv sample_kernel
     (sample_conns\<lparr>sc_heap := (sc_heap sample_conns)(3 \<mapsto> accepted sample_kernel 9 ''bob'')\<rparr>)"
  by (auto simp: conns_inv_def conns_live_def sample_conns_def sock_of_def ident_of_def null_def
      accepted_def max_sock_def fd_in_range_def sample_kernel_def scripted_def split: if_splits)

theorem add_then_lookup_witness:
  "\<exists>s'. Connections_addServerConnection sample_kernel 3
      (sample_conns\<lparr>sc_heap := (sc_heap sample_conns)(3 \<mapsto> accepted sample_kernel 9 ''bob'')\<rparr>) =
        (Inr (), s') \<and>
    Connections_getServerConnection_id ''bob'' s' = (Inr 3, s')"
  using add_then_lookup [OF sample_conns_inv3 sample_addable] by blast

text \<open>
  Clearing the container closes the descriptor of every connection and deletes them all,
  but not the map of identifiers: for each identifier that was mapped, a lookup by it still
  succeeds, with a pointer to a deleted connection.
\<close>

theorem clear_leaves_dangling_identifiers:
  assumes "conns_inv K s"
  shows "\<exists>s'. Connections_clear K s = (Inr (), s') \<and> mContainer s' = [] \<and>
    open_fds (io_trace s') = open_fds (io_trace s) - sock_of s ` set (mContainer s) \<and>
    (\<forall>i p. mMapping s i = Some p \<longrightarrow>
       Connections_getServerConnection_id i s' = (Inr p, s') \<and> sc_heap s' p = None)"
proof -
  have "distinct (mContainer s)" "\<forall>p \<in> set (mContainer s). sc_heap s p \<noteq> None"
    using assms by (auto simp: conns_inv_def conns_live_def)
  from delete_all_run [OF this] obtain tr where
    "for_each (delete_ServerConnection K) (mContainer s) s =
      (Inr (), s\<lparr>sc_heap := sc_heap s |` (- set (mContainer s)), io_trace := io_trace s @ tr\<rparr>)"
    "open_fds (io_trace s @ tr) = open_fds (io_trace s) - sock_of s ` set (mContainer s)"
    by blast
  then show ?thesis
    using assms
    by (auto simp: Connections_clear_def bindE_def seqE_def gets_def modify_def
        getServerConnection_id_eq conns_inv_def restrict_map_def)
qed

theorem clear_leaves_dangling_identifiers_witness:
  "\<exists>s'. Connections_clear sample_kernel sample_conns = (Inr (), s') \<and>
    open_fds (io_trace s') = {} \<and>
    Connections_getServerConnection_id ''alice'' s' = (Inr 1, s') \<and> sc_heap s' 1 = None"
proof -
  obtain s' where s': "Connections_clear sample_kernel sample_conns = (Inr (), s')"
    "open_fds (io_trace s') = open_fds (io_trace sample_conns) -
       sock_of sample_conns ` set (mContainer sample_conns)"
    "\<forall>i p. mMapping sample_conns i = Some p \<longrightarrow>
       Connections_getServerConnection_id i s' = (Inr p, s') \<and> sc_heap s' p = None"
    using clear_leaves_dangling_identifiers [OF sample_conns_inv] by blast
  have "mMapping sample_conns ''alice'' = Some 1" by (simp add: sample_conns_def)
  with s'(3) have "Connections_getServerConnection_id ''alice'' s' = (Inr 1, s')" "sc_heap s' 1 = None"
    by blast+
  moreover have "open_fds (io_trace sample_conns) = {7, 8}"
    by (auto simp: sample_conns_def open_fds_def)
  then have "open_fds (io_trace s') = {}"
    by (simp add: s'(2)) (simp add: sample_conns_def sock_of_def accepted_def)
  ultimately show ?thesis using s'(1) by blast
qed

end
