(* ===== verification/Posix_Server.thy ===== *)
theory Posix_Server
  imports Posix_Connections
begin

text \<open>
  \<open>posix/Server\<close>: the listening socket, the self-pipe, the select loop of
  \<open>waitForEvents\<close> and the operations that other threads call while it runs. The object
  behind \<open>mConnections\<close> is the container of \<open>Posix_Connections\<close>, whose fields are part
  of the same state.

  The loop is run over a schedule: one list of calls per iteration, the calls that other
  threads complete while the server is blocked in \<open>select\<close>. A schedule that ends
  leaves the loop waiting, so every length of run is covered.
\<close>

section \<open>State\<close>

text \<open>
  \<open>mConnections\<close> is not initialised by the constructor; it is null only after the
  destructor.
\<close>

datatype connections_ptr = Indeterminate_ptr | Null_ptr | Connections_ptr

record server = conns_io +
  mConnectSocket :: "Socket option"
  mConnections :: connections_ptr
  srv_mBuffer :: bytes
  mPort :: "32 word"
  srv_mCallback :: bool
  mHasBeenShutdown :: bool
  mWakeupPipe :: "int \<times> int"
  mMasterWrite :: "int set"

lemma server_update_order [simp]:
  "mMasterWrite_update f (io_trace_update t s) = io_trace_update t (mMasterWrite_update f s)"
  "mMasterWrite_update f (sc_heap_update u s) = sc_heap_update u (mMasterWrite_update f s)"
  "mHasBeenShutdown_update g (io_trace_update t s) = io_trace_update t (mHasBeenShutdown_update g s)"
  "mHasBeenShutdown_update g (sc_heap_update u s) = sc_heap_update u (mHasBeenShutdown_update g s)"
  by simp_all

definition FD_ISSET :: "posix \<Rightarrow> int \<Rightarrow> int set \<Rightarrow> ('s, bool) act" where
  "FD_ISSET K fd S = seqE (check_fd K fd) (ret (fd \<in> S))"

definition connect_socket :: "('a server_scheme, int) act" where
  "connect_socket =
     bindE (gets mConnectSocket) (\<lambda>sck.
       case sck of
         None \<Rightarrow> throw (Undefined_behaviour ''null connect socket'')
       | Some sck \<Rightarrow> ret (Socket_getSocket sck))"

definition on_connections :: "('a server_scheme, 'b) act \<Rightarrow> ('a server_scheme, 'b) act" where
  "on_connections m =
     bindE (gets mConnections) (\<lambda>p.
       if p = Connections_ptr then m
       else throw (Undefined_behaviour ''no Connections object''))"

section \<open>Construction\<close>

definition INADDR_ANY :: "32 word" where
  "INADDR_ANY = 0"

definition server_address :: "posix \<Rightarrow> 32 word \<Rightarrow> sockaddr_in" where
  "server_address K port = \<lparr>sin_addr = INADDR_ANY, sin_port = k_htons K (ucast port)\<rparr>"

definition Server_fields :: "posix \<Rightarrow> bool \<Rightarrow> 32 word \<Rightarrow> 'a server_scheme \<Rightarrow> 'a server_scheme" where
  "Server_fields K cb port s =
     s\<lparr>mConnectSocket := None, mConnections := Indeterminate_ptr, srv_mBuffer := indet_buffer K,
       mPort := port, srv_mCallback := cb, mHasBeenShutdown := False,
       mWakeupPipe := (indet_int K, indet_int K), mMasterWrite := indet_fd_set K\<rparr>"

lemma io_trace_Server_fields [simp]: "io_trace (Server_fields K cb port s) = io_trace s"
  by (simp add: Server_fields_def)

definition Server_ctor :: "posix \<Rightarrow> bool \<Rightarrow> 32 word \<Rightarrow> ('a server_scheme, unit) act" where
  "Server_ctor K cb port =
     seqE (modify (Server_fields K cb port))
    (bindE (Socket_new K) (\<lambda>sck.
     seqE (modify (\<lambda>s. s\<lparr>mConnectSocket := Some sck\<rparr>))
    (bindE (sys_setsockopt K (Socket_getSocket sck) SO_REUSEADDR 0) (\<lambda>r.
     if r = -1 then throw_errno K ''Error reusing socket file descriptor ''
     else
       bindE (gets mPort) (\<lambda>port.
       bindE (sys_bind K (Socket_getSocket sck) (server_address K port)) (\<lambda>r.
       if r = -1 then throw_errno K ''bind Error ''
       else
         bindE (sys_listen K (Socket_getSocket sck) 10) (\<lambda>r.
         if r = -1 then throw_errno K ''listen error ''
         else
           seqE (Socket_makeNonBlocking K sck)
          (bindE (sys_pipe K) (\<lambda>(r, p0, p1).
           if r = -1 then throw_errno K ''Failed to create wakeup pipe ''
           else modify (\<lambda>s. s\<lparr>mWakeupPipe := (p0, p1)\<rparr>))))))))))"

section \<open>Operations that any thread calls\<close>

definition Server_getCallback :: "('a server_scheme, bool) act" where
  "Server_getCallback = gets srv_mCallback"

definition Server_performWakeup :: "posix \<Rightarrow> ('a server_scheme, unit) act" where
  "Server_performWakeup K =
     bindE (gets mWakeupPipe) (\<lambda>wp.
     bindE (sys_poll K (snd wp) Poll_out) (\<lambda>_.
     bindE (sys_write K (snd wp) ''.'') (\<lambda>_. skip)))"

definition Server_send_connection :: "posix \<Rightarrow> bytes \<Rightarrow> addr \<Rightarrow> ('a server_scheme, unit) act" where
  "Server_send_connection K data connection =
     bindE (ServerConnection_getSocket connection) (\<lambda>sckt.
     seqE (check_fd K sckt)
    (seqE (modify (\<lambda>s. s\<lparr>mMasterWrite := insert sckt (mMasterWrite s)\<rparr>))
       (ServerConnection_addQueuedMessage connection data)))"

definition Server_send :: "posix \<Rightarrow> bytes \<Rightarrow> bytes \<Rightarrow> ('a server_scheme, unit) act" where
  "Server_send K data identifier =
     bindE (on_connections (Connections_getServerConnection_id identifier)) (\<lambda>connection.
     seqE (if connection \<noteq> null then Server_send_connection K data connection
           else throw (Runtime_error (''Connection not found: '' @ identifier)))
       (Server_performWakeup K))"

definition Server_broadcast :: "posix \<Rightarrow> bytes \<Rightarrow> ('a server_scheme, unit) act" where
  "Server_broadcast K byteStream =
     bindE (on_connections Connections_getConnections) (\<lambda>conns.
     seqE (for_each (Server_send_connection K byteStream) conns)
       (Server_performWakeup K))"

definition Server_close_listener :: "posix \<Rightarrow> ('a server_scheme, unit) act" where
  "Server_close_listener K =
     bindE connect_socket (\<lambda>fd. Socket_closeSocket K (Socket_wrap fd))"

definition Server_shutdown :: "posix \<Rightarrow> ('a server_scheme, unit) act" where
  "Server_shutdown K =
     seqE (modify (\<lambda>s. s\<lparr>mHasBeenShutdown := True\<rparr>))
    (seqE (Server_close_listener K)
       (Server_performWakeup K))"

definition Server_delete_connections :: "posix \<Rightarrow> ('a server_scheme, unit) act" where
  "Server_delete_connections K =
     bindE (gets mConnections) (\<lambda>p.
       case p of
         Indeterminate_ptr \<Rightarrow> throw (Undefined_behaviour ''delete of an indeterminate pointer'')
       | Null_ptr \<Rightarrow> skip
       | Connections_ptr \<Rightarrow> Connections_destructor K)"

definition Server_destructor :: "posix \<Rightarrow> ('a server_scheme, unit) act" where
  "Server_destructor K =
     bindE (gets mHasBeenShutdown) (\<lambda>down.
     seqE (whenE (\<not> down) (Server_shutdown K))
    (seqE (Server_close_listener K)
    (seqE (modify (\<lambda>s. s\<lparr>mConnectSocket := None\<rparr>))
    (seqE (Server_delete_connections K)
       (modify (\<lambda>s. s\<lparr>mConnections := Null_ptr\<rparr>))))))"

section \<open>The select loop\<close>

text \<open>\<open>try { new ServerConnection ... } catch (std::runtime_error&)\<close>\<close>

definition Server_accept :: "posix \<Rightarrow> ('a server_scheme, unit) act" where
  "Server_accept K =
     tryE
       (bindE connect_socket (\<lambda>fd.
        bindE (new_ServerConnection K fd) (\<lambda>client.
        bindE Server_getCallback (\<lambda>cb.
        bindE (ServerConnection_getIdentifier client) (\<lambda>ident.
        seqE (call_callback cb (Cb_connected ident))
          (on_connections (Connections_addServerConnection K client)))))))
       (\<lambda>_. skip)"

definition Server_handleServerConnection :: "posix \<Rightarrow> int \<Rightarrow> ('a server_scheme, unit) act" where
  "Server_handleServerConnection K sckt =
     bindE (on_connections (Connections_getServerConnection_fd sckt)) (\<lambda>connection.
       if connection \<noteq> null
       then
         bindE Server_getCallback (\<lambda>cb.
         tryE
           (bindE (ServerConnection_performReceive K connection) (\<lambda>result.
            whenE cb
              (bindE (ServerConnection_getIdentifier connection) (\<lambda>ident.
               call_callback cb (Cb_receiveComplete ident result)))))
           (\<lambda>_.
            seqE (whenE cb
                    (bindE (ServerConnection_getIdentifier connection) (\<lambda>ident.
                     call_callback cb (Cb_disconnected ident))))
              (on_connections (Connections_removeServerConnection K sckt))))
       else skip)"

definition Server_drain_wakeup :: "posix \<Rightarrow> int set \<Rightarrow> ('a server_scheme, unit) act" where
  "Server_drain_wakeup K readFds =
     bindE (gets mWakeupPipe) (\<lambda>wp.
     bindE (FD_ISSET K (fst wp) readFds) (\<lambda>hit.
     whenE hit
       (bindE (sys_recv K (fst wp) MAX_BUFFER_SIZE No_flags) (\<lambda>(_, d).
        modify (\<lambda>s. s\<lparr>srv_mBuffer := store_bytes (srv_mBuffer s) d\<rparr>)))))"

definition Server_write :: "posix \<Rightarrow> int \<Rightarrow> ('a server_scheme, unit) act" where
  "Server_write K i =
     bindE (on_connections (Connections_getServerConnection_fd i)) (\<lambda>connection.
     seqE (whenE (connection \<noteq> null)
             (bindE Server_getCallback (\<lambda>cb. ServerConnection_sendQueuedMessage K cb connection)))
       (modify (\<lambda>s. s\<lparr>mMasterWrite := mMasterWrite s - {i}\<rparr>)))"

definition Server_fd_step :: "posix \<Rightarrow> int set \<Rightarrow> int set \<Rightarrow> int \<Rightarrow> ('a server_scheme, unit) act" where
  "Server_fd_step K readFds writeFds i =
     seqE (bindE (FD_ISSET K i readFds) (\<lambda>readable.
             whenE readable
               (bindE connect_socket (\<lambda>fd.
                if i = fd then Server_accept K else Server_handleServerConnection K i))))
    (seqE (Server_drain_wakeup K readFds)
          (bindE (FD_ISSET K i writeFds) (\<lambda>writable. whenE writable (Server_write K i))))"

text \<open>The calls of other threads; a runtime error goes to the thread that called.\<close>

datatype api_call = Send bytes bytes | Broadcast bytes | Shutdown

fun Server_api :: "posix \<Rightarrow> api_call \<Rightarrow> ('a server_scheme, unit) act" where
  "Server_api K (Send data identifier) = Server_send K data identifier"
| "Server_api K (Broadcast data) = Server_broadcast K data"
| "Server_api K Shutdown = Server_shutdown K"

definition other_threads :: "posix \<Rightarrow> api_call list \<Rightarrow> ('a server_scheme, unit) act" where
  "other_threads K calls = for_each (\<lambda>c. tryE (Server_api K c) (\<lambda>_. skip)) calls"

text \<open>\<open>waitForEvents\<close> up to the loop; the result is \<open>serverMax\<close>.\<close>

definition Server_prepare :: "posix \<Rightarrow> ('a server_scheme, int) act" where
  "Server_prepare K =
     bindE (gets mWakeupPipe) (\<lambda>wp.
     seqE (check_fd K (fst wp))
    (bindE connect_socket (\<lambda>fd.
     seqE (check_fd K fd)
    (seqE (Connections_new {fst wp, fd})
    (seqE (modify (\<lambda>s. s\<lparr>mConnections := Connections_ptr\<rparr>))
       (ret (max (fst wp) fd)))))))"

text \<open>One iteration; the result says whether the loop was left with \<open>break\<close>.\<close>

definition Server_iteration :: "posix \<Rightarrow> int \<Rightarrow> api_call list \<Rightarrow> ('a server_scheme, bool) act" where
  "Server_iteration K serverMax calls =
     bindE (on_connections Connections_getMax) (\<lambda>connMax.
     bindE (gets mRead) (\<lambda>masterRead.
     bindE (gets mMasterWrite) (\<lambda>masterWrite.
     seqE (other_threads K calls)
    (bindE (sys_select K (max serverMax connMax + 1) masterRead masterWrite)
       (\<lambda>(numfds, readFds, writeFds).
     if numfds = -1 then throw_errno K ''select error ''
     else
       bindE (gets mHasBeenShutdown) (\<lambda>down.
       if down then ret True
       else
         seqE (for_each (Server_fd_step K readFds writeFds) [0..max serverMax connMax])
           (ret False)))))))"

text \<open>The result says whether the loop has returned.\<close>

primrec Server_loop :: "posix \<Rightarrow> int \<Rightarrow> api_call list list \<Rightarrow> ('a server_scheme, bool) act" where
  "Server_loop K serverMax [] = gets mHasBeenShutdown"
| "Server_loop K serverMax (calls # schedule) =
     bindE (gets mHasBeenShutdown) (\<lambda>down.
       if down then ret True
       else
         bindE (Server_iteration K serverMax calls) (\<lambda>left.
         if left then ret True else Server_loop K serverMax schedule))"

definition Server_waitForEvents :: "posix \<Rightarrow> api_call list list \<Rightarrow> ('a server_scheme, bool) act" where
  "Server_waitForEvents K schedule =
     bindE (Server_prepare K) (\<lambda>serverMax. Server_loop K serverMax schedule)"

section \<open>How the operations run\<close>

lemma sock_of_server_updates [simp]:
  "sock_of (s\<lparr>mMasterWrite := W\<rparr>) = sock_of s" "ident_of (s\<lparr>mMasterWrite := W\<rparr>) = ident_of s"
  "sock_of (s\<lparr>mHasBeenShutdown := b\<rparr>) = sock_of s" "ident_of (s\<lparr>mHasBeenShutdown := b\<rparr>) = ident_of s"
  "sock_of (s\<lparr>srv_mBuffer := d\<rparr>) = sock_of s" "ident_of (s\<lparr>srv_mBuffer := d\<rparr>) = ident_of s"
  by (simp_all add: sock_of_def ident_of_def fun_eq_iff)

lemma connect_socket_run [act_simps]:
  "mConnectSocket s = Some sck \<Longrightarrow> connect_socket s = (Inr (mSocket sck), s)"
  by (simp add: connect_socket_def bindE_def act_simps Socket_getSocket_def)

lemma on_connections_run [act_simps]:
  "mConnections s = Connections_ptr \<Longrightarrow> on_connections m s = m s"
  by (simp add: on_connections_def bindE_def act_simps)

lemma wp_connect_socket [wp_simps]:
  "wp connect_socket Q E s =
     (case mConnectSocket s of
        None \<Rightarrow> E (Undefined_behaviour ''null connect socket'') s
      | Some sck \<Rightarrow> Q (mSocket sck) s)"
  by (simp add: connect_socket_def wp_simps Socket_getSocket_def split: option.splits)

lemma wp_on_connections [wp_simps]:
  "wp (on_connections m) Q E s =
     (if mConnections s = Connections_ptr then wp m Q E s
      else E (Undefined_behaviour ''no Connections object'') s)"
  by (simp add: on_connections_def wp_simps)

lemma FD_ISSET_run [act_simps]: "fd_in_range K fd \<Longrightarrow> FD_ISSET K fd S s = (Inr (fd \<in> S), s)"
  by (simp add: FD_ISSET_def seqE_def bindE_def act_simps)

lemma wp_FD_ISSET [wp_simps]:
  "wp (FD_ISSET K fd S) Q E s =
     (if fd_in_range K fd then Q (fd \<in> S) s
      else E (Undefined_behaviour ''descriptor outside fd_set'') s)"
  by (simp add: FD_ISSET_def wp_simps)

definition wakeup_events :: "posix \<Rightarrow> event list \<Rightarrow> int \<Rightarrow> event list" where
  "wakeup_events K tr fd =
     (let pe = Ev_poll fd Poll_out (k_poll K tr fd Poll_out)
      in [pe, Ev_write fd ''.'' (k_write K (tr @ [pe]) fd ''.'')])"

lemma wakeup_events_neutral [simp]:
  "open_fds (tr @ wakeup_events K tr' fd) = open_fds tr"
  "closes (wakeup_events K tr' fd) = []"
  "callbacks (wakeup_events K tr' fd) = []"
  "sent_on fd' (wakeup_events K tr' fd) = []"
  by (simp_all add: wakeup_events_def Let_def open_fds_append)

lemma performWakeup_run [act_simps]:
  "Server_performWakeup K s =
     (Inr (), s\<lparr>io_trace := io_trace s @ wakeup_events K (io_trace s) (snd (mWakeupPipe s))\<rparr>)"
  by (simp add: Server_performWakeup_def bindE_def sys_defs act_simps wakeup_events_def Let_def)

lemma wp_performWakeup [wp_simps]:
  "wp (Server_performWakeup K) Q E s =
     Q () (s\<lparr>io_trace := io_trace s @ wakeup_events K (io_trace s) (snd (mWakeupPipe s))\<rparr>)"
  by (simp add: wp_def performWakeup_run)

lemma send_connection_run [act_simps]:
  assumes "sc_heap s p = Some c" and "fd_in_range K (sc_mSocket c)"
  shows "Server_send_connection K d p s =
    (Inr (), s\<lparr>mMasterWrite := insert (sc_mSocket c) (mMasterWrite s),
               sc_heap := (sc_heap s)(p \<mapsto> sc_enqueue d c)\<rparr>)"
  using assms
  by (simp add: Server_send_connection_def ServerConnection_addQueuedMessage_def seqE_def bindE_def
      act_simps)

lemma close_listener_run [act_simps]:
  "mConnectSocket s = Some sck \<Longrightarrow> Server_close_listener K s =
     (Inr (), s\<lparr>io_trace := io_trace s @ close_events K (io_trace s) (mSocket sck)\<rparr>)"
  by (simp add: Server_close_listener_def bindE_def act_simps)

lemma shutdown_run:
  assumes "mConnectSocket s = Some sck"
  shows "\<exists>tr. Server_shutdown K s =
      (Inr (), s\<lparr>mHasBeenShutdown := True, io_trace := io_trace s @ tr\<rparr>) \<and>
    open_fds (io_trace s @ tr) = open_fds (io_trace s) - {mSocket sck} \<and>
    closes tr = [mSocket sck]"
  using assms
  by (auto simp: Server_shutdown_def seqE_def bindE_def act_simps close_events_def open_fds_append
      wakeup_events_def Let_def)

text \<open>What a message does to the heap when it is queued on several connections.\<close>

definition enqueue_on :: "bytes \<Rightarrow> addr set \<Rightarrow> (addr \<rightharpoonup> server_connection) \<Rightarrow> addr \<rightharpoonup> server_connection" where
  "enqueue_on d A h p = (if p \<in> A then map_option (sc_enqueue d) (h p) else h p)"

lemma enqueue_on_socket:
  "sock_of (s\<lparr>sc_heap := enqueue_on d A (sc_heap s)\<rparr>) = sock_of s"
  "ident_of (s\<lparr>sc_heap := enqueue_on d A (sc_heap s)\<rparr>) = ident_of s"
proof -
  have "sc_mSocket (the (map_option (sc_enqueue d) x)) = sc_mSocket (the x)"
    "mIdentifier (the (map_option (sc_enqueue d) x)) = mIdentifier (the x)" for x
    by (cases x; simp add: sc_enqueue_def)+
  then show "sock_of (s\<lparr>sc_heap := enqueue_on d A (sc_heap s)\<rparr>) = sock_of s"
    "ident_of (s\<lparr>sc_heap := enqueue_on d A (sc_heap s)\<rparr>) = ident_of s"
    by (auto simp: sock_of_def ident_of_def enqueue_on_def fun_eq_iff)
qed

lemma send_all_run:
  assumes "distinct xs"
    and "\<forall>p \<in> set xs. sc_heap s p \<noteq> None \<and> fd_in_range K (sock_of s p)"
  shows "for_each (Server_send_connection K d) xs s =
    (Inr (), s\<lparr>mMasterWrite := mMasterWrite s \<union> sock_of s ` set xs,
               sc_heap := enqueue_on d (set xs) (sc_heap s)\<rparr>)"
  using assms
proof (induction xs arbitrary: s)
  case Nil
  have "enqueue_on d {} (sc_heap s) = sc_heap s" by (simp add: enqueue_on_def fun_eq_iff)
  then show ?case by (simp add: act_simps)
next
  case (Cons p xs)
  then obtain c where c: "sc_heap s p = Some c" by auto
  then have sp: "sock_of s p = sc_mSocket c" by (simp add: sock_of_def)
  let ?t = "s\<lparr>mMasterWrite := insert (sc_mSocket c) (mMasterWrite s),
              sc_heap := (sc_heap s)(p \<mapsto> sc_enqueue d c)\<rparr>"
  have run: "Server_send_connection K d p s = (Inr (), ?t)"
    using Cons.prems c sp by (intro send_connection_run) auto
  have so: "sock_of ?t q = sock_of s q" if "q \<in> set xs" for q
    using that Cons.prems by (auto simp: sock_of_def)
  have "\<forall>q \<in> set xs. sc_heap ?t q \<noteq> None \<and> fd_in_range K (sock_of ?t q)"
    using Cons.prems so by auto
  moreover have "distinct xs" using Cons.prems by simp
  ultimately have "for_each (Server_send_connection K d) xs ?t =
    (Inr (), ?t\<lparr>mMasterWrite := mMasterWrite ?t \<union> sock_of ?t ` set xs,
               sc_heap := enqueue_on d (set xs) (sc_heap ?t)\<rparr>)"
    by (intro Cons.IH) auto
  moreover have "sock_of ?t ` set xs = sock_of s ` set xs" using so by (auto simp: image_iff)
  moreover have "enqueue_on d (set xs) (sc_heap ?t) = enqueue_on d (set (p # xs)) (sc_heap s)"
    using Cons.prems c by (auto simp: enqueue_on_def fun_eq_iff)
  ultimately show ?case
    using run sp by (simp add: seqE_def bindE_def Un_insert_left)
qed

end
