(* ===== verification/Posix_Server_Calls.thy ===== *)
theory Posix_Server_Calls
  imports Posix_Server
begin

text \<open>
  What the constructor, the destructor and the calls of other threads do to a posix server:
  which system calls a construction makes and what it leaks when it fails, whom a message
  reaches and which message that is, and how often the listening descriptor is closed.
\<close>

unbundle bit_operations_syntax

section \<open>The constructor\<close>

definition listening :: "posix \<Rightarrow> bool \<Rightarrow> 32 word \<Rightarrow> 'a server_scheme \<Rightarrow> 'a server_scheme \<Rightarrow> bool" where
  "listening K cb port s s' \<longleftrightarrow>
     (\<exists>fd x p0 p1 r1 r2 r3 r4.
        io_trace s' = io_trace s @
          [Ev_socket fd, Ev_setsockopt fd SO_REUSEADDR 0 r1,
           Ev_bind fd \<lparr>sin_addr = 0, sin_port = k_htons K (ucast port)\<rparr> r2,
           Ev_listen fd 10 r3, Ev_getfl fd x, Ev_setfl fd (x OR O_NONBLOCK K),
           Ev_pipe r4 p0 p1] \<and>
        - 1 \<notin> {fd, r1, r2, r3, r4} \<and>
        mConnectSocket s' = Some \<lparr>mSocket = fd\<rparr> \<and> mWakeupPipe s' = (p0, p1) \<and>
        mPort s' = port \<and> srv_mCallback s' = cb \<and> \<not> mHasBeenShutdown s' \<and>
        mConnections s' = Indeterminate_ptr \<and> mMasterWrite s' = indet_fd_set K)"

definition not_listening :: "posix \<Rightarrow> 'a server_scheme \<Rightarrow> fault \<Rightarrow> 'a server_scheme \<Rightarrow> bool" where
  "not_listening K s e s' \<longleftrightarrow>
     (\<exists>w. e = Runtime_error w) \<and>
     (k_socket K (io_trace s) \<noteq> -1 \<longrightarrow> k_socket K (io_trace s) \<in> open_fds (io_trace s'))"

lemma Server_ctor_wp: "wp (Server_ctor K cb port) (\<lambda>_. listening K cb port s) (not_listening K s) s"
  by (simp add: Server_ctor_def Socket_new_def wp_simps Let_def Server_fields_def
      Socket_getSocket_def not_listening_def listening_def server_address_def INADDR_ANY_def
      open_fds_append split: prod.splits)

section \<open>Sending to an identifier\<close>

lemma server_send_run:
  assumes "mConnections s = Connections_ptr" and inv: "conns_inv K s" and m: "mMapping s i = Some p"
    and c: "sc_heap s p = Some c"
  shows "let s1 = s\<lparr>mMasterWrite := insert (sc_mSocket c) (mMasterWrite s),
                   sc_heap := (sc_heap s)(p \<mapsto> sc_enqueue d c)\<rparr>;
             s' = s1\<lparr>io_trace := io_trace s @ wakeup_events K (io_trace s) (snd (mWakeupPipe s))\<rparr>
         in Server_send K d i s = (Inr (), s') \<and> conns_inv K s'"
proof -
  have p: "p \<in> set (mContainer s)" and pn: "p \<noteq> null" and range: "fd_in_range K (sc_mSocket c)"
    using conns_inv_mappedD [OF inv m] c by (auto simp: sock_of_def)
  let ?s1 = "s\<lparr>mMasterWrite := insert (sc_mSocket c) (mMasterWrite s),
      sc_heap := (sc_heap s)(p \<mapsto> sc_enqueue d c)\<rparr>"
  let ?s' = "?s1\<lparr>io_trace := io_trace s @ wakeup_events K (io_trace s) (snd (mWakeupPipe s))\<rparr>"
  have "Server_send K d i s = (Inr (), ?s')"
    using assms(1) m pn range c
    by (simp add: Server_send_def seqE_def bindE_def act_simps getServerConnection_id_eq)
  moreover have "conns_inv K ?s'"
    by (rule conns_inv_cong [OF inv])
      (use c conns_inv_liveD [OF inv] in \<open>auto simp: sock_of_def ident_of_def sc_enqueue_def\<close>)
  ultimately show ?thesis by (simp add: Let_def)
qed

lemma server_broadcast_run:
  assumes "mConnections s = Connections_ptr" and inv: "conns_inv K s"
  shows "let s1 = s\<lparr>mMasterWrite := mMasterWrite s \<union> sock_of s ` set (mContainer s),
                   sc_heap := enqueue_on d (set (mContainer s)) (sc_heap s)\<rparr>;
             s' = s1\<lparr>io_trace := io_trace s @ wakeup_events K (io_trace s) (snd (mWakeupPipe s))\<rparr>
         in Server_broadcast K d s = (Inr (), s') \<and> conns_inv K s'"
proof -
  let ?xs = "mContainer s"
  have xs: "distinct ?xs" "\<forall>p \<in> set ?xs. sc_heap s p \<noteq> None \<and> fd_in_range K (sock_of s p)"
    using inv by (auto simp: conns_inv_def conns_live_def)
  let ?s1 = "s\<lparr>mMasterWrite := mMasterWrite s \<union> sock_of s ` set ?xs,
               sc_heap := enqueue_on d (set ?xs) (sc_heap s)\<rparr>"
  let ?s' = "?s1\<lparr>io_trace := io_trace s @ wakeup_events K (io_trace s) (snd (mWakeupPipe s))\<rparr>"
  have "Server_broadcast K d s = (Inr (), ?s')"
    using assms(1) send_all_run [OF xs]
    by (simp add: Server_broadcast_def Connections_getConnections_def seqE_def bindE_def act_simps)
  moreover have "conns_inv K ?s'"
    by (rule conns_inv_cong [OF inv])
      (use xs(2) in \<open>auto simp: enqueue_on_def sock_of_def ident_of_def sc_enqueue_def\<close>)
  ultimately show ?thesis by (simp add: Let_def)
qed

section \<open>Properties\<close>

text \<open>
  A server whose constructor returns is listening: the socket was created, bound to every
  local address and to the port, put in listening state with a backlog of 10 and made
  non-blocking, and the wake-up pipe exists, by exactly these calls and in this order. The
  port is the low 16 bits of the number that was asked for, and the address-reuse option is
  set to 0, which leaves reuse off.
\<close>

theorem server_ctor_listens:
  assumes "Server_ctor K cb port s = (Inr (), s')"
  shows "\<exists>fd x p0 p1 r1 r2 r3 r4.
    io_trace s' = io_trace s @
      [Ev_socket fd, Ev_setsockopt fd SO_REUSEADDR 0 r1,
       Ev_bind fd \<lparr>sin_addr = 0, sin_port = k_htons K (word_of_nat (unat port mod 2 ^ 16))\<rparr> r2,
       Ev_listen fd 10 r3, Ev_getfl fd x, Ev_setfl fd (x OR O_NONBLOCK K), Ev_pipe r4 p0 p1] \<and>
    - 1 \<notin> {fd, r1, r2, r3, r4} \<and> mConnectSocket s' = Some \<lparr>mSocket = fd\<rparr> \<and>
    mWakeupPipe s' = (p0, p1) \<and> mConnections s' = Indeterminate_ptr"
proof -
  have "(ucast port :: 16 word) = word_of_nat (unat port mod 2 ^ 16)"
    by (simp add: word_unat_eq_iff unsigned_ucast_eq unsigned_of_nat take_bit_eq_mod)
  with wp_normalD [OF Server_ctor_wp assms] show ?thesis
    unfolding listening_def by auto
qed

definition server_blank :: server where
  "server_blank =
     \<lparr>io_trace = [], sc_heap = Map.empty, sc_next = 1, mContainer = [], mMapping = Map.empty,
      mRead = {}, mFdMax = -1, mConnectSocket = None, mConnections = Indeterminate_ptr,
      srv_mBuffer = [], mPort = 0, srv_mCallback = True, mHasBeenShutdown = False,
      mWakeupPipe = (0, 0), mMasterWrite = {}\<rparr>"

theorem server_ctor_listens_witness:
  "\<exists>s' x r1 r2 r3 r4 p0 p1. Server_ctor sample_kernel True 0x10050 server_blank = (Inr (), s') \<and>
    io_trace s' =
      [Ev_socket 3, Ev_setsockopt 3 SO_REUSEADDR 0 r1,
       Ev_bind 3 \<lparr>sin_addr = 0, sin_port = 80\<rparr> r2,
       Ev_listen 3 10 r3, Ev_getfl 3 x, Ev_setfl 3 (x OR O_NONBLOCK sample_kernel),
       Ev_pipe r4 p0 p1]"
proof -
  obtain s' where s': "Server_ctor sample_kernel True 0x10050 server_blank = (Inr (), s')"
    by (simp add: Server_ctor_def Socket_new_def sys_defs seqE_def bindE_def modify_def ret_def
        gets_def Socket_makeNonBlocking_def Let_def sample_kernel_def scripted_def next_fd_def
        server_blank_def)
  have "hd (io_trace s') = Ev_socket 3"
    using s'
    by (auto simp: Server_ctor_def Socket_new_def sys_defs seqE_def bindE_def modify_def ret_def
        gets_def Socket_makeNonBlocking_def Let_def sample_kernel_def scripted_def next_fd_def
        server_blank_def Server_fields_def)
  then show ?thesis
    using s' server_ctor_listens [OF s']
    by (auto simp: server_blank_def sample_kernel_def scripted_def)
qed

text \<open>
  A constructor that throws after it has created the socket leaks it: the descriptor is
  still open, and the object whose destructor would close it does not exist.
\<close>

theorem server_ctor_leaks_socket:
  assumes "Server_ctor K cb port s = (Inl e, s')" and "k_socket K (io_trace s) \<noteq> -1"
  shows "(\<exists>w. e = Runtime_error w) \<and> k_socket K (io_trace s) \<in> open_fds (io_trace s')"
  using wp_faultD [OF Server_ctor_wp assms(1)] assms(2) by (auto simp: not_listening_def)

theorem server_ctor_leaks_socket_witness:
  "\<exists>e s'. Server_ctor (sample_kernel\<lparr>k_bind := (\<lambda>_ _ _. -1)\<rparr>) True 80 server_blank = (Inl e, s') \<and>
     3 \<in> open_fds (io_trace s')"
proof -
  let ?K = "sample_kernel\<lparr>k_bind := (\<lambda>_ _ _. -1)\<rparr>"
  obtain e s' where s': "Server_ctor ?K True 80 server_blank = (Inl e, s')"
    by (simp add: Server_ctor_def Socket_new_def sys_defs seqE_def bindE_def modify_def ret_def
        gets_def Let_def sample_kernel_def scripted_def next_fd_def
        server_blank_def)
  have "k_socket ?K (io_trace server_blank) = 3"
    by (simp add: sample_kernel_def scripted_def next_fd_def server_blank_def)
  with server_ctor_leaks_socket [OF s'] s' show ?thesis by auto
qed

text \<open>
  A message to a known identifier is put in front of what is pending for that connection
  and for no other, the connection's descriptor is put in the write set, the server is woken
  by one byte on the pipe, and the container's invariant holds afterwards.
\<close>

theorem server_send_queues_on_one:
  assumes "mConnections s = Connections_ptr" and inv: "conns_inv K s" and m: "mMapping s i = Some p"
  shows "\<exists>s' r. Server_send K d i s = (Inr (), s') \<and> conns_inv K s' \<and>
    map_option mOutgoingBytes (sc_heap s' p) = map_option (\<lambda>c. d @ mOutgoingBytes c) (sc_heap s p) \<and>
    (\<forall>q. q \<noteq> p \<longrightarrow> sc_heap s' q = sc_heap s q) \<and>
    mMasterWrite s' = insert (sock_of s p) (mMasterWrite s) \<and>
    last (io_trace s') = Ev_write (snd (mWakeupPipe s)) ''.'' r"
proof -
  obtain c where c: "sc_heap s p = Some c"
    using conns_inv_mappedD [OF inv m] by blast
  show ?thesis
    using server_send_run [OF assms c, of d] c
    by (simp add: sc_enqueue_def vector_insert_begin_def wakeup_events_def Let_def sock_of_def)
qed

text \<open>A server that waits for events, with the two connections of \<open>sample_conns\<close>.\<close>

definition sample_server :: server where
  "sample_server =
     \<lparr>io_trace = [Ev_socket 3, Ev_pipe 0 5 6, Ev_accept 3 7, Ev_accept 3 8],
      sc_heap = [1 \<mapsto> accepted sample_kernel 7 ''alice'', 2 \<mapsto> accepted sample_kernel 8 ''bob''],
      sc_next = 3, mContainer = [1, 2], mMapping = [''alice'' \<mapsto> 1, ''bob'' \<mapsto> 2],
      mRead = {3, 5, 7, 8}, mFdMax = 8, mConnectSocket = Some \<lparr>mSocket = 3\<rparr>,
      mConnections = Connections_ptr, srv_mBuffer = [], mPort = 80, srv_mCallback = True,
      mHasBeenShutdown = False, mWakeupPipe = (5, 6), mMasterWrite = {}\<rparr>"

lemma sample_server_inv: "conns_inv sample_kernel sample_server"
  by (auto simp: conns_inv_def conns_live_def sample_server_def sock_of_def ident_of_def null_def
      accepted_def max_sock_def fd_in_range_def sample_kernel_def scripted_def split: if_splits)

lemma sample_server_fields [simp]:
  "mConnections sample_server = Connections_ptr"
  "mMapping sample_server = [''alice'' \<mapsto> 1, ''bob'' \<mapsto> 2]"
  "mContainer sample_server = [1, 2]"
  "mConnectSocket sample_server = Some \<lparr>mSocket = 3\<rparr>"
  "mHasBeenShutdown sample_server = False"
  "mMasterWrite sample_server = {}"
  "mWakeupPipe sample_server = (5, 6)"
  "sc_heap sample_server =
     [1 \<mapsto> accepted sample_kernel 7 ''alice'', 2 \<mapsto> accepted sample_kernel 8 ''bob'']"
  "sock_of sample_server 1 = 7" "sock_of sample_server (Suc 0) = 7" "sock_of sample_server 2 = 8"
  by (simp_all add: sample_server_def sock_of_def accepted_def)

theorem server_send_queues_on_one_witness:
  "\<exists>s' r. Server_send sample_kernel ''hi'' ''bob'' sample_server = (Inr (), s') \<and>
    map_option mOutgoingBytes (sc_heap s' 2) = Some ''hi'' \<and> mMasterWrite s' = {8} \<and>
    last (io_trace s') = Ev_write 6 ''.'' r"
  using server_send_queues_on_one [OF _ sample_server_inv, of "''bob''" 2 "''hi''"]
  by (fastforce simp: accepted_def)

text \<open>
  A message to an identifier that is not mapped is refused with a runtime error and
  changes nothing: nothing is queued, no descriptor is put in the write set and the server
  is not woken. The error is the container's, which does not name the identifier; the branch
  of \<open>send\<close> that would name it is never taken while the invariant holds.
\<close>

theorem server_send_unknown_identifier:
  assumes "mConnections s = Connections_ptr" and "conns_inv K s"
  shows "mMapping s i = None \<longleftrightarrow>
    Server_send K d i s = (Inl (Runtime_error ''Connection not found''), s)"
proof (cases "mMapping s i")
  case None
  then show ?thesis
    using assms(1) by (simp add: Server_send_def bindE_def act_simps getServerConnection_id_eq)
next
  case (Some p)
  then obtain c where "sc_heap s p = Some c"
    using conns_inv_mappedD [OF assms(2)] by blast
  from server_send_run [OF assms Some this, of d] Some show ?thesis by (simp add: Let_def)
qed

theorem server_send_unknown_identifier_witness:
  "Server_send sample_kernel ''hi'' ''carol'' sample_server =
     (Inl (Runtime_error ''Connection not found''), sample_server)"
  using server_send_unknown_identifier [OF _ sample_server_inv, of "''carol''" "''hi''"] by simp

text \<open>
  A broadcast puts the message in front of what is pending for every connection in the
  container, changes no other object, puts every descriptor in the write set, and wakes the
  server exactly once.
\<close>

theorem server_broadcast_queues_on_all:
  assumes "mConnections s = Connections_ptr" and inv: "conns_inv K s"
  shows "\<exists>s' r1 r2. Server_broadcast K d s = (Inr (), s') \<and> conns_inv K s' \<and>
    sc_heap s' = (\<lambda>p. if p \<in> set (mContainer s) then map_option (sc_enqueue d) (sc_heap s p)
                       else sc_heap s p) \<and>
    mMasterWrite s' = mMasterWrite s \<union> sock_of s ` set (mContainer s) \<and>
    io_trace s' = io_trace s @ [Ev_poll (snd (mWakeupPipe s)) Poll_out r1,
                                Ev_write (snd (mWakeupPipe s)) ''.'' r2]"
  using server_broadcast_run [OF assms, of d]
  by (auto simp: wakeup_events_def Let_def enqueue_on_def fun_eq_iff)

theorem server_broadcast_queues_on_all_witness:
  "\<exists>s'. Server_broadcast sample_kernel ''hi'' sample_server = (Inr (), s') \<and>
    map_option mOutgoingBytes (sc_heap s' 1) = Some ''hi'' \<and>
    map_option mOutgoingBytes (sc_heap s' 2) = Some ''hi'' \<and> mMasterWrite s' = {7, 8}"
proof -
  obtain s' where s': "Server_broadcast sample_kernel ''hi'' sample_server = (Inr (), s')"
    "sc_heap s' = (\<lambda>p. if p \<in> set (mContainer sample_server)
       then map_option (sc_enqueue ''hi'') (sc_heap sample_server p) else sc_heap sample_server p)"
    "mMasterWrite s' = mMasterWrite sample_server \<union>
       sock_of sample_server ` set (mContainer sample_server)"
    using server_broadcast_queues_on_all [OF _ sample_server_inv, of "''hi''"]
      sample_server_fields(1) by blast
  then show ?thesis
    by (simp add: accepted_def sc_enqueue_def vector_insert_begin_def)
qed

text \<open>
  An empty message is accepted, but when the loop then finds the descriptor writable it
  takes the address of the first element of an empty vector, which is undefined behaviour,
  unless other bytes were pending.
\<close>

theorem server_empty_message_undefined:
  assumes conn: "mConnections s = Connections_ptr" and inv: "conns_inv K s"
    and m: "mMapping s i = Some p" and c: "sc_heap s p = Some c" and empty: "mOutgoingBytes c = []"
  shows "\<exists>s1 s2. Server_send K [] i s = (Inr (), s1) \<and> sock_of s p \<in> mMasterWrite s1 \<and>
    Server_write K (sock_of s p) s1 = (Inl (Undefined_behaviour ''element of an empty vector''), s2)"
proof -
  let ?s1 = "s\<lparr>mMasterWrite := insert (sc_mSocket c) (mMasterWrite s),
      io_trace := io_trace s @ wakeup_events K (io_trace s) (snd (mWakeupPipe s)),
      sc_heap := (sc_heap s)(p \<mapsto> sc_enqueue [] c)\<rparr>"
  have run: "Server_send K [] i s = (Inr (), ?s1)" and inv1: "conns_inv K ?s1"
    using server_send_run [OF conn inv m c, of "[]"] by (simp_all add: Let_def)
  have p: "p \<in> set (mContainer ?s1)" "p \<noteq> null"
    using inv m by (auto simp: conns_inv_def conns_live_def)
  have "sock_of ?s1 p = sc_mSocket c" "sock_of s p = sc_mSocket c"
    using c by (simp_all add: sock_of_def sc_enqueue_def)
  then have "Connections_getServerConnection_fd (sock_of s p) ?s1 = (Inr p, ?s1)"
    using getServerConnection_fd_run(1) [OF inv1 p(1)] by simp
  then show ?thesis
    using run p(2) c empty conn \<open>sock_of s p = sc_mSocket c\<close>
    by (simp add: Server_write_def seqE_def bindE_def act_simps Server_getCallback_def
        ServerConnection_sendQueuedMessage_def sc_swap_out_def sc_enqueue_def
        vector_insert_begin_def)
qed

theorem server_empty_message_undefined_witness:
  "\<exists>s1 s2. Server_send sample_kernel [] ''bob'' sample_server = (Inr (), s1) \<and>
    Server_write sample_kernel 8 s1 =
      (Inl (Undefined_behaviour ''element of an empty vector''), s2)"
  using server_empty_message_undefined [OF _ sample_server_inv, of "''bob''" 2
      "accepted sample_kernel 8 ''bob''"]
  by (auto simp: accepted_def)

text \<open>
  Destroying a server that was not shut down closes the listening descriptor twice, once
  in \<open>shutdown\<close> and once in the destructor, then the descriptor of every connection
  once, in their order; it frees every connection, and leaves open every other descriptor
  of the process, the two ends of the wake-up pipe among them.
\<close>

theorem server_destructor_closes_listener_twice:
  assumes conn: "mConnections s = Connections_ptr" and inv: "conns_inv K s"
    and sck: "mConnectSocket s = Some sck" and up: "\<not> mHasBeenShutdown s"
  shows "\<exists>s' tr. Server_destructor K s = (Inr (), s') \<and> io_trace s' = io_trace s @ tr \<and>
    closes tr = mSocket sck # mSocket sck # map (sock_of s) (mContainer s) \<and>
    open_fds (io_trace s') =
      open_fds (io_trace s) - insert (mSocket sck) (sock_of s ` set (mContainer s)) \<and>
    (\<forall>p \<in> set (mContainer s). sc_heap s' p = None)"
proof -
  obtain tr1 where tr1: "Server_shutdown K s = (Inr (), s\<lparr>mHasBeenShutdown := True,
      io_trace := io_trace s @ tr1\<rparr>)"
    "open_fds (io_trace s @ tr1) = open_fds (io_trace s) - {mSocket sck}" "closes tr1 = [mSocket sck]"
    using shutdown_run [OF sck] by blast
  let ?tr2 = "close_events K (io_trace s @ tr1) (mSocket sck)"
  let ?s2 = "s\<lparr>mHasBeenShutdown := True, io_trace := io_trace s @ tr1 @ ?tr2, mConnectSocket := None\<rparr>"
  have xs: "distinct (mContainer s)" "\<forall>p \<in> set (mContainer s). sc_heap ?s2 p \<noteq> None"
    using inv by (auto simp: conns_inv_def conns_live_def)
  have so: "sock_of ?s2 = sock_of s" by (simp add: sock_of_def fun_eq_iff)
  obtain tr3 where tr3: "for_each (delete_ServerConnection K) (mContainer s) ?s2 =
      (Inr (), ?s2\<lparr>sc_heap := sc_heap ?s2 |` (- set (mContainer s)), io_trace := io_trace ?s2 @ tr3\<rparr>)"
    "open_fds (io_trace ?s2 @ tr3) = open_fds (io_trace ?s2) - sock_of ?s2 ` set (mContainer s)"
    "closes tr3 = map (sock_of ?s2) (mContainer s)"
    using delete_all_run [OF xs] by blast
  have closed: "open_fds (io_trace s @ tr1 @ ?tr2) = open_fds (io_trace s) - {mSocket sck}"
    using tr1(2) open_fds_close [of "io_trace s @ tr1"] by simp
  have "Server_destructor K s = (Inr (), ?s2\<lparr>sc_heap := sc_heap ?s2 |` (- set (mContainer s)),
      io_trace := io_trace ?s2 @ tr3, mContainer := [], mConnections := Null_ptr\<rparr>)"
    using conn sck up tr1(1) tr3(1)
    by (simp add: Server_destructor_def Server_delete_connections_def Connections_destructor_def
        Connections_clear_def seqE_def bindE_def act_simps)
  moreover have "closes ?tr2 = [mSocket sck]" by (simp add: close_events_def)
  ultimately show ?thesis
    using tr1(3) tr3(2,3) closed
    by (simp add: so restrict_map_def) auto
qed

theorem server_destructor_closes_listener_twice_witness:
  "\<exists>s' tr. Server_destructor sample_kernel sample_server = (Inr (), s') \<and>
    io_trace s' = io_trace sample_server @ tr \<and> closes tr = [3, 3, 7, 8]"
  using server_destructor_closes_listener_twice [OF _ sample_server_inv, of "\<lparr>mSocket = 3\<rparr>"] by auto

text \<open>
  Destroying a server, or sending or broadcasting on it, before \<open>waitForEvents\<close> was
  called goes through the pointer to the container that the constructor left uninitialised.
\<close>

theorem server_use_before_wait_undefined:
  assumes "Server_ctor K cb port s = (Inr (), s')"
  shows "(\<exists>u s2. Server_destructor K s' = (Inl (Undefined_behaviour u), s2)) \<and>
    (\<exists>u s2. Server_send K d i s' = (Inl (Undefined_behaviour u), s2)) \<and>
    (\<exists>u s2. Server_broadcast K d s' = (Inl (Undefined_behaviour u), s2))"
proof -
  have s': "mConnections s' = Indeterminate_ptr" "\<not> mHasBeenShutdown s'"
    "\<exists>fd. mConnectSocket s' = Some \<lparr>mSocket = fd\<rparr>"
    using wp_normalD [OF Server_ctor_wp assms] by (auto simp: listening_def)
  then obtain fd where fd: "mConnectSocket s' = Some \<lparr>mSocket = fd\<rparr>" by blast
  obtain tr where "Server_shutdown K s' = (Inr (), s'\<lparr>mHasBeenShutdown := True,
      io_trace := io_trace s' @ tr\<rparr>)"
    using shutdown_run [OF fd] by blast
  with s' fd show ?thesis
    by (simp add: Server_destructor_def Server_delete_connections_def Server_send_def
        Server_broadcast_def on_connections_def seqE_def bindE_def act_simps)
qed

theorem server_use_before_wait_undefined_witness:
  "\<exists>s' u s2. Server_ctor sample_kernel True 80 server_blank = (Inr (), s') \<and>
    Server_destructor sample_kernel s' = (Inl (Undefined_behaviour u), s2)"
proof -
  obtain s' where s': "Server_ctor sample_kernel True 80 server_blank = (Inr (), s')"
    by (simp add: Server_ctor_def Socket_new_def sys_defs seqE_def bindE_def modify_def ret_def
        gets_def Socket_makeNonBlocking_def Let_def sample_kernel_def scripted_def next_fd_def
        server_blank_def)
  from server_use_before_wait_undefined [OF s'] s' show ?thesis by blast
qed

end
