(* ===== verification/Posix_Server_Loop.thy ===== *)
theory Posix_Server_Loop
  imports Posix_Server_Calls
begin

text \<open>
  The select loop of the posix server over any schedule: the invariant that every iteration
  keeps, the conditions under which no iteration reaches undefined behaviour, how the loop
  ends, and what goes wrong around the wake-up pipe and the write set.
\<close>

section \<open>The invariant of a waiting server\<close>

definition outgoing_of :: "'a heap_io_scheme \<Rightarrow> addr \<Rightarrow> bytes" where
  "outgoing_of s p = mOutgoingBytes (the (sc_heap s p))"

text \<open>Every connection with pending bytes is in the write set.\<close>

definition write_interest :: "'a server_scheme \<Rightarrow> bool" where
  "write_interest s \<longleftrightarrow>
     (\<forall>p \<in> set (mContainer s). outgoing_of s p \<noteq> [] \<longrightarrow> sock_of s p \<in> mMasterWrite s)"

text \<open>Every member of the write set is a connection with pending bytes.\<close>

definition exact_interest :: "'a server_scheme \<Rightarrow> bool" where
  "exact_interest s \<longleftrightarrow>
     (\<forall>fd \<in> mMasterWrite s. \<exists>p \<in> set (mContainer s). sock_of s p = fd \<and> outgoing_of s p \<noteq> [])"

definition heap_fresh :: "'a heap_io_scheme \<Rightarrow> bool" where
  "heap_fresh s \<longleftrightarrow> 0 < sc_next s \<and> (\<forall>p \<ge> sc_next s. sc_heap s p = None)"

text \<open>
  The listening socket exists, is open until the shutdown and is not the descriptor of a
  connection; the descriptors of the connections are open.
\<close>

definition descriptors_ok :: "'a server_scheme \<Rightarrow> bool" where
  "descriptors_ok s \<longleftrightarrow>
     (\<exists>fd. mConnectSocket s = Some \<lparr>mSocket = fd\<rparr> \<and> fd \<notin> sock_of s ` set (mContainer s) \<and>
           (\<not> mHasBeenShutdown s \<longrightarrow> fd \<in> open_fds (io_trace s))) \<and>
     sock_of s ` set (mContainer s) \<subseteq> open_fds (io_trace s)"

text \<open>
  The flag \<open>strict\<close> adds what a run needs to stay clear of undefined behaviour: a callback,
  a pipe that fits the descriptor sets, and an exact write set.
\<close>

definition server_inv :: "bool \<Rightarrow> posix \<Rightarrow> 'a server_scheme \<Rightarrow> bool" where
  "server_inv strict K s \<longleftrightarrow>
     mConnections s = Connections_ptr \<and> conns_inv K s \<and> heap_fresh s \<and> descriptors_ok s \<and>
     write_interest s \<and>
     (strict \<longrightarrow> srv_mCallback s \<and> fd_in_range K (fst (mWakeupPipe s)) \<and> exact_interest s)"

definition running :: "bool \<Rightarrow> posix \<Rightarrow> int set \<Rightarrow> 'a server_scheme \<Rightarrow> bool" where
  "running strict K W s \<longleftrightarrow>
     server_inv strict K s \<and> \<not> mHasBeenShutdown s \<and> mMasterWrite s = W"

text \<open>The kernels of a strict run: no peer goes away, and descriptors fit the sets.\<close>

definition peers_stay :: "posix \<Rightarrow> bool" where
  "peers_stay K \<longleftrightarrow> (\<forall>tr fd. 0 < fst (k_recv K tr fd MAX_BUFFER_SIZE MSG_WAITALL))"

definition accept_in_range :: "posix \<Rightarrow> bool" where
  "accept_in_range K \<longleftrightarrow> (\<forall>tr fd. k_accept K tr fd < FD_SETSIZE K)"

lemma server_inv_cong:
  assumes inv: "server_inv strict K s"
    and same: "mConnections t = mConnections s" "mContainer t = mContainer s"
      "mMapping t = mMapping s" "mRead t = mRead s" "mFdMax t = mFdMax s"
      "mConnectSocket t = mConnectSocket s"
      "srv_mCallback t = srv_mCallback s" "mWakeupPipe t = mWakeupPipe s"
    and down: "mHasBeenShutdown s \<Longrightarrow> mHasBeenShutdown t"
    and fds: "open_fds (io_trace s) \<subseteq> open_fds (io_trace t)"
    and fresh: "heap_fresh t"
    and conn: "\<And>p. p \<in> set (mContainer s) \<Longrightarrow>
      sc_heap t p \<noteq> None \<and> sock_of t p = sock_of s p \<and> ident_of t p = ident_of s p"
    and interest: "write_interest t" "strict \<Longrightarrow> exact_interest t"
  shows "server_inv strict K t"
proof -
  have "conns_inv K t"
    by (rule conns_inv_cong [of K s]) (use inv same conn in \<open>auto simp: server_inv_def\<close>)
  moreover have "sock_of t ` set (mContainer s) = sock_of s ` set (mContainer s)"
    using conn by (auto simp: image_iff)
  then have "descriptors_ok t"
    using inv down fds unfolding server_inv_def descriptors_ok_def same by auto
  ultimately show ?thesis
    using inv fresh interest by (simp add: server_inv_def same)
qed

lemma heap_fresh_cong:
  "heap_fresh s \<Longrightarrow> sc_next t = sc_next s \<Longrightarrow> (\<And>p. (sc_heap t p = None) = (sc_heap s p = None)) \<Longrightarrow>
   heap_fresh t"
  by (simp add: heap_fresh_def)

text \<open>Changes that no part of the invariant looks at.\<close>

lemma write_interest_cong:
  assumes "mContainer t = mContainer s" "mMasterWrite t = mMasterWrite s"
    and "\<And>p. p \<in> set (mContainer s) \<Longrightarrow> sock_of t p = sock_of s p \<and> outgoing_of t p = outgoing_of s p"
  shows "write_interest t = write_interest s" "exact_interest t = exact_interest s"
  using assms by (auto simp: write_interest_def exact_interest_def)

lemma server_inv_neutral:
  assumes inv: "server_inv strict K s"
    and same: "mConnections t = mConnections s" "mContainer t = mContainer s"
      "mMapping t = mMapping s" "mRead t = mRead s" "mFdMax t = mFdMax s"
      "mConnectSocket t = mConnectSocket s" "sc_next t = sc_next s"
      "srv_mCallback t = srv_mCallback s" "mWakeupPipe t = mWakeupPipe s"
      "mHasBeenShutdown t = mHasBeenShutdown s" "mMasterWrite t = mMasterWrite s"
    and fds: "open_fds (io_trace t) = open_fds (io_trace s)"
    and live: "\<And>p. (sc_heap t p = None) = (sc_heap s p = None)"
    and conn: "\<And>p. p \<in> set (mContainer s) \<Longrightarrow> sock_of t p = sock_of s p \<and>
      ident_of t p = ident_of s p \<and> outgoing_of t p = outgoing_of s p"
  shows "server_inv strict K t"
proof (rule server_inv_cong [OF inv same(1-6,8,9)])
  have wi: "write_interest t = write_interest s" "exact_interest t = exact_interest s"
    by (rule write_interest_cong; use same conn in blast)+
  show "write_interest t" and "strict \<Longrightarrow> exact_interest t"
    using inv by (simp_all add: wi server_inv_def)
  show "heap_fresh t" using inv same(7) live by (simp add: server_inv_def heap_fresh_def)
  show "sc_heap t p \<noteq> None \<and> sock_of t p = sock_of s p \<and> ident_of t p = ident_of s p"
    if "p \<in> set (mContainer s)" for p
    using conn [OF that] live [of p] inv that by (auto simp: server_inv_def dest: conns_inv_liveD)
qed (use same fds in auto)

lemma server_inv_io [simp]:
  assumes "server_inv strict K s" and "track_fd (open_fds (io_trace s)) e = open_fds (io_trace s)"
  shows "server_inv strict K (s\<lparr>io_trace := io_trace s @ [e]\<rparr>)"
  by (rule server_inv_neutral [OF assms(1)])
    (use assms(2) in \<open>simp_all add: sock_of_def ident_of_def outgoing_of_def\<close>)

section \<open>Calls of other threads\<close>

lemma server_inv_enqueue:
  assumes inv: "server_inv strict K s" and A: "A \<subseteq> set (mContainer s)"
    and d: "strict \<Longrightarrow> d \<noteq> []"
  shows "server_inv strict K (s\<lparr>mMasterWrite := mMasterWrite s \<union> sock_of s ` A,
    io_trace := io_trace s @ wakeup_events K (io_trace s) fd,
    sc_heap := enqueue_on d A (sc_heap s)\<rparr>)" (is "server_inv strict K ?t")
proof -
  define t where "t = ?t"
  have t: "mMasterWrite t = mMasterWrite s \<union> sock_of s ` A" "mContainer t = mContainer s"
    "sc_heap t = enqueue_on d A (sc_heap s)"
    by (simp_all add: t_def)
  have same: "mConnections t = mConnections s" "mMapping t = mMapping s" "mRead t = mRead s"
    "mFdMax t = mFdMax s" "mConnectSocket t = mConnectSocket s" "sc_next t = sc_next s"
    "srv_mCallback t = srv_mCallback s" "mWakeupPipe t = mWakeupPipe s"
    "mHasBeenShutdown t = mHasBeenShutdown s" "open_fds (io_trace t) = open_fds (io_trace s)"
    by (simp_all add: t_def)
  have live: "\<exists>c. sc_heap s p = Some c" if "p \<in> set (mContainer s)" for p
    using inv that by (auto simp: server_inv_def dest: conns_inv_liveD)
  have out: "outgoing_of t p = (if p \<in> A then d @ outgoing_of s p else outgoing_of s p)"
    if "p \<in> set (mContainer s)" for p
    using live [OF that]
    by (auto simp: t outgoing_of_def enqueue_on_def sc_enqueue_def vector_insert_begin_def)
  have so: "sock_of t = sock_of s" "ident_of t = ident_of s"
    using enqueue_on_socket [where d = d and A = A and s = s]
    by (simp_all add: t sock_of_def ident_of_def fun_eq_iff)
  have wi: "write_interest t"
    using inv A by (auto simp: write_interest_def so out t server_inv_def)
  have ex: "exact_interest t" if strict
  proof -
    have d: "d \<noteq> []" and ex: "exact_interest s" using inv that d by (simp_all add: server_inv_def)
    have "\<exists>p \<in> set (mContainer s). sock_of s p = w \<and> outgoing_of t p \<noteq> []"
      if w: "w \<in> mMasterWrite s \<union> sock_of s ` A" for w
    proof (cases "w \<in> mMasterWrite s")
      case True
      then obtain p where "p \<in> set (mContainer s)" "sock_of s p = w" "outgoing_of s p \<noteq> []"
        using ex by (auto simp: exact_interest_def)
      then show ?thesis by (intro bexI [of _ p]) (auto simp: out)
    next
      case False
      then obtain p where "p \<in> A" "sock_of s p = w" using w by auto
      then show ?thesis using A d by (intro bexI [of _ p]) (auto simp: out)
    qed
    then show ?thesis unfolding exact_interest_def so t by blast
  qed
  have fresh: "heap_fresh t"
    by (rule heap_fresh_cong [of s]) (use inv in \<open>simp_all add: server_inv_def same t enqueue_on_def\<close>)
  have conn: "sc_heap t p \<noteq> None \<and> sock_of t p = sock_of s p \<and> ident_of t p = ident_of s p"
    if "p \<in> set (mContainer s)" for p
    using live [OF that] by (auto simp: t enqueue_on_def so)
  have "server_inv strict K t"
    by (rule server_inv_cong [OF inv same(1) t(2) same(2-5,7,8) _ _ fresh conn wi ex])
      (simp_all add: same)
  then show ?thesis by (simp only: t_def)
qed

lemma enqueue_on_singleton: "sc_heap s p = Some c \<Longrightarrow> (sc_heap s)(p \<mapsto> sc_enqueue d c) = enqueue_on d {p} (sc_heap s)"
  by (simp add: enqueue_on_def fun_eq_iff)

lemma keeps_send:
  assumes d: "strict \<Longrightarrow> d \<noteq> []"
  shows "keeps ub (server_inv strict K) (Server_send K d i)"
proof (rule keepsI)
  fix s :: "'a server_scheme"
  assume inv: "server_inv strict K s"
  then have conn: "mConnections s = Connections_ptr" and ci: "conns_inv K s"
    by (simp_all add: server_inv_def)
  show "wp (Server_send K d i) (\<lambda>_. server_inv strict K) (after_fault ub (server_inv strict K)) s"
  proof (cases "mMapping s i")
    case None
    then show ?thesis
      using inv conn by (simp add: Server_send_def wp_simps wp_run getServerConnection_id_eq)
  next
    case (Some p)
    then obtain c where c: "sc_heap s p = Some c" and p: "p \<in> set (mContainer s)"
      using conns_inv_mappedD [OF ci] by blast
    have "sock_of s p = sc_mSocket c" using c by (simp add: sock_of_def)
    then show ?thesis
      using server_send_run [OF conn ci Some c, of d]
        server_inv_enqueue [OF inv _ d, of "{p}" "snd (mWakeupPipe s)"] p
      by (simp add: Let_def wp_run enqueue_on_singleton [OF c])
  qed
qed

lemma keeps_broadcast:
  assumes d: "strict \<Longrightarrow> d \<noteq> []"
  shows "keeps ub (server_inv strict K) (Server_broadcast K d)"
proof (rule keepsI)
  fix s :: "'a server_scheme"
  assume inv: "server_inv strict K s"
  then have conn: "mConnections s = Connections_ptr" and ci: "conns_inv K s"
    by (simp_all add: server_inv_def)
  show "wp (Server_broadcast K d) (\<lambda>_. server_inv strict K) (after_fault ub (server_inv strict K)) s"
    using server_broadcast_run [OF conn ci, of d]
      server_inv_enqueue [OF inv subset_refl d, of "snd (mWakeupPipe s)"]
    by (simp add: Let_def wp_run)
qed

lemma keeps_shutdown: "keeps ub (server_inv strict K) (Server_shutdown K)"
proof (rule keepsI)
  fix s :: "'a server_scheme"
  assume inv: "server_inv strict K s"
  then obtain fd where fd: "mConnectSocket s = Some \<lparr>mSocket = fd\<rparr>" "fd \<notin> sock_of s ` set (mContainer s)"
    by (auto simp: server_inv_def descriptors_ok_def)
  obtain tr where tr: "Server_shutdown K s = (Inr (), s\<lparr>mHasBeenShutdown := True,
      io_trace := io_trace s @ tr\<rparr>)" "open_fds (io_trace s @ tr) = open_fds (io_trace s) - {fd}"
    using shutdown_run [OF fd(1)] by auto
  let ?t = "s\<lparr>mHasBeenShutdown := True, io_trace := io_trace s @ tr\<rparr>"
  have "conns_inv K ?t"
    by (rule conns_inv_cong [of K s]) (use inv in \<open>auto simp: server_inv_def dest: conns_inv_liveD\<close>)
  moreover have "write_interest ?t = write_interest s" "exact_interest ?t = exact_interest s"
    by (rule write_interest_cong; simp add: outgoing_of_def)+
  ultimately have "server_inv strict K ?t"
    using inv fd tr(2) by (auto simp: server_inv_def heap_fresh_def descriptors_ok_def)
  then show "wp (Server_shutdown K) (\<lambda>_. server_inv strict K) (after_fault ub (server_inv strict K)) s"
    by (simp add: wp_run tr(1))
qed

text \<open>The calls that a strict run may make: no empty message.\<close>

fun has_bytes :: "api_call \<Rightarrow> bool" where
  "has_bytes (Send d i) = (d \<noteq> [])"
| "has_bytes (Broadcast d) = (d \<noteq> [])"
| "has_bytes Shutdown = True"

lemma keeps_api:
  "(strict \<Longrightarrow> has_bytes c) \<Longrightarrow> keeps ub (server_inv strict K) (Server_api K c)"
  by (cases c) (simp_all add: keeps_send keeps_broadcast keeps_shutdown)

lemma keeps_other_threads:
  "(strict \<Longrightarrow> list_all has_bytes calls) \<Longrightarrow>
   keeps ub (server_inv strict K) (other_threads K calls)"
  unfolding other_threads_def
  by (intro keeps_intros keeps_api) (auto simp: list_all_iff)

section \<open>The steps of an iteration\<close>

lemma running_neutral:
  assumes "running strict K W s"
    and "mConnections t = mConnections s" "mContainer t = mContainer s"
      "mMapping t = mMapping s" "mRead t = mRead s" "mFdMax t = mFdMax s"
      "mConnectSocket t = mConnectSocket s" "sc_next t = sc_next s"
      "srv_mCallback t = srv_mCallback s" "mWakeupPipe t = mWakeupPipe s"
      "mHasBeenShutdown t = mHasBeenShutdown s" "mMasterWrite t = mMasterWrite s"
    and "open_fds (io_trace t) = open_fds (io_trace s)"
    and "\<And>p. (sc_heap t p = None) = (sc_heap s p = None)"
    and "\<And>p. p \<in> set (mContainer s) \<Longrightarrow> sock_of t p = sock_of s p \<and>
      ident_of t p = ident_of s p \<and> outgoing_of t p = outgoing_of s p"
  shows "running strict K W t"
  using assms server_inv_neutral [of strict K s t] by (simp add: running_def)

lemma running_event:
  assumes "running strict K W s" and "track_fd (open_fds (io_trace s)) e = open_fds (io_trace s)"
  shows "running strict K W (s\<lparr>io_trace := io_trace s @ [e]\<rparr>)"
  by (rule running_neutral [OF assms(1)])
    (use assms(2) in \<open>simp_all add: sock_of_def ident_of_def outgoing_of_def\<close>)

lemma runningD:
  assumes "running strict K W s"
  shows "mConnections s = Connections_ptr" "conns_inv K s" "heap_fresh s" "descriptors_ok s"
    "write_interest s" "\<not> mHasBeenShutdown s" "mMasterWrite s = W"
    "strict \<Longrightarrow> srv_mCallback s" "strict \<Longrightarrow> fd_in_range K (fst (mWakeupPipe s))"
    "strict \<Longrightarrow> exact_interest s"
  using assms by (simp_all add: running_def server_inv_def)

lemma keeps_drain: "keeps (\<not> strict) (running strict K W) (Server_drain_wakeup K rd)"
proof (rule keepsI)
  fix s :: "'a server_scheme"
  assume run: "running strict K W s"
  have "running strict K W (s\<lparr>io_trace := io_trace s @ [Ev_recv fd n f r d], srv_mBuffer := b\<rparr>)"
    for fd n f r d b
    by (rule running_neutral [OF run]) (simp_all add: sock_of_def ident_of_def outgoing_of_def)
  then show "wp (Server_drain_wakeup K rd) (\<lambda>_. running strict K W)
      (after_fault (\<not> strict) (running strict K W)) s"
    using run runningD(9) [OF run] by (auto simp: Server_drain_wakeup_def wp_simps split: prod.splits)
qed

text \<open>A connection that was just built and is added to the container.\<close>

lemma running_added:
  assumes run: "running strict K W s" and p: "p = sc_next s" and k: "k \<notin> open_fds (io_trace s)"
    and range: "fd_in_range K k"
    and t: "t = s\<lparr>sc_next := Suc p, io_trace := io_trace s @ tr, sc_heap := (sc_heap s)(p \<mapsto> accepted K k i)\<rparr>"
    and tr: "open_fds (io_trace s @ tr) = insert k (open_fds (io_trace s))"
    and u: "Connections_addServerConnection K p t = (Inr (), u)"
  shows "running strict K W u"
proof -
  note inv = runningD [OF run]
  have pf: "p \<notin> set (mContainer s)" "p \<noteq> null"
    using inv(2,3) p by (auto simp: conns_inv_def conns_live_def heap_fresh_def null_def)
  have heap: "sc_heap t = (sc_heap s)(p \<mapsto> accepted K k i)" by (simp add: t)
  have acc: "sc_mSocket (accepted K k i) = k" "mIdentifier (accepted K k i) = i"
    "mOutgoingBytes (accepted K k i) = []"
    by (simp_all add: accepted_def)
  have old: "sock_of t q = sock_of s q" "ident_of t q = ident_of s q" "sc_heap t q = sc_heap s q"
    if "q \<in> set (mContainer s)" for q
    using that pf by (auto simp: sock_of_def ident_of_def heap)
  have "conns_inv K t"
    by (rule conns_inv_cong [OF inv(2)])
      (use old conns_inv_liveD [OF inv(2)] in \<open>auto simp: t\<close>)
  moreover have kf: "k \<notin> sock_of s ` set (mContainer s)"
    using inv(4) k by (auto simp: descriptors_ok_def)
  then have "conn_addable K (k, i, p) t"
    using pf range acc old by (auto simp: conn_addable_def heap t)
  ultimately have "conns_inv K u" using conns_inv_add u by fastforce
  moreover have u': "u = t\<lparr>mContainer := mContainer s @ [p], mMapping := (mMapping s)(i \<mapsto> p),
      mFdMax := max (mFdMax s) k, mRead := insert k (mRead s)\<rparr>"
    using addServerConnection_run [of t p "accepted K k i" K] u range by (simp add: heap acc) (simp add: t)
  have uf: "sc_heap u = sc_heap t" "mContainer u = mContainer s @ [p]" "io_trace u = io_trace s @ tr"
    "sc_next u = Suc p" "mConnections u = mConnections s" "mConnectSocket u = mConnectSocket s"
    "mHasBeenShutdown u = mHasBeenShutdown s" "mMasterWrite u = W" "srv_mCallback u = srv_mCallback s"
    "mWakeupPipe u = mWakeupPipe s"
    using inv(7) by (simp_all add: u' t)
  have new: "sock_of u p = k" "outgoing_of u p = []"
    by (simp_all add: sock_of_def outgoing_of_def uf heap acc)
  have oldu: "sock_of u q = sock_of s q" "outgoing_of u q = outgoing_of s q"
    if "q \<in> set (mContainer s)" for q
    using old(3) [OF that] by (simp_all add: sock_of_def outgoing_of_def uf)
  moreover have "heap_fresh u" using inv(3) p by (auto simp: heap_fresh_def uf heap)
  moreover have "descriptors_ok u"
    using inv(4,6) k kf oldu new by (auto simp: descriptors_ok_def uf tr)
  moreover have "write_interest u"
    using inv(5,7) oldu new by (auto simp: write_interest_def uf)
  moreover have "exact_interest u" if strict
    using inv(10) [OF that] inv(7) oldu by (fastforce simp: exact_interest_def uf)
  ultimately show ?thesis
    using inv by (simp add: running_def server_inv_def uf)
qed

lemma addServerConnection_out_of_range:
  assumes "sc_heap s p = Some c" and "\<not> fd_in_range K (sc_mSocket c)"
  shows "\<exists>s'. Connections_addServerConnection K p s =
    (Inl (Undefined_behaviour ''descriptor outside fd_set''), s')"
  using assms
  by (simp add: Connections_addServerConnection_def seqE_def bindE_def act_simps check_fd_def)

lemma open_fds_handshake:
  "k \<noteq> -1 \<Longrightarrow> open_fds (tr @ handshake_events K srv k x r pr ident @ [Ev_callback e]) = insert k (open_fds tr)"
  by (simp add: handshake_events_def open_fds_append)

lemma keeps_accept:
  assumes fits: "recv_fits K" and fresh: "accept_fresh K" and range: "strict \<Longrightarrow> accept_in_range K"
  shows "keeps (\<not> strict) (running strict K W) (Server_accept K)"
proof (rule keepsI)
  fix s :: "'a server_scheme"
  assume run: "running strict K W s"
  note inv = runningD [OF run]
  let ?R = "running strict K W" and ?E = "after_fault (\<not> strict) (running strict K W)"
  obtain srv where srv: "mConnectSocket s = Some \<lparr>mSocket = srv\<rparr>"
    using inv(4) by (auto simp: descriptors_ok_def)
  define k where "k = k_accept K (io_trace s) srv"
  let ?rest = "\<lambda>client. bindE Server_getCallback (\<lambda>cb.
        bindE (ServerConnection_getIdentifier client) (\<lambda>ident.
        seqE (call_callback cb (Cb_connected ident))
          (on_connections (Connections_addServerConnection K client))))"
  let ?H = "\<lambda>e s'. case e of Runtime_error w \<Rightarrow> wp skip (\<lambda>_. ?R) ?E s' | _ \<Rightarrow> ?E e s'"
  have built: "wp (?rest p) (\<lambda>_. ?R) ?H s1" if b: "built K srv s p s1" for p s1
  proof -
    obtain x r pr ident where kn: "k \<noteq> -1" and p: "p = sc_next s"
      and s1: "s1 = s\<lparr>sc_next := Suc p, io_trace := io_trace s @ handshake_events K srv k x r pr ident,
                sc_heap := (sc_heap s)(p \<mapsto> accepted K k ident)\<rparr>"
      using b unfolding built_def k_def by blast
    have kf: "0 \<le> k" "k \<notin> open_fds (io_trace s)"
      using fresh kn unfolding accept_fresh_def k_def by auto
    let ?tr = "handshake_events K srv k x r pr ident @ [Ev_callback (Cb_connected ident)]"
    let ?t = "s\<lparr>sc_next := Suc p, io_trace := io_trace s @ ?tr, sc_heap := (sc_heap s)(p \<mapsto> accepted K k ident)\<rparr>"
    have acc: "sc_mSocket (accepted K k ident) = k" "mIdentifier (accepted K k ident) = ident"
      by (simp_all add: accepted_def)
    have added: "wp (Connections_addServerConnection K p) (\<lambda>_. ?R) ?H ?t"
    proof (cases "fd_in_range K k")
      case True
      then obtain u where u: "Connections_addServerConnection K p ?t = (Inr (), u)"
        using addServerConnection_run [of ?t p "accepted K k ident" K] acc by simp
      show ?thesis
        using running_added [OF run p kf(2) True refl open_fds_handshake [OF kn] u] u
        by (simp add: wp_run)
    next
      case False
      then have "\<not> strict"
        using range kf(1) by (auto simp: accept_in_range_def fd_in_range_def k_def)
      then show ?thesis
        using addServerConnection_out_of_range [of ?t p "accepted K k ident" K] acc False
        by (auto simp: wp_run)
    qed
    have cb: "\<not> srv_mCallback s \<longrightarrow> \<not> strict" using inv(8) by blast
    show ?thesis
      using added inv(1) cb
      by (simp add: Server_getCallback_def ServerConnection_getIdentifier_def wp_simps s1 acc)
  qed
  have failed: "?R s1" "\<exists>w. e = Runtime_error w" if nb: "not_built K srv s e s1" for e s1
  proof -
    show "\<exists>w. e = Runtime_error w" using nb by (auto simp: not_built_def)
    obtain tr where s1: "s1 = s\<lparr>sc_next := Suc (sc_next s), io_trace := io_trace s @ Ev_accept srv k # tr,
                sc_heap := (sc_heap s)(sc_next s := None)\<rparr>"
      using nb unfolding not_built_def k_def by blast
    have heap: "(sc_heap s)(sc_next s := None) = sc_heap s"
      using inv(3) by (simp add: heap_fresh_def fun_upd_idem)
    have fds: "open_fds (io_trace s) \<subseteq> open_fds (io_trace s1)"
      using open_fds_not_built [OF nb] by auto
    have same: "sock_of s1 = sock_of s" "ident_of s1 = ident_of s" "outgoing_of s1 = outgoing_of s"
      by (simp_all add: s1 heap sock_of_def ident_of_def outgoing_of_def fun_eq_iff)
    have "server_inv strict K s1"
    proof (rule server_inv_cong [of strict K s])
      have "mContainer s1 = mContainer s" "mMasterWrite s1 = mMasterWrite s"
        by (simp_all add: s1)
      then have wi: "write_interest s1 = write_interest s" "exact_interest s1 = exact_interest s"
        by (auto simp: write_interest_def exact_interest_def same)
      show "write_interest s1" and "strict \<Longrightarrow> exact_interest s1" using inv wi by simp_all
      show "heap_fresh s1" using inv(3) by (auto simp: s1 heap heap_fresh_def)
      show "server_inv strict K s" using run by (simp add: running_def)
      show "sc_heap s1 p \<noteq> None \<and> sock_of s1 p = sock_of s p \<and> ident_of s1 p = ident_of s p"
        if "p \<in> set (mContainer s)" for p
        using conns_inv_liveD [OF inv(2) that] same by (auto simp: s1 heap)
    qed (use fds in \<open>simp_all add: s1\<close>)
    then show "?R s1" using inv(6,7) by (simp add: running_def s1)
  qed
  have handled: "?H e s1" if "not_built K srv s e s1" for e s1
    using failed [OF that] by (auto simp: wp_skip)
  have "wp (new_ServerConnection K srv) (\<lambda>p. wp (?rest p) (\<lambda>_. ?R) ?H) ?H s"
    by (rule wp_mono [OF new_ServerConnection_wp [OF fits]]) (use built handled in \<open>simp_all\<close>)
  then show "wp (Server_accept K) (\<lambda>_. ?R) ?E s"
    by (simp add: Server_accept_def wp_tryE wp_bindE wp_connect_socket srv)
qed

text \<open>Removal either is that of the connection added last or ends in undefined behaviour.\<close>

lemma running_removed:
  assumes run: "running strict K W s" and ns: "\<not> strict" and p: "p \<in> set (mContainer s)"
  shows "wp (Connections_removeServerConnection K (sock_of s p)) (\<lambda>_. running strict K W)
    (after_fault True (running strict K W)) s"
proof (cases "p = last (mContainer s)")
  case False
  then show ?thesis
    using remove_other_run [OF runningD(2) [OF run] p refl] by (auto simp: wp_run)
next
  case True
  note inv = runningD [OF run]
  define l where "l = last (mContainer s)"
  define xs where "xs = butlast (mContainer s)"
  define k where "k = sock_of s p"
  have ne: "mContainer s \<noteq> []" using p by auto
  then have split: "mContainer s = xs @ [p]" by (simp add: xs_def True)
  obtain s' m n where s': "Connections_removeServerConnection K k s = (Inr (), s')"
    "conns_inv K s'"
    and eq: "s' = s\<lparr>mContainer := xs, mMapping := m, mRead := mRead s - {k},
       mFdMax := n, sc_heap := (sc_heap s)(p := None),
       io_trace := io_trace s @ close_events K (io_trace s) k\<rparr>"
    using conns_inv_remove_last [OF inv(2) ne, of k] by (auto simp: k_def True xs_def)
  have uf: "sc_heap s' = (sc_heap s)(p := None)" "mContainer s' = xs" "sc_next s' = sc_next s"
    "open_fds (io_trace s') = open_fds (io_trace s) - {k}" "mConnections s' = mConnections s"
    "mConnectSocket s' = mConnectSocket s" "mHasBeenShutdown s' = mHasBeenShutdown s"
    "mMasterWrite s' = W"
    using inv(7) by (simp_all add: eq)
  have "p \<notin> set xs" "sock_of s p \<notin> sock_of s ` set xs"
    using inv(2) by (auto simp: conns_inv_def split)
  then have dist: "p \<notin> set xs" "\<forall>q \<in> set xs. sock_of s q \<noteq> sock_of s p"
    by (simp, metis imageI)
  have old: "sock_of s' q = sock_of s q" "outgoing_of s' q = outgoing_of s q" if "q \<in> set xs" for q
    using that dist(1) by (auto simp: sock_of_def outgoing_of_def uf)
  have socks: "sock_of s' ` set xs = sock_of s ` set xs" using old(1) by auto
  have "heap_fresh s'" using inv(3) by (simp add: heap_fresh_def uf)
  moreover have "descriptors_ok s'"
    using inv(4) dist(2) by (auto simp: descriptors_ok_def uf socks split k_def)
  moreover have "write_interest s'"
    using inv(5,7) old by (auto simp: write_interest_def uf split)
  ultimately have "running strict K W s'"
    using inv ns s'(2) by (simp add: running_def server_inv_def uf)
  then show ?thesis using s'(1) by (simp add: wp_run k_def)
qed

lemma keeps_handle:
  assumes fits: "recv_fits K" and stay: "strict \<Longrightarrow> peers_stay K"
  shows "keeps (\<not> strict) (running strict K W) (Server_handleServerConnection K sckt)"
proof (rule keepsI)
  fix s :: "'a server_scheme"
  assume run: "running strict K W s"
  note inv = runningD [OF run]
  let ?R = "running strict K W" and ?E = "after_fault (\<not> strict) (running strict K W)"
  show "wp (Server_handleServerConnection K sckt) (\<lambda>_. ?R) ?E s"
  proof (cases "sckt \<in> sock_of s ` set (mContainer s)")
    case False
    then show ?thesis
      using run inv(1) getServerConnection_fd_run(2) [OF inv(2) False]
      by (simp add: Server_handleServerConnection_def wp_simps wp_run)
  next
    case True
    then obtain p where p: "p \<in> set (mContainer s)" "sckt = sock_of s p" by auto
    obtain c where c: "sc_heap s p = Some c" using conns_inv_liveD [OF inv(2) p(1)] by blast
    have pn: "p \<noteq> null" using inv(2) p(1) by (simp add: conns_inv_def conns_live_def)
    let ?t = "\<lambda>tr b. s\<lparr>io_trace := io_trace s @ tr, sc_heap := (sc_heap s)(p \<mapsto> c\<lparr>mBuffer := b\<rparr>)\<rparr>"
    have received: "?R (?t tr b)" if "open_fds (io_trace s @ tr) = open_fds (io_trace s)" for tr b
      by (rule running_neutral [OF run])
        (use that c in \<open>auto simp: sock_of_def ident_of_def outgoing_of_def\<close>)
    have so: "sock_of (?t tr b) p = sock_of s p" for tr b
      using c by (simp add: sock_of_def)
    have gone: "wp (Connections_removeServerConnection K (sock_of s p)) (\<lambda>_. ?R) ?E (?t tr b)"
      if "open_fds (io_trace s @ tr) = open_fds (io_trace s)" and "\<not> strict" for tr b
      using running_removed [OF received [OF that(1), of b] that(2), of p] that(2) p so
      by (simp del: heap_io_update_order)
    have find: "wp (Connections_getServerConnection_fd (sock_of s p)) Q E s = Q p s" for Q E
      by (simp add: wp_run getServerConnection_fd_run(1) [OF inv(2) p(1)])
    show ?thesis
    proof (simp add: Server_handleServerConnection_def Server_getCallback_def wp_simps p(2) find
        inv(1) pn, rule performReceive_wpI [OF fits c], goal_cases)
      case (1 d)
      then show ?case
        using received [of "[Ev_recv (sc_mSocket c) MAX_BUFFER_SIZE MSG_WAITALL (int (length d)) d]"]
          received [of "[Ev_recv (sc_mSocket c) MAX_BUFFER_SIZE MSG_WAITALL (int (length d)) d,
            Ev_callback (Cb_receiveComplete (mIdentifier c) d)]"]
        by (simp add: ServerConnection_getIdentifier_def wp_simps open_fds_append)
    next
      case (2 w n d)
      then have "\<not> strict"
        using stay unfolding peers_stay_def by (metis fst_conv not_less)
      then show ?case
        using gone [of "[Ev_recv (sc_mSocket c) MAX_BUFFER_SIZE MSG_WAITALL n d]"]
          gone [of "[Ev_recv (sc_mSocket c) MAX_BUFFER_SIZE MSG_WAITALL n d,
            Ev_callback (Cb_disconnected (mIdentifier c))]"] inv(1)
        by (simp add: ServerConnection_getIdentifier_def wp_simps open_fds_append)
    qed
  qed
qed

lemma running_written:
  assumes run: "running strict K W s" and p: "p \<in> set (mContainer s)" and c: "sc_heap s p = Some c"
    and fds: "open_fds (io_trace s @ tr) = open_fds (io_trace s)"
  shows "running strict K (W - {sock_of s p}) (s\<lparr>mMasterWrite := mMasterWrite s - {sock_of s p},
    io_trace := io_trace s @ tr, sc_heap := (sc_heap s)(p \<mapsto> c\<lparr>mOutgoingBytes := []\<rparr>)\<rparr>)"
    (is "running strict K _ ?t")
proof -
  note inv = runningD [OF run]
  define t where "t = ?t"
  have t: "sc_heap t = (sc_heap s)(p \<mapsto> c\<lparr>mOutgoingBytes := []\<rparr>)" "mContainer t = mContainer s"
    "mMasterWrite t = W - {sock_of s p}" "mHasBeenShutdown t = mHasBeenShutdown s"
    using inv(7) by (simp_all add: t_def)
  have so: "sock_of t q = sock_of s q" "ident_of t q = ident_of s q" for q
    using c by (auto simp: sock_of_def ident_of_def t)
  have out: "outgoing_of t q = (if q = p then [] else outgoing_of s q)" for q
    by (simp add: outgoing_of_def t)
  have inj: "sock_of s q = sock_of s p \<longleftrightarrow> q = p" if "q \<in> set (mContainer s)" for q
    using inv(2) p that by (auto simp: conns_inv_def distinct_map inj_on_def)
  have wi: "write_interest t"
    using inv(5,7) inj by (auto simp: write_interest_def so out t)
  have ex: "exact_interest t" if strict
    using inv(10) [OF that] inv(7) inj by (fastforce simp: exact_interest_def so out t)
  have fresh: "heap_fresh t"
    by (rule heap_fresh_cong [OF inv(3)]) (use c in \<open>auto simp: t_def\<close>)
  have conn: "sc_heap t q \<noteq> None \<and> sock_of t q = sock_of s q \<and> ident_of t q = ident_of s q"
    if "q \<in> set (mContainer s)" for q
    using conns_inv_liveD [OF inv(2) that] so by (auto simp: t)
  have "server_inv strict K s" using run by (simp add: running_def)
  then have "server_inv strict K t"
    by (rule server_inv_cong [OF _ _ _ _ _ _ _ _ _ _ _ fresh conn wi ex]) (simp_all add: t_def fds)
  then have "running strict K (W - {sock_of s p}) t" using inv(6) t(3,4) by (simp add: running_def)
  then show ?thesis by (simp only: t_def)
qed

lemma running_uninterested:
  assumes run: "running strict K W s" and i: "i \<notin> sock_of s ` set (mContainer s)"
  shows "running strict K (W - {i}) (s\<lparr>mMasterWrite := mMasterWrite s - {i}\<rparr>)"
    (is "running strict K _ ?t")
proof -
  note inv = runningD [OF run]
  have so: "outgoing_of ?t = outgoing_of s" by (simp add: outgoing_of_def fun_eq_iff)
  have wi: "write_interest ?t" and ex: "strict \<Longrightarrow> exact_interest ?t"
    using inv(5,10) i by (auto simp: write_interest_def exact_interest_def so)
  have fresh: "heap_fresh ?t" by (rule heap_fresh_cong [OF inv(3)]) simp_all
  have conn: "sc_heap ?t q \<noteq> None \<and> sock_of ?t q = sock_of s q \<and> ident_of ?t q = ident_of s q"
    if "q \<in> set (mContainer s)" for q
    using conns_inv_liveD [OF inv(2) that] by auto
  have "server_inv strict K s" using run by (simp add: running_def)
  then have "server_inv strict K ?t"
    by (rule server_inv_cong [OF _ _ _ _ _ _ _ _ _ _ _ fresh conn wi ex]) simp_all
  then show ?thesis using inv(6,7) by (simp add: running_def)
qed

text \<open>How a step of the loop may end abnormally: only in undefined behaviour.\<close>

definition only_undefined :: "bool \<Rightarrow> fault \<Rightarrow> 's \<Rightarrow> bool" where
  "only_undefined strict e s \<longleftrightarrow> \<not> strict \<and> (\<exists>u. e = Undefined_behaviour u)"

lemma wp_write:
  assumes run: "running strict K W s" and i: "strict \<Longrightarrow> i \<in> W"
  shows "wp (Server_write K i) (\<lambda>_. running strict K (W - {i})) (only_undefined strict) s"
proof -
  note inv = runningD [OF run]
  have cb: "\<not> srv_mCallback s \<longrightarrow> \<not> strict" using inv(8) by blast
  show ?thesis
  proof (cases "i \<in> sock_of s ` set (mContainer s)")
    case False
    have find: "wp (Connections_getServerConnection_fd i) Q E s = Q null s" for Q E
      by (simp add: wp_run getServerConnection_fd_run(2) [OF inv(2) False])
    show ?thesis
      using running_uninterested [OF run False]
      by (simp add: Server_write_def wp_simps find inv(1))
  next
    case True
    then obtain p where p: "p \<in> set (mContainer s)" "i = sock_of s p" by auto
    obtain c where c: "sc_heap s p = Some c" using conns_inv_liveD [OF inv(2) p(1)] by blast
    have pn: "p \<noteq> null" using inv(2) p(1) by (simp add: conns_inv_def conns_live_def)
    have find: "wp (Connections_getServerConnection_fd i) Q E s = Q p s" for Q E
      by (simp add: wp_run getServerConnection_fd_run(1) [OF inv(2) p(1)] p(2))
    have inj: "sock_of s q = sock_of s p \<longleftrightarrow> q = p" if "q \<in> set (mContainer s)" for q
      using inv(2) p that by (auto simp: conns_inv_def distinct_map inj_on_def)
    have "mOutgoingBytes c \<noteq> []" if strict
      using inv(7) inv(10) [OF that] i [OF that] inj c p(2)
      by (auto simp: exact_interest_def outgoing_of_def)
    then have empty: "mOutgoingBytes c = [] \<longrightarrow> \<not> strict" by blast
    have written: "running strict K (W - {i}) (s\<lparr>mMasterWrite := mMasterWrite s - {i},
        io_trace := io_trace s @ tr, sc_heap := (sc_heap s)(p \<mapsto> c\<lparr>mOutgoingBytes := []\<rparr>)\<rparr>)"
      if "open_fds (io_trace s @ tr) = open_fds (io_trace s)" for tr
      using running_written [OF run p(1) c that] by (simp only: p(2))
    have "running strict K (W - {i}) (s\<lparr>mMasterWrite := mMasterWrite s - {i},
        io_trace := io_trace s @ [Ev_send fd d r, Ev_callback e],
        sc_heap := (sc_heap s)(p \<mapsto> c\<lparr>mOutgoingBytes := []\<rparr>)\<rparr>)"
      "running strict K (W - {i}) (s\<lparr>mMasterWrite := mMasterWrite s - {i},
        io_trace := io_trace s @ [Ev_send fd d r],
        sc_heap := (sc_heap s)(p \<mapsto> c\<lparr>mOutgoingBytes := []\<rparr>)\<rparr>)" for fd d r e
      by (rule written; simp add: open_fds_append)+
    then show ?thesis
      using empty cb
      by (simp add: Server_write_def Server_getCallback_def wp_simps find inv(1) pn c
          ServerConnection_sendQueuedMessage_def sc_swap_out_def only_undefined_def)
  qed
qed

text \<open>What the descriptors still to be visited need in a strict run.\<close>

definition visiting :: "bool \<Rightarrow> posix \<Rightarrow> int set \<Rightarrow> int \<Rightarrow> 'a server_scheme \<Rightarrow> bool" where
  "visiting strict K writeFds i s \<longleftrightarrow>
     (\<exists>W. running strict K W s \<and> (strict \<longrightarrow> (\<forall>j \<in> writeFds. i \<le> j \<longrightarrow> j \<in> W)))"

lemma wp_fd_step:
  assumes fits: "recv_fits K" and fresh: "accept_fresh K"
    and strict: "strict \<Longrightarrow> peers_stay K \<and> accept_in_range K \<and> fd_in_range K i"
    and vis: "visiting strict K wr i s"
  shows "wp (Server_fd_step K rd wr i) (\<lambda>_. visiting strict K wr (i + 1))
    (after_fault (\<not> strict) (\<lambda>s'. \<exists>W. running strict K W s')) s"
proof -
  obtain W where run: "running strict K W s" and W: "strict \<longrightarrow> (\<forall>j \<in> wr. i \<le> j \<longrightarrow> j \<in> W)"
    using vis by (auto simp: visiting_def)
  let ?R = "running strict K W" and ?B = "after_fault (\<not> strict) (\<lambda>s'. \<exists>W. running strict K W s')"
  let ?read = "bindE (FD_ISSET K i rd) (\<lambda>readable. whenE readable (bindE connect_socket (\<lambda>fd.
                if i = fd then Server_accept K else Server_handleServerConnection K i)))"
  have range: "\<not> fd_in_range K i \<longrightarrow> \<not> strict" using strict by blast
  have weaken: "after_fault (\<not> strict) ?R e s' \<Longrightarrow> ?B e s'" for e s'
    by (cases e) auto
  have sub: "wp m (\<lambda>_. ?R) ?B t" if "keeps (\<not> strict) ?R m" "?R t" for m :: "('a server_scheme, unit) act" and t
    by (rule wp_mono [OF keeps_wp [OF that]]) (auto intro: weaken)
  have connect: "\<exists>fd. mConnectSocket s = Some \<lparr>mSocket = fd\<rparr>"
    using runningD(4) [OF run] by (auto simp: descriptors_ok_def)
  have "wp (Server_accept K) (\<lambda>_. ?R) ?B s"
    by (rule sub [OF keeps_accept [OF fits fresh] run]) (use strict in blast)
  moreover have "wp (Server_handleServerConnection K i) (\<lambda>_. ?R) ?B s"
    by (rule sub [OF keeps_handle [OF fits] run]) (use strict in blast)
  ultimately have read: "wp ?read (\<lambda>_. ?R) ?B s"
    using connect range run by (auto simp: wp_simps)
  have drain: "wp (Server_drain_wakeup K rd) (\<lambda>_. ?R) ?B t" if "?R t" for t :: "'a server_scheme"
    by (rule sub [OF keeps_drain that])
  have last: "wp (bindE (FD_ISSET K i wr) (\<lambda>writable. whenE writable (Server_write K i)))
      (\<lambda>_. visiting strict K wr (i + 1)) ?B t" if "?R t" for t :: "'a server_scheme"
  proof (cases "i \<in> wr")
    case True
    have "wp (Server_write K i) (\<lambda>_. running strict K (W - {i})) (only_undefined strict) t"
      by (rule wp_write [OF that]) (use True W in auto)
    then have "wp (Server_write K i) (\<lambda>_. visiting strict K wr (i + 1)) ?B t"
      by (rule wp_mono) (use W in \<open>auto simp: visiting_def only_undefined_def\<close>)
    then show ?thesis using True range by (simp add: wp_simps)
  next
    case False
    then show ?thesis using that range W by (auto simp: wp_simps visiting_def)
  qed
  show ?thesis
    unfolding Server_fd_step_def wp_seqE
    by (rule wp_mono [OF read], rule wp_mono [OF drain]) (simp_all add: last)
qed

lemma conns_max_in_range:
  assumes "conns_inv K s" and "0 \<le> m" and "m < FD_SETSIZE K" and "0 \<le> i" and "i \<le> max m (mFdMax s)"
  shows "fd_in_range K i"
proof -
  have "fold (\<lambda>p m. max m (sock_of s p)) xs n < FD_SETSIZE K"
    if "n < FD_SETSIZE K" "\<forall>p \<in> set xs. fd_in_range K (sock_of s p)" for xs n
    using that by (induction xs arbitrary: n) (auto simp: fd_in_range_def)
  then have "mFdMax s < FD_SETSIZE K"
    using assms(1-3) by (simp add: conns_inv_def max_sock_def)
  with assms(3-5) show ?thesis by (auto simp: fd_in_range_def)
qed

text \<open>Calls of other threads only add to the write set, and never undo a shutdown.\<close>

definition grown :: "int set \<Rightarrow> bool \<Rightarrow> 'a server_scheme \<Rightarrow> bool" where
  "grown W b s \<longleftrightarrow> W \<subseteq> mMasterWrite s \<and> (b \<longrightarrow> mHasBeenShutdown s)"

lemma keeps_send_connection_interest:
  "keeps True (grown W b) (Server_send_connection K d p)"
  by (rule keepsI)
    (auto simp: grown_def Server_send_connection_def ServerConnection_getSocket_def
      ServerConnection_addQueuedMessage_def wp_simps split: option.splits)

lemma keeps_wakeup_interest: "keeps True (grown W b) (Server_performWakeup K)"
  by (rule keepsI) (simp add: grown_def wp_simps)

lemma keeps_api_interest: "keeps True (grown W b) (Server_api K c)"
proof (cases c)
  case (Send d i)
  have "keeps True (grown W b) (on_connections (Connections_getServerConnection_id i))"
    by (rule keepsI) (simp add: grown_def wp_simps Connections_getServerConnection_id_def split: option.splits)
  then show ?thesis
    unfolding Send Server_api.simps Server_send_def
    by (intro keeps_intros keeps_send_connection_interest keeps_wakeup_interest)
next
  case (Broadcast d)
  have "keeps True (grown W b) (on_connections Connections_getConnections)"
    by (rule keepsI) (simp add: grown_def wp_simps Connections_getConnections_def)
  then show ?thesis
    unfolding Broadcast Server_api.simps Server_broadcast_def
    by (intro keeps_intros keeps_send_connection_interest keeps_wakeup_interest)
next
  case Shutdown
  have "keeps True (grown W b) (Server_close_listener K)"
    by (rule keepsI) (simp add: grown_def wp_simps Server_close_listener_def split: option.splits)
  then show ?thesis
    unfolding Shutdown Server_api.simps Server_shutdown_def
    by (intro keeps_intros keeps_wakeup_interest) (auto simp: grown_def)
qed

lemma wp_other_threads:
  assumes "server_inv strict K s" and "strict \<Longrightarrow> list_all has_bytes calls"
  shows "wp (other_threads K calls)
    (\<lambda>_ s'. server_inv strict K s' \<and> grown (mMasterWrite s) (mHasBeenShutdown s) s')
    (after_fault False (server_inv strict K)) s"
proof -
  let ?G = "grown (mMasterWrite s) (mHasBeenShutdown s)"
  have "keeps True ?G (other_threads K calls)"
    unfolding other_threads_def by (intro keeps_intros keeps_api_interest)
  then have "wp (other_threads K calls) (\<lambda>_. ?G) (after_fault True ?G) s"
    by (rule keeps_wp) (simp add: grown_def)
  moreover have "wp (other_threads K calls) (\<lambda>_. server_inv strict K)
      (after_fault False (server_inv strict K)) s"
    by (rule keeps_wp [OF keeps_other_threads]) (use assms in auto)
  ultimately show ?thesis
    by (rule wp_mono [OF wp_conj]) auto
qed

lemma other_threads_no_runtime: "other_threads K calls s \<noteq> (Inl (Runtime_error w), s')"
proof (induction calls arbitrary: s)
  case (Cons c calls)
  then show ?case
    by (auto simp: other_threads_def seqE_def bindE_def tryE_def skip_def ret_def
        split: prod.splits sum.splits fault.splits)
qed (simp add: other_threads_def act_simps)

text \<open>A shutdown among the calls is seen by the loop after \<open>select\<close>.\<close>

lemma wp_other_threads_shutdown:
  assumes inv: "server_inv False K s" and sd: "Shutdown \<in> set calls"
  shows "wp (other_threads K calls) (\<lambda>_ s'. server_inv False K s' \<and> mHasBeenShutdown s')
    (after_fault False (server_inv False K)) s"
proof -
  obtain xs ys where calls: "calls = xs @ Shutdown # ys" using sd by (metis split_list)
  let ?f = "\<lambda>c. tryE (Server_api K c) (\<lambda>_. skip)"
  let ?E = "after_fault False (server_inv False K)"
  have before: "wp (for_each ?f xs) (\<lambda>_. server_inv False K) ?E s"
    unfolding other_threads_def [symmetric]
    by (rule wp_mono [OF wp_other_threads [OF inv]]) auto
  have after: "wp (for_each ?f ys) (\<lambda>_ s'. server_inv False K s' \<and> mHasBeenShutdown s') ?E t"
    if "server_inv False K t" "mHasBeenShutdown t" for t :: "'a server_scheme"
    unfolding other_threads_def [symmetric]
    by (rule wp_mono [OF wp_other_threads [OF that(1)]]) (use that(2) in \<open>auto simp: grown_def\<close>)
  have down: "wp (?f Shutdown) (\<lambda>_ s'. server_inv False K s' \<and> mHasBeenShutdown s') ?E t"
    if t: "server_inv False K t" for t :: "'a server_scheme"
  proof -
    obtain fd where fd: "mConnectSocket t = Some \<lparr>mSocket = fd\<rparr>"
      using t by (auto simp: server_inv_def descriptors_ok_def)
    obtain tr where "Server_shutdown K t = (Inr (), t\<lparr>mHasBeenShutdown := True, io_trace := io_trace t @ tr\<rparr>)"
      using shutdown_run [OF fd] by blast
    moreover have "wp (Server_shutdown K) (\<lambda>_. server_inv False K) ?E t"
      by (rule keeps_wp [OF keeps_shutdown t])
    ultimately show ?thesis by (simp add: wp_tryE wp_run)
  qed
  show ?thesis
    unfolding other_threads_def calls wp_for_each_append for_each.simps wp_seqE
    by (rule wp_mono [OF before], rule wp_mono [OF down]) (use after in auto)
qed

lemma bindE_gets:
  "bindE (gets f) g s = g (f s) s"
  "mConnections t = Connections_ptr \<Longrightarrow> bindE (on_connections (gets f')) g' t = g' (f' t) t"
  by (simp_all add: bindE_def act_simps)

text \<open>One iteration, with the calls of other threads while it is blocked.\<close>

definition calm :: "posix \<Rightarrow> int \<Rightarrow> api_call list \<Rightarrow> bool" where
  "calm K serverMax calls \<longleftrightarrow> peers_stay K \<and> accept_in_range K \<and> select_subset K \<and>
     0 \<le> serverMax \<and> serverMax < FD_SETSIZE K \<and> list_all has_bytes calls"

lemma wp_iteration:
  assumes fits: "recv_fits K" and fresh: "accept_fresh K"
    and inv: "server_inv strict K s" and calm: "strict \<Longrightarrow> calm K serverMax calls"
  shows "wp (Server_iteration K serverMax calls)
    (\<lambda>left s'. server_inv strict K s' \<and> left = mHasBeenShutdown s')
    (after_fault (\<not> strict) (server_inv strict K)) s"
proof -
  let ?E = "after_fault (\<not> strict) (server_inv strict K)"
  let ?n = "max serverMax (mFdMax s)"
  have conn: "mConnections s = Connections_ptr" "conns_inv K s" using inv by (simp_all add: server_inv_def)
  have others: "wp (other_threads K calls)
      (\<lambda>_ s'. server_inv strict K s' \<and> mMasterWrite s \<subseteq> mMasterWrite s') ?E s"
    by (rule wp_mono [OF wp_other_threads [OF inv]])
      (use calm in \<open>auto simp: grown_def calm_def after_fault_def split: fault.splits\<close>)
  have steps: "wp (for_each (Server_fd_step K rd wr) [0..?n])
      (\<lambda>_ s'. server_inv strict K s' \<and> \<not> mHasBeenShutdown s') ?E t"
    if t: "running strict K (mMasterWrite t) t" and wr: "strict \<Longrightarrow> wr \<subseteq> mMasterWrite t"
    for t :: "'a server_scheme" and rd wr
  proof -
    have step: "wp (Server_fd_step K rd wr i) (\<lambda>_. visiting strict K wr (i + 1))
        (after_fault (\<not> strict) (\<lambda>s'. \<exists>W. running strict K W s')) u"
      if "0 \<le> i" "i \<le> ?n" "visiting strict K wr i u" for i and u :: "'a server_scheme"
      by (rule wp_fd_step [OF fits fresh _ that(3)])
        (use calm conns_max_in_range [OF conn(2) _ _ that(1,2)] in \<open>auto simp: calm_def\<close>)
    have start: "visiting strict K wr 0 t" using t wr by (auto simp: visiting_def)
    have "wp (for_each (Server_fd_step K rd wr) [0..?n]) (\<lambda>_ s'. \<exists>i. visiting strict K wr i s')
        (after_fault (\<not> strict) (\<lambda>s'. \<exists>W. running strict K W s')) t"
      by (rule wp_for_each_upto [where J = "visiting strict K wr"]) (use step start in auto)
    then show ?thesis
      by (rule wp_mono) (auto simp: visiting_def running_def after_fault_def split: fault.splits)
  qed
  have selected: "wp (bindE (sys_select K (?n + 1) (mRead s) (mMasterWrite s)) (\<lambda>(numfds, rd, wr).
        if numfds = -1 then throw_errno K ''select error ''
        else bindE (gets mHasBeenShutdown) (\<lambda>down.
          if down then ret True
          else seqE (for_each (Server_fd_step K rd wr) [0..?n]) (ret False))))
      (\<lambda>left s'. server_inv strict K s' \<and> left = mHasBeenShutdown s') ?E t"
    if t: "server_inv strict K t" "mMasterWrite s \<subseteq> mMasterWrite t" for t :: "'a server_scheme"
  proof -
    obtain r rd wr where sel: "k_select K (io_trace t) (?n + 1) (mRead s) (mMasterWrite s) = (r, rd, wr)"
      by (cases "k_select K (io_trace t) (?n + 1) (mRead s) (mMasterWrite s)")
    let ?t = "t\<lparr>io_trace := io_trace t @ [Ev_select (?n + 1) (mRead s) (mMasterWrite s) r rd wr]\<rparr>"
    have inv': "server_inv strict K ?t" using t(1) by simp
    have "wr \<subseteq> mMasterWrite ?t" if strict
      using select_subsetD(2) [OF _ sel] calm [OF that] t(2) by (auto simp: calm_def)
    then have looped: "wp (for_each (Server_fd_step K rd wr) [0..?n])
        (\<lambda>_ s'. server_inv strict K s' \<and> \<not> mHasBeenShutdown s') ?E ?t"
      if "\<not> mHasBeenShutdown ?t"
      using inv' that by (intro steps) (auto simp: running_def)
    have "wp (for_each (Server_fd_step K rd wr) [0..?n])
        (\<lambda>_. wp (ret False) (\<lambda>left s'. server_inv strict K s' \<and> left = mHasBeenShutdown s') ?E) ?E ?t"
      if "\<not> mHasBeenShutdown ?t"
      by (rule wp_mono [OF looped [OF that]]) (simp_all add: wp_ret)
    then show ?thesis
      using inv' by (auto simp: wp_simps sel)
  qed
  let ?body = "bindE (sys_select K (?n + 1) (mRead s) (mMasterWrite s)) (\<lambda>(numfds, rd, wr).
        if numfds = -1 then throw_errno K ''select error ''
        else bindE (gets mHasBeenShutdown) (\<lambda>down.
          if down then ret True
          else seqE (for_each (Server_fd_step K rd wr) [0..?n]) (ret False)))"
  have "Server_iteration K serverMax calls s = seqE (other_threads K calls) ?body s"
    by (simp add: Server_iteration_def Connections_getMax_def bindE_gets conn(1))
  moreover have "wp (seqE (other_threads K calls) ?body)
      (\<lambda>left s'. server_inv strict K s' \<and> left = mHasBeenShutdown s') ?E s"
    unfolding wp_seqE by (rule wp_mono [OF others]) (use selected in auto)
  ultimately show ?thesis by (simp only: wp_def)
qed

lemma wp_loop:
  assumes fits: "recv_fits K" and fresh: "accept_fresh K"
    and inv: "server_inv strict K s"
    and calm: "strict \<Longrightarrow> list_all (calm K serverMax) schedule"
  shows "wp (Server_loop K serverMax schedule)
    (\<lambda>returned s'. server_inv strict K s' \<and> returned = mHasBeenShutdown s')
    (after_fault (\<not> strict) (server_inv strict K)) s"
  using inv calm
proof (induction schedule arbitrary: s)
  case Nil
  then show ?case by (simp add: wp_simps)
next
  case (Cons calls schedule)
  have "wp (Server_iteration K serverMax calls)
      (\<lambda>left s'. server_inv strict K s' \<and> left = mHasBeenShutdown s')
      (after_fault (\<not> strict) (server_inv strict K)) s"
    by (rule wp_iteration [OF fits fresh]) (use Cons.prems in auto)
  then have "wp (Server_iteration K serverMax calls)
      (\<lambda>left. wp (if left then ret True else Server_loop K serverMax schedule)
        (\<lambda>returned s'. server_inv strict K s' \<and> returned = mHasBeenShutdown s')
        (after_fault (\<not> strict) (server_inv strict K)))
      (after_fault (\<not> strict) (server_inv strict K)) s"
    by (rule wp_mono) (use Cons in \<open>auto simp: wp_simps\<close>)
  then show ?case using Cons.prems(1) by (simp add: wp_bindE wp_gets wp_ret)
qed

text \<open>\<open>waitForEvents\<close> starts from an empty container.\<close>

definition fresh_server :: "'a server_scheme \<Rightarrow> bool" where
  "fresh_server s \<longleftrightarrow> heap_fresh s \<and>
     (\<exists>fd. mConnectSocket s = Some \<lparr>mSocket = fd\<rparr> \<and> fd \<in> open_fds (io_trace s))"

definition listener_in_range :: "posix \<Rightarrow> 'a server_scheme \<Rightarrow> bool" where
  "listener_in_range K s \<longleftrightarrow> fd_in_range K (fst (mWakeupPipe s)) \<and>
     (\<forall>sck. mConnectSocket s = Some sck \<longrightarrow> fd_in_range K (mSocket sck))"

lemma wp_prepare:
  assumes fresh: "fresh_server s"
    and strict: "strict \<Longrightarrow> listener_in_range K s \<and> srv_mCallback s \<and> mMasterWrite s = {}"
  shows "wp (Server_prepare K)
    (\<lambda>m t. server_inv strict K t \<and> mHasBeenShutdown t = mHasBeenShutdown s \<and>
           (strict \<longrightarrow> 0 \<le> m \<and> m < FD_SETSIZE K)) (only_undefined strict) s"
proof -
  obtain fd where fd: "mConnectSocket s = Some \<lparr>mSocket = fd\<rparr>" "fd \<in> open_fds (io_trace s)"
    using fresh by (auto simp: fresh_server_def)
  let ?t = "s\<lparr>mContainer := [], mMapping := Map.empty, mRead := {fst (mWakeupPipe s), fd},
      mFdMax := -1, mConnections := Connections_ptr\<rparr>"
  have "conns_inv K ?t" by (simp add: conns_inv_def conns_live_def max_sock_def)
  moreover have "descriptors_ok ?t" using fd by (simp add: descriptors_ok_def)
  moreover have "heap_fresh ?t" using fresh by (simp add: fresh_server_def heap_fresh_def)
  ultimately have inv: "server_inv strict K ?t"
    using strict by (auto simp: server_inv_def write_interest_def exact_interest_def listener_in_range_def)
  have range: "strict \<Longrightarrow> fd_in_range K (fst (mWakeupPipe s)) \<and> fd_in_range K fd"
    using strict fd(1) by (auto simp: listener_in_range_def)
  show ?thesis
    using inv range fd(1)
    by (auto simp: Server_prepare_def Connections_new_def wp_simps only_undefined_def fd_in_range_def)
qed

lemma wp_waitForEvents:
  assumes fits: "recv_fits K" and acc: "accept_fresh K" and fresh: "fresh_server s"
    and strict: "strict \<Longrightarrow> listener_in_range K s \<and> srv_mCallback s \<and> mMasterWrite s = {} \<and>
      peers_stay K \<and> accept_in_range K \<and> select_subset K \<and> list_all (list_all has_bytes) schedule"
  shows "wp (Server_waitForEvents K schedule)
    (\<lambda>returned t. server_inv strict K t \<and> returned = mHasBeenShutdown t)
    (after_fault (\<not> strict) (server_inv strict K)) s"
proof -
  have loop: "wp (Server_loop K m schedule)
      (\<lambda>returned t. server_inv strict K t \<and> returned = mHasBeenShutdown t)
      (after_fault (\<not> strict) (server_inv strict K)) t"
    if "server_inv strict K t" "strict \<longrightarrow> 0 \<le> m \<and> m < FD_SETSIZE K"
    for m and t :: "'a server_scheme"
    by (rule wp_loop [OF fits acc that(1)])
      (use strict that(2) in \<open>auto simp: calm_def list_all_iff\<close>)
  have "wp (Server_prepare K) (\<lambda>m. wp (Server_loop K m schedule)
      (\<lambda>returned t. server_inv strict K t \<and> returned = mHasBeenShutdown t)
      (after_fault (\<not> strict) (server_inv strict K)))
      (after_fault (\<not> strict) (server_inv strict K)) s"
    by (rule wp_mono [OF wp_prepare [OF fresh, where strict = strict]])
      (use strict loop in \<open>auto simp: only_undefined_def\<close>)
  then show ?thesis by (simp add: Server_waitForEvents_def wp_bindE)
qed

section \<open>Properties\<close>

text \<open>
  C6 Whatever connections arrive, whatever is read, written or disconnected and whatever
  other threads call, each call whole while the loop is blocked in \<open>select\<close>, over any number
  of iterations, a run of \<open>waitForEvents\<close> that has not reached undefined behaviour keeps the
  invariant of the server: the connections in the container are live and different, with open
  descriptors of their own that the loop selects on and that the exact maximum bounds; every
  one with pending bytes is in the write set; and the map only leads from
  an identifier to a connection in the container that has it (to at most one of several). It
  has returned exactly if the server was shut down; any exception that leaves it is a runtime
  error, which keeps the invariant too. The kernel's \<open>recv\<close> stores what it counts, and
  \<open>accept\<close> returns no descriptor that is still open.
\<close>

theorem server_wait_keeps_invariant:
  assumes "recv_fits K" and "accept_fresh K" and "fresh_server s"
    and "Server_waitForEvents K schedule s = (r, s')"
  shows "case r of
      Inr returned \<Rightarrow> server_inv False K s' \<and> (returned \<longleftrightarrow> mHasBeenShutdown s')
    | Inl e \<Rightarrow> (\<exists>w. e = Runtime_error w \<and> server_inv False K s') \<or> (\<exists>u. e = Undefined_behaviour u)"
  using wp_waitForEvents [OF assms(1-3), of False schedule] assms(4)
  by (auto simp: wp_def after_fault_def split: sum.splits fault.splits)

text \<open>
  A server on the descriptor 3 with the pipe 4, 5; the kernel reports the listener readable
  once, then bob's descriptor 6 readable and writable.
\<close>

definition waiting_server :: server where
  "waiting_server = server_blank\<lparr>io_trace := [Ev_socket 3, Ev_pipe 0 4 5],
     mConnectSocket := Some \<lparr>mSocket = 3\<rparr>, mWakeupPipe := (4, 5)\<rparr>"

definition busy_kernel :: posix where
  "busy_kernel = scripted (\<lambda>tr fd. ''bob'')
     (\<lambda>tr. if length tr = 2 then ({3}, {}) else ({6}, {6}))"

lemma waiting_server_fresh: "fresh_server waiting_server"
  by (simp add: fresh_server_def heap_fresh_def waiting_server_def server_blank_def open_fds_def)

theorem server_wait_keeps_invariant_witness:
  "\<exists>r s'. Server_waitForEvents busy_kernel [[], [Send ''hi'' ''bob''], [Shutdown]] waiting_server = (r, s') \<and>
    (case r of Inr returned \<Rightarrow> server_inv False busy_kernel s' \<and> (returned \<longleftrightarrow> mHasBeenShutdown s')
     | Inl e \<Rightarrow> (\<exists>w. e = Runtime_error w \<and> server_inv False busy_kernel s') \<or>
                (\<exists>u. e = Undefined_behaviour u))"
proof -
  obtain r s' where run: "Server_waitForEvents busy_kernel [[], [Send ''hi'' ''bob''], [Shutdown]]
      waiting_server = (r, s')"
    by (cases "Server_waitForEvents busy_kernel [[], [Send ''hi'' ''bob''], [Shutdown]] waiting_server")
  have "recv_fits busy_kernel" "accept_fresh busy_kernel"
    by (simp_all add: busy_kernel_def scripted_recv_fits scripted_accept_fresh)
  from server_wait_keeps_invariant [OF this waiting_server_fresh run] run show ?thesis by blast
qed



text \<open>
  C25 A shutdown ends the loop: when any thread calls \<open>shutdown\<close> while a server that satisfies
  its invariant is blocked in \<open>select\<close>, \<open>waitForEvents\<close> returns from that very iteration,
  without serving any descriptor, whatever the other calls of that time are: the calls run to
  their end, the state they leave is changed by nothing but the trace of \<open>select\<close>, and the
  loop returns, or leaves with the runtime error of a \<open>select\<close> that failed.
\<close>

theorem server_shutdown_ends_loop:
  assumes "server_inv False K s" and "\<not> mHasBeenShutdown s" and "Shutdown \<in> set calls"
  shows "\<exists>t r rd wr. other_threads K calls s = (Inr (), t) \<and> mHasBeenShutdown t \<and>
    (let n = max serverMax (mFdMax s) + 1;
         t' = t\<lparr>io_trace := io_trace t @ [Ev_select n (mRead s) (mMasterWrite s) r rd wr]\<rparr>
     in k_select K (io_trace t) n (mRead s) (mMasterWrite s) = (r, rd, wr) \<and>
        Server_loop K serverMax (calls # schedule) s =
          (if r = -1 then Inl (Runtime_error (''select error '' @ k_strerror K (io_trace t'))) else Inr True, t'))"
proof -
  let ?n = "max serverMax (mFdMax s) + 1"
  have conn: "mConnections s = Connections_ptr" using assms(1) by (simp add: server_inv_def)
  obtain t where t: "other_threads K calls s = (Inr (), t)" "mHasBeenShutdown t"
  proof -
    obtain x t where x: "other_threads K calls s = (x, t)" by (cases "other_threads K calls s")
    note calls = wp_other_threads_shutdown [OF assms(1,3), unfolded wp_def x]
    have "\<exists>t. other_threads K calls s = (Inr (), t) \<and> mHasBeenShutdown t"
    proof (cases x)
      case (Inl e)
      then show ?thesis
        using calls x other_threads_no_runtime [of K calls s] by (cases e) auto
    next
      case (Inr u)
      then show ?thesis using calls x by simp
    qed
    then show ?thesis using that by blast
  qed
  obtain r rd wr where sel: "k_select K (io_trace t) ?n (mRead s) (mMasterWrite s) = (r, rd, wr)"
    by (cases "k_select K (io_trace t) ?n (mRead s) (mMasterWrite s)")
  then show ?thesis
    using t assms(2) conn
    by (intro exI [of _ t] exI [of _ r] exI [of _ rd] exI [of _ wr])
      (simp add: Let_def Server_iteration_def Connections_getMax_def on_connections_def act_simps sys_select_def
        throw_errno_def seqE_def bindE_def)
qed

lemma sample_server_inv_loop: "server_inv False sample_kernel sample_server"
  using sample_server_inv
  by (auto simp: server_inv_def heap_fresh_def descriptors_ok_def write_interest_def outgoing_of_def
      sample_server_def accepted_def open_fds_def sock_of_def)

theorem server_shutdown_ends_loop_witness:
  "\<exists>t s'. other_threads sample_kernel [Broadcast ''bye'', Shutdown] sample_server = (Inr (), t) \<and>
    Server_loop sample_kernel 5 [[Broadcast ''bye'', Shutdown], []] sample_server = (Inr True, s') \<and>
    mHasBeenShutdown s' \<and> sc_heap s' = sc_heap t"
proof -
  have ok: "k_select sample_kernel tr n rd wr = (r, rd', wr') \<Longrightarrow> r = 1" for tr n rd wr r rd' wr'
    by (simp add: sample_kernel_def scripted_def)
  show ?thesis
    using server_shutdown_ends_loop [OF sample_server_inv_loop, of "[Broadcast ''bye'', Shutdown]" 5 "[[]]"]
    by (auto simp: Let_def sample_server_def dest: ok)
qed

text \<open>
  C36 The wake-up byte is never read where \<open>recv\<close> refuses a descriptor that is no socket,
  as the pipe is not: an iteration in which only the pipe is readable calls \<open>recv\<close> on it
  once for every descriptor number from 0 to the largest, all of them fail, and the state is,
  the trace apart, what it was before. Nothing has taken the byte, so the pipe stays readable
  and the loop does not block again.
\<close>

theorem server_wakeup_byte_never_read:
  assumes inv: "server_inv False K s" and up: "\<not> mHasBeenShutdown s"
    and pd: "fst (mWakeupPipe s) = pd" "pd \<notin> sock_of s ` set (mContainer s)"
      "mConnectSocket s \<noteq> Some \<lparr>mSocket = pd\<rparr>"
    and range: "0 \<le> pd" "pd \<le> serverMax" "serverMax < FD_SETSIZE K"
    and enotsock: "\<And>tr n f. k_recv K tr pd n f = (-1, [])"
    and n: "n = max serverMax (mFdMax s) + 1"
    and sel: "k_select K (io_trace s) n (mRead s) (mMasterWrite s) = (1, {pd}, {})"
  shows "Server_iteration K serverMax [] s = (Inr False, s\<lparr>io_trace := io_trace s @
    Ev_select n (mRead s) (mMasterWrite s) 1 {pd} {} #
    replicate (nat n) (Ev_recv pd MAX_BUFFER_SIZE No_flags (-1) [])\<rparr>)"
proof -
  let ?e = "Ev_recv pd MAX_BUFFER_SIZE No_flags (-1) []"
  have conn: "mConnections s = Connections_ptr" "conns_inv K s" using inv by (simp_all add: server_inv_def)
  obtain fd where fd: "mConnectSocket s = Some \<lparr>mSocket = fd\<rparr>" "fd \<noteq> pd"
    using inv pd(3) by (auto simp: server_inv_def descriptors_ok_def)
  have idle: "Server_handleServerConnection K pd (s\<lparr>io_trace := tr\<rparr>) = (Inr (), s\<lparr>io_trace := tr\<rparr>)" for tr
  proof -
    have "conns_inv K (s\<lparr>io_trace := tr\<rparr>)"
      by (rule conns_inv_cong [OF conn(2)]) (use conns_inv_liveD [OF conn(2)] in auto)
    from getServerConnection_fd_run(2) [OF this, of pd] show ?thesis
      using conn(1) pd(2) by (simp add: Server_handleServerConnection_def bindE_def act_simps)
  qed
  have step: "Server_fd_step K {pd} {} i (s\<lparr>io_trace := tr\<rparr>) = (Inr (), s\<lparr>io_trace := tr @ [?e]\<rparr>)"
    if "0 \<le> i" "i < n" for i tr
  proof -
    have "fd_in_range K i" "fd_in_range K pd"
      using conns_max_in_range [OF conn(2), of serverMax] range that n by auto
    then show ?thesis
      using pd(1) fd idle
      by (simp add: Server_fd_step_def Server_drain_wakeup_def seqE_def bindE_def act_simps
          sys_recv_def enotsock store_bytes_def)
  qed
  have loop: "for_each (Server_fd_step K {pd} {}) xs (s\<lparr>io_trace := tr\<rparr>) =
      (Inr (), s\<lparr>io_trace := tr @ replicate (length xs) ?e\<rparr>)" if "\<forall>i \<in> set xs. 0 \<le> i \<and> i < n" for xs tr
    using that by (induction xs arbitrary: tr) (simp_all add: act_simps seqE_def bindE_def step)
  have "length [0..n - 1] = nat n" by simp
  then show ?thesis
    using loop [of "[0..n - 1]"] conn(1) up sel n
    by (simp add: Server_iteration_def Connections_getMax_def other_threads_def bindE_def seqE_def
        act_simps sys_select_def)
qed

definition pipe_kernel :: posix where
  "pipe_kernel = (scripted (\<lambda>_ _. []) (\<lambda>_. ({}, {})))
     \<lparr>k_recv := (\<lambda>_ _ _ _. (-1, [])), k_select := (\<lambda>_ _ _ _. (1, {4}, {}))\<rparr>"

definition idle_server :: server where
  "idle_server = waiting_server\<lparr>mConnections := Connections_ptr, mRead := {3, 4}\<rparr>"

lemma idle_server_inv: "server_inv False pipe_kernel idle_server"
  by (auto simp: server_inv_def conns_inv_def conns_live_def heap_fresh_def descriptors_ok_def
      write_interest_def idle_server_def waiting_server_def server_blank_def open_fds_def max_sock_def)

theorem server_wakeup_byte_never_read_witness:
  "Server_iteration pipe_kernel 4 [] idle_server = (Inr False, idle_server\<lparr>io_trace :=
     [Ev_socket 3, Ev_pipe 0 4 5, Ev_select 5 {3, 4} {} 1 {4} {}] @
     replicate 5 (Ev_recv 4 1024 No_flags (-1) [])\<rparr>)"
proof -
  have "fst (mWakeupPipe idle_server) = 4" "4 \<notin> sock_of idle_server ` set (mContainer idle_server)"
    "mConnectSocket idle_server \<noteq> Some \<lparr>mSocket = 4\<rparr>" "\<not> mHasBeenShutdown idle_server"
    "5 = max 4 (mFdMax idle_server) + 1" "(4::int) < FD_SETSIZE pipe_kernel"
    "k_select pipe_kernel (io_trace idle_server) 5 (mRead idle_server) (mMasterWrite idle_server) = (1, {4}, {})"
    "\<And>tr n f. k_recv pipe_kernel tr 4 n f = (-1, [])"
    by (simp_all add: idle_server_def waiting_server_def server_blank_def pipe_kernel_def scripted_def)
  note facts = this
  have "Server_iteration pipe_kernel 4 [] idle_server = (Inr False, idle_server\<lparr>io_trace :=
     io_trace idle_server @ Ev_select 5 (mRead idle_server) (mMasterWrite idle_server) 1 {4} {} #
     replicate (nat 5) (Ev_recv 4 MAX_BUFFER_SIZE No_flags (-1) [])\<rparr>)"
    by (rule server_wakeup_byte_never_read [OF idle_server_inv facts(4,1,2,3) _ _ facts(6,8,5,7)]) simp_all
  then show ?thesis
    by (simp add: idle_server_def waiting_server_def server_blank_def MAX_BUFFER_SIZE_def)
qed

text \<open>
  A client accepted on a descriptor that is in the write set although nothing is pending for
  it: the write branch then reads an element of an empty vector.
\<close>

lemma stale_interest_undefined:
  assumes inv: "conns_inv K s" and ptr: "mConnections s = Connections_ptr"
    and gone: "fd \<notin> sock_of s ` set (mContainer s)" and range: "fd_in_range K fd"
    and fresh: "sc_heap s q = None" "q \<noteq> null"
    and add: "Connections_addServerConnection K q
      (s\<lparr>sc_next := Suc q, sc_heap := (sc_heap s)(q \<mapsto> accepted K fd i)\<rparr>) = (Inr (), u)"
  shows "\<exists>v. Server_write K fd u = (Inl (Undefined_behaviour ''element of an empty vector''), v)"
proof -
  let ?t = "s\<lparr>sc_next := Suc q, sc_heap := (sc_heap s)(q \<mapsto> accepted K fd i)\<rparr>"
  have qf: "q \<notin> set (mContainer s)" using inv fresh by (auto simp: conns_inv_def conns_live_def)
  have old: "sock_of ?t p = sock_of s p" "ident_of ?t p = ident_of s p" "sc_heap ?t p = sc_heap s p"
    if "p \<in> set (mContainer s)" for p
    using that qf by (auto simp: sock_of_def ident_of_def)
  have ct: "conns_inv K ?t"
    by (rule conns_inv_cong [OF inv]) (use old conns_inv_liveD [OF inv] in auto)
  have "conn_addable K (fd, i, q) ?t"
    using qf fresh(2) gone range old by (auto simp: conn_addable_def accepted_def)
  from conns_inv_add [OF ct this] add have cu: "conns_inv K u" "sc_heap u = sc_heap ?t" by auto
  have qu: "q \<in> set (mContainer u)" "mConnections u = Connections_ptr"
    using addServerConnection_run [of ?t q "accepted K fd i" K] add range ptr
    by (auto simp: accepted_def)
  have hq: "sc_heap u q = Some (accepted K fd i)" by (simp add: cu(2))
  then have "sock_of u q = fd" by (simp add: sock_of_def accepted_def)
  then have "Connections_getServerConnection_fd fd u = (Inr q, u)"
    using getServerConnection_fd_run(1) [OF cu(1) qu(1)] by simp
  then show ?thesis
    using qu(2) fresh(2) hq
    by (simp add: Server_write_def seqE_def bindE_def act_simps Server_getCallback_def
        ServerConnection_sendQueuedMessage_def sc_swap_out_def accepted_def)
qed

text \<open>
  A client that goes away while bytes are pending for it leaves its descriptor in the write
  set: the connection is reported as disconnected, closed and forgotten, but the set keeps
  the closed descriptor. When a later client is accepted on the same descriptor number, the
  loop takes that stale entry for pending bytes of the new connection, and writing them reads
  an element of an empty vector, which is undefined behaviour.
\<close>

theorem server_disconnect_leaves_write_interest:
  assumes run: "running False K W s" and p: "mContainer s \<noteq> []" "p = last (mContainer s)"
    and c: "sc_heap s p = Some c" and fd: "sc_mSocket c = fd" "fd \<in> W"
    and recv: "k_recv K (io_trace s) fd MAX_BUFFER_SIZE MSG_WAITALL = (0, [])"
    and cb: "srv_mCallback s"
  shows "\<exists>s'. Server_handleServerConnection K fd s = (Inr (), s') \<and>
    fd \<notin> open_fds (io_trace s') \<and> fd \<in> mMasterWrite s' \<and>
    callbacks (io_trace s') = callbacks (io_trace s) @ [Cb_disconnected (mIdentifier c)] \<and>
    (\<forall>t u q i. t = s'\<lparr>sc_next := Suc q, sc_heap := (sc_heap s')(q \<mapsto> accepted K fd i)\<rparr> \<and>
       q = sc_next s' \<and> Connections_addServerConnection K q t = (Inr (), u) \<longrightarrow>
       (\<exists>v. Server_write K fd u = (Inl (Undefined_behaviour ''element of an empty vector''), v)))"
proof -
  note inv = runningD [OF run]
  have pin: "p \<in> set (mContainer s)" using p by simp
  have sp: "sock_of s p = fd" using c fd by (simp add: sock_of_def)
  have range: "fd_in_range K fd" using inv(2) pin sp by (auto simp: conns_inv_def)
  have pn: "p \<noteq> null" using inv(2) pin by (simp add: conns_inv_def conns_live_def)
  let ?b = "store_bytes (mBuffer c) []"
  let ?tr = "[Ev_recv fd MAX_BUFFER_SIZE MSG_WAITALL 0 [], Ev_callback (Cb_disconnected (mIdentifier c))]"
  define t1 where "t1 = s\<lparr>io_trace := io_trace s @ ?tr, sc_heap := (sc_heap s)(p \<mapsto> c\<lparr>mBuffer := ?b\<rparr>)\<rparr>"
  have t1: "mContainer t1 = mContainer s" "mConnections t1 = Connections_ptr" "mMasterWrite t1 = W"
    "sc_next t1 = sc_next s" "io_trace t1 = io_trace s @ ?tr"
    using inv by (simp_all add: t1_def)
  have st: "sock_of t1 p = fd" using c fd by (simp add: t1_def sock_of_def)
  have run1: "running False K W t1"
    by (rule running_neutral [OF run])
      (use c in \<open>auto simp: t1_def sock_of_def ident_of_def outgoing_of_def open_fds_append\<close>)
  obtain s' m n where s': "Connections_removeServerConnection K fd t1 = (Inr (), s')" "conns_inv K s'"
    and entries: "conn_entries s' = filter (\<lambda>e. fst e \<noteq> fd) (conn_entries t1)"
    and eq: "s' = t1\<lparr>mContainer := butlast (mContainer t1), mMapping := m, mRead := mRead t1 - {fd},
       mFdMax := n, sc_heap := (sc_heap t1)(last (mContainer t1) := None),
       io_trace := io_trace t1 @ close_events K (io_trace t1) fd\<rparr>"
    using conns_inv_remove_last [OF runningD(2) [OF run1], of fd] p st by (auto simp: t1(1))
  have handled: "Server_handleServerConnection K fd s = (Inr (), s')"
    using getServerConnection_fd_run(1) [OF inv(2) pin] inv(1) pn cb c fd recv s'(1) t1(2)
    by (simp add: Server_handleServerConnection_def Server_getCallback_def bindE_def seqE_def tryE_def
        act_simps sp performReceive_run Let_def throw_def call_callback_def emit_def t1_def)
  have gone: "fd \<notin> sock_of s' ` set (mContainer s')"
  proof -
    have "fd \<notin> fst ` set (conn_entries s')" using entries by auto
    then show ?thesis by (simp add: conn_entries_def image_image)
  qed
  have fresh: "sc_heap s' (sc_next s') = None" "sc_next s' \<noteq> null"
    using inv(3) c by (auto simp: eq t1_def heap_fresh_def null_def)
  have "mConnections s' = Connections_ptr" using t1(2) by (simp add: eq)
  note stale = stale_interest_undefined [OF s'(2) this gone range fresh]
  have "open_fds (io_trace s') = open_fds (io_trace t1) - {fd}"
    "mMasterWrite s' = W" "callbacks (io_trace s') = callbacks (io_trace t1)"
    using t1(3) by (simp_all add: eq)
  then have "fd \<notin> open_fds (io_trace s')" "fd \<in> mMasterWrite s'"
    "callbacks (io_trace s') = callbacks (io_trace s) @ [Cb_disconnected (mIdentifier c)]"
    using fd(2) t1(5) by simp_all
  then show ?thesis using handled stale by blast
qed

theorem server_disconnect_leaves_write_interest_witness:
  "\<exists>s'. Server_handleServerConnection (sample_kernel\<lparr>k_recv := (\<lambda>_ _ _ _. (0, []))\<rparr>) 8
      (sample_server\<lparr>mMasterWrite := {8}\<rparr>) = (Inr (), s') \<and>
    8 \<notin> open_fds (io_trace s') \<and> 8 \<in> mMasterWrite s'"
proof -
  let ?K = "sample_kernel\<lparr>k_recv := (\<lambda>_ _ _ _. (0, []))\<rparr>"
  let ?s = "sample_server\<lparr>mMasterWrite := {8}\<rparr>"
  have "conns_inv sample_kernel ?s"
    by (rule conns_inv_cong [OF sample_server_inv]) (use conns_inv_liveD [OF sample_server_inv] in auto)
  then have "conns_inv ?K ?s" by (simp add: conns_inv_def fd_in_range_def)
  then have run: "running False ?K {8} ?s"
    using sample_server_inv_loop
    by (auto simp: running_def server_inv_def heap_fresh_def descriptors_ok_def write_interest_def
        outgoing_of_def accepted_def)
  have "k_recv ?K (io_trace ?s) 8 MAX_BUFFER_SIZE MSG_WAITALL = (0, [])" by simp
  moreover have "mContainer ?s \<noteq> []" "2 = last (mContainer ?s)" "srv_mCallback ?s"
    "sc_heap ?s 2 = Some (accepted sample_kernel 8 ''bob'')"
    "sc_mSocket (accepted sample_kernel 8 ''bob'') = 8"
    by (simp_all add: accepted_def) (simp add: sample_server_def)
  ultimately show ?thesis
    using server_disconnect_leaves_write_interest [OF run, of 2 "accepted sample_kernel 8 ''bob''" 8]
    by blast
qed

end
