(* ===== verification/Server_Threads.thy ===== *)
theory Server_Threads
  imports Posix_Server_Loop
begin

text \<open>
  The posix server with its loop and any number of threads that send, statement by statement.
  \<open>Posix_Server\<close> runs the calls of other threads while the loop is blocked; here a call of
  \<open>send\<close> is four steps (look the connection up, set the write set, queue the bytes, wake the
  loop up), an iteration of the loop is the copy of the sets, the \<open>select\<close>, and for every
  descriptor the read branch, the wake-up branch and the three statements of the write branch.
  A schedule is any list of labels: it says whose step is next. A history variable records
  the bytes that were queued on a connection; what the kernel was given is in the trace.
  A statement is atomic here, and so is the whole read branch of a descriptor (the \<open>accept\<close>
  with its handshake, or a \<open>receive\<close> with what follows it): no other thread runs inside it.
  What two threads do inside the same container at the same time is not modelled. An exception
  that leaves the loop ends the run. Calls of \<open>broadcast\<close>, which walk over the container
  itself, are not among the calls.
\<close>

section \<open>The threads\<close>

datatype sender =
    Send_find bytes bytes
  | Send_watch bytes addr
  | Send_queue bytes addr
  | Send_wake
  | Send_over

datatype loop_pc =
    At_loop_test
  | At_select int "int set" "int set"
  | At_read int int "int set" "int set"
  | At_drain int int "int set" "int set"
  | At_write int int "int set" "int set"
  | At_send addr int int "int set" "int set"
  | At_clear int int "int set" "int set"
  | Returned

fun sender_step :: "posix \<Rightarrow> sender \<Rightarrow> ('a server_scheme, sender) act" where
  "sender_step K (Send_find d ident) =
     bindE (on_connections (Connections_getServerConnection_id ident)) (\<lambda>p.
       if p \<noteq> null then ret (Send_watch d p)
       else throw (Runtime_error (''Connection not found: '' @ ident)))"
| "sender_step K (Send_watch d p) =
     bindE (ServerConnection_getSocket p) (\<lambda>sckt.
     seqE (check_fd K sckt)
    (seqE (modify (\<lambda>s. s\<lparr>mMasterWrite := insert sckt (mMasterWrite s)\<rparr>))
       (ret (Send_queue d p))))"
| "sender_step K (Send_queue d p) = seqE (ServerConnection_addQueuedMessage p d) (ret Send_wake)"
| "sender_step K Send_wake = seqE (Server_performWakeup K) (ret Send_over)"
| "sender_step K Send_over = ret Send_over"

fun loop_step :: "posix \<Rightarrow> int \<Rightarrow> loop_pc \<Rightarrow> ('a server_scheme, loop_pc) act" where
  "loop_step K serverMax At_loop_test =
     bindE (gets mHasBeenShutdown) (\<lambda>down.
       if down then ret Returned
       else
         bindE (on_connections Connections_getMax) (\<lambda>connMax.
         bindE (gets mRead) (\<lambda>masterRead.
         bindE (gets mMasterWrite) (\<lambda>masterWrite.
         ret (At_select (max serverMax connMax) masterRead masterWrite)))))"
| "loop_step K serverMax (At_select fdmax masterRead masterWrite) =
     bindE (sys_select K (fdmax + 1) masterRead masterWrite) (\<lambda>(numfds, readFds, writeFds).
     if numfds = -1 then throw_errno K ''select error ''
     else
       bindE (gets mHasBeenShutdown) (\<lambda>down.
       ret (if down then Returned else At_read 0 fdmax readFds writeFds)))"
| "loop_step K serverMax (At_read i fdmax readFds writeFds) =
     (if i > fdmax then ret At_loop_test
      else
        seqE (bindE (FD_ISSET K i readFds) (\<lambda>readable.
                whenE readable
                  (bindE connect_socket (\<lambda>fd.
                   if i = fd then Server_accept K else Server_handleServerConnection K i))))
          (ret (At_drain i fdmax readFds writeFds)))"
| "loop_step K serverMax (At_drain i fdmax readFds writeFds) =
     seqE (Server_drain_wakeup K readFds) (ret (At_write i fdmax readFds writeFds))"
| "loop_step K serverMax (At_write i fdmax readFds writeFds) =
     bindE (FD_ISSET K i writeFds) (\<lambda>writable.
       if writable
       then
         bindE (on_connections (Connections_getServerConnection_fd i)) (\<lambda>p.
         ret (if p \<noteq> null then At_send p i fdmax readFds writeFds
              else At_clear i fdmax readFds writeFds))
       else ret (At_read (i + 1) fdmax readFds writeFds))"
| "loop_step K serverMax (At_send p i fdmax readFds writeFds) =
     bindE Server_getCallback (\<lambda>cb.
     seqE (ServerConnection_sendQueuedMessage K cb p)
       (ret (At_clear i fdmax readFds writeFds)))"
| "loop_step K serverMax (At_clear i fdmax readFds writeFds) =
     seqE (modify (\<lambda>s. s\<lparr>mMasterWrite := mMasterWrite s - {i}\<rparr>))
       (ret (At_read (i + 1) fdmax readFds writeFds))"
| "loop_step K serverMax Returned = ret Returned"

declare loop_step.simps [simp del]

section \<open>Uninterrupted, the steps are the operations\<close>

lemma sender_steps_send:
  "run_steps (sender_step K) 4 (Send_find d ident) = seqE (Server_send K d ident) (ret Send_over)"
  by (rule ext) (auto simp: numeral_eq_Suc Server_send_def Server_send_connection_def bindE_def seqE_def
      act_simps throw_def split: prod.splits sum.splits)

lemma seqE_seqE_cong:
  "v (snd (n (snd (m s)))) = w (snd (n (snd (m s)))) \<Longrightarrow> seqE m (seqE n v) s = seqE m (seqE n w) s"
  by (auto simp: seqE_def bindE_def split: prod.splits sum.splits)

text \<open>The steps at the write branch of one descriptor.\<close>

lemma loop_steps_write:
  "\<exists>n. run_steps (loop_step K serverMax) n (At_write i fdmax rd wr) s =
    seqE (bindE (FD_ISSET K i wr) (\<lambda>writable. whenE writable (Server_write K i)))
      (ret (At_read (i + 1) fdmax rd wr)) s"
proof (cases "FD_ISSET K i wr s")
  case (Pair r t)
  show ?thesis
  proof (cases "\<exists>p. r = Inr True \<and> on_connections (Connections_getServerConnection_fd i) t = (Inr p, t) \<and> p \<noteq> null")
    case True
    then show ?thesis
      by (intro exI [of _ 3]) (auto simp: Pair numeral_eq_Suc loop_step.simps Server_write_def
          bindE_def seqE_def act_simps split: prod.splits sum.splits)
  next
    case False
    have "on_connections (Connections_getServerConnection_fd i) t =
      (case on_connections (Connections_getServerConnection_fd i) t of (r, _) \<Rightarrow> (r, t))"
      by (auto simp: on_connections_def bindE_def act_simps Connections_getServerConnection_fd_def
          split: sum.splits option.splits)
    then show ?thesis
      using False
      by (intro exI [of _ "if r = Inr True then 2 else 1"]) (cases r; auto simp: Pair numeral_eq_Suc loop_step.simps Server_write_def
          bindE_def seqE_def act_simps split: prod.splits sum.splits)
  qed
qed

text \<open>The steps at one descriptor, and the place where the loop goes on.\<close>

lemma loop_steps_fd:
  assumes "i \<le> fdmax"
  shows "\<exists>n. run_steps (loop_step K serverMax) n (At_read i fdmax rd wr) s =
    seqE (Server_fd_step K rd wr i) (ret (At_read (i + 1) fdmax rd wr)) s"
proof -
  let ?read = "bindE (FD_ISSET K i rd) (\<lambda>readable. whenE readable (bindE connect_socket (\<lambda>fd.
      if i = fd then Server_accept K else Server_handleServerConnection K i)))"
  have run: "run_steps (loop_step K serverMax) (Suc (Suc n)) (At_read i fdmax rd wr) =
    seqE ?read (seqE (Server_drain_wakeup K rd) (run_steps (loop_step K serverMax) n (At_write i fdmax rd wr)))" for n
    using assms by (simp add: loop_step.simps seqE_def bindE_assoc ret_bindE)
  have step: "seqE (Server_fd_step K rd wr i) k =
    seqE ?read (seqE (Server_drain_wakeup K rd)
      (seqE (bindE (FD_ISSET K i wr) (\<lambda>writable. whenE writable (Server_write K i))) k))" for k :: "(_, loop_pc) act"
    by (simp add: Server_fd_step_def seqE_def bindE_assoc)
  obtain n where "run_steps (loop_step K serverMax) n (At_write i fdmax rd wr) (snd (Server_drain_wakeup K rd (snd (?read s)))) =
    seqE (bindE (FD_ISSET K i wr) (\<lambda>writable. whenE writable (Server_write K i)))
      (ret (At_read (i + 1) fdmax rd wr)) (snd (Server_drain_wakeup K rd (snd (?read s))))"
    using loop_steps_write by blast
  then show ?thesis
    unfolding step by (intro exI [of _ "Suc (Suc n)"], unfold run) (rule seqE_seqE_cong)
qed

lemma loop_steps_fds:
  "0 \<le> i \<Longrightarrow> \<exists>n. run_steps (loop_step K serverMax) n (At_read i fdmax rd wr) s =
    seqE (for_each (Server_fd_step K rd wr) [i..fdmax]) (ret At_loop_test) s"
proof (induction "nat (fdmax + 1 - i)" arbitrary: i s)
  case 0
  then show ?case
    by (intro exI [of _ 1]) (simp add: loop_step.simps ret_bindE seqE_def bindE_def act_simps)
next
  case (Suc k)
  then have i: "i \<le> fdmax" by simp
  obtain n where n: "run_steps (loop_step K serverMax) n (At_read i fdmax rd wr) s =
    seqE (Server_fd_step K rd wr i) (ret (At_read (i + 1) fdmax rd wr)) s"
    using loop_steps_fd [OF i] by blast
  have "\<exists>k. run_steps (loop_step K serverMax) k (At_read i fdmax rd wr) s =
    bindE (Server_fd_step K rd wr i)
      (\<lambda>_. seqE (for_each (Server_fd_step K rd wr) [i + 1..fdmax]) (ret At_loop_test)) s"
    by (rule run_steps_then [OF n [unfolded seqE_def]]) (use Suc in auto)
  then show ?case using i by (simp add: upto_rec1 seqE_def bindE_assoc)
qed

section \<open>The system\<close>

record threaded = server +
  th_senders :: "sender list"
  th_loop :: loop_pc
  th_queued :: "addr \<Rightarrow> bytes"

text \<open>
  A label is a call of \<open>send\<close> or of \<open>shutdown\<close> by a new thread, a step of a thread that
  sends, or a step of the loop. An exception ends the thread that made the call.
\<close>

datatype label = Call bytes bytes | Call_shutdown | Sender nat | Loop

fun note_queued :: "sender \<Rightarrow> 'a threaded_scheme \<Rightarrow> 'a threaded_scheme" where
  "note_queued (Send_queue d p) s = s\<lparr>th_queued := (th_queued s)(p := d @ th_queued s p)\<rparr>"
| "note_queued _ s = s"

definition sender_run :: "posix \<Rightarrow> nat \<Rightarrow> ('a threaded_scheme, unit) act" where
  "sender_run K n =
     bindE (gets th_senders) (\<lambda>ts.
       if n < length ts
       then
         seqE (modify (note_queued (ts ! n)))
        (bindE (tryE (sender_step K (ts ! n)) (\<lambda>_. ret Send_over)) (\<lambda>t.
         modify (\<lambda>s. s\<lparr>th_senders := (th_senders s)[n := t]\<rparr>)))
       else skip)"

definition loop_run :: "posix \<Rightarrow> int \<Rightarrow> ('a threaded_scheme, unit) act" where
  "loop_run K serverMax =
     bindE (gets th_loop) (\<lambda>pc.
     bindE (loop_step K serverMax pc) (\<lambda>pc'.
     modify (\<lambda>s. s\<lparr>th_loop := pc'\<rparr>)))"

fun thread_run :: "posix \<Rightarrow> int \<Rightarrow> label \<Rightarrow> ('a threaded_scheme, unit) act" where
  "thread_run K serverMax (Call d ident) =
     modify (\<lambda>s. s\<lparr>th_senders := th_senders s @ [Send_find d ident]\<rparr>)"
| "thread_run K serverMax Call_shutdown = Server_shutdown K"
| "thread_run K serverMax (Sender n) = sender_run K n"
| "thread_run K serverMax Loop = loop_run K serverMax"

definition threads_run :: "posix \<Rightarrow> int \<Rightarrow> label list \<Rightarrow> ('a threaded_scheme, unit) act" where
  "threads_run K serverMax labels = for_each (thread_run K serverMax) labels"

section \<open>Uninterrupted, the loop is an iteration\<close>

text \<open>
  Taken without interruption, the statements of the loop do exactly what one iteration of
  \<open>waitForEvents\<close> does in the model that runs it as a whole: from every state of a running
  server some number of steps gives the same state and the same result or exception, and
  leaves the loop at its test, or returned after a shutdown.
\<close>

theorem server_steps_are_iteration:
  assumes "\<not> mHasBeenShutdown s"
  shows "\<exists>n. run_steps (loop_step K serverMax) n At_loop_test s =
    bindE (Server_iteration K serverMax []) (\<lambda>left. ret (if left then Returned else At_loop_test)) s"
proof (cases "mConnections s = Connections_ptr")
  case False
  then show ?thesis
    using assms by (intro exI [of _ 1])
      (simp add: loop_step.simps Server_iteration_def on_connections_def bindE_def act_simps)
next
  case True
  let ?m = "max serverMax (mFdMax s)"
  obtain num rd wr where sel: "k_select K (io_trace s) (?m + 1) (mRead s) (mMasterWrite s) = (num, rd, wr)"
    by (cases "k_select K (io_trace s) (?m + 1) (mRead s) (mMasterWrite s)")
  let ?t = "s\<lparr>io_trace := io_trace s @ [Ev_select (?m + 1) (mRead s) (mMasterWrite s) num rd wr]\<rparr>"
  obtain n where n: "run_steps (loop_step K serverMax) n (At_read 0 ?m rd wr) ?t =
    seqE (for_each (Server_fd_step K rd wr) [0..?m]) (ret At_loop_test) ?t"
    using loop_steps_fds [of 0 K serverMax ?m rd wr ?t] by auto
  show ?thesis
  proof (cases "num = -1")
    case True
    then show ?thesis
      using assms sel \<open>mConnections s = Connections_ptr\<close>
      by (intro exI [of _ 2]) (simp add: numeral_eq_Suc loop_step.simps Server_iteration_def on_connections_def
        other_threads_def Connections_getMax_def sys_select_def bindE_def seqE_def act_simps throw_errno_def)
  next
    case False
    then show ?thesis
      using assms sel \<open>mConnections s = Connections_ptr\<close> n
      by (intro exI [of _ "Suc (Suc n)"]) (simp add: loop_step.simps Server_iteration_def on_connections_def
        other_threads_def Connections_getMax_def sys_select_def bindE_def seqE_def act_simps
        split: prod.splits sum.splits)
  qed
qed

theorem server_steps_are_iteration_witness:
  "\<exists>n. run_steps (loop_step pipe_kernel 4) n At_loop_test idle_server =
    bindE (Server_iteration pipe_kernel 4 []) (\<lambda>left. ret (if left then Returned else At_loop_test)) idle_server"
  by (rule server_steps_are_iteration) (simp add: idle_server_def waiting_server_def server_blank_def)

end
