(* ===== verification/Server_Thread_Facts.thy ===== *)
theory Server_Thread_Facts
  imports Server_Threads "HOL-Library.Multiset"
begin

text \<open>
  What holds in every interleaving of the posix server's loop with the threads that send:
  the bytes queued on a connection, with the "ack" of its handshake, are the bytes that the
  trace hands to the kernel on its descriptor and those still pending, and a connection is used after it was freed only when a peer has left.
\<close>

section \<open>What the kernel was given\<close>

text \<open>
  The bytes that a trace hands to \<open>::send\<close> on a descriptor since it was last returned by
  \<open>accept\<close>: what the process has asked the kernel to send on the present connection.
\<close>

fun sent_step :: "int \<Rightarrow> bytes \<Rightarrow> event \<Rightarrow> bytes" where
  "sent_step fd sent (Ev_accept srv r) = (if r = fd \<and> r \<noteq> -1 then [] else sent)"
| "sent_step fd sent (Ev_send fd' d r) = (if fd' = fd then sent @ d else sent)"
| "sent_step fd sent _ = sent"

definition sent_since :: "int \<Rightarrow> event list \<Rightarrow> bytes" where
  "sent_since fd tr = foldl (sent_step fd) [] tr"

lemma sent_since_append: "sent_since fd (a @ b) = foldl (sent_step fd) (sent_since fd a) b"
  by (simp add: sent_since_def)

text \<open>Calls that neither make nor close a descriptor and send nothing.\<close>

fun quiet :: "event \<Rightarrow> bool" where
  "quiet (Ev_socket r) = False"
| "quiet (Ev_accept srv r) = False"
| "quiet (Ev_pipe r a b) = False"
| "quiet (Ev_send fd d r) = False"
| "quiet (Ev_close fd) = False"
| "quiet _ = True"

lemma quiet_step: "quiet e \<Longrightarrow> sent_step fd sent e = sent \<and> track_fd S e = S"
  by (cases e) simp_all

lemma quiet_trace:
  assumes "\<forall>e \<in> set es. quiet e"
  shows "sent_since fd (tr @ es) = sent_since fd tr" "open_fds (tr @ es) = open_fds tr"
proof -
  have "foldl (sent_step fd) sent es = sent \<and> foldl track_fd S es = S" for sent S
    using assms by (induction es) (simp_all add: quiet_step)
  then show "sent_since fd (tr @ es) = sent_since fd tr" "open_fds (tr @ es) = open_fds tr"
    by (simp_all add: sent_since_append open_fds_append)
qed

text \<open>Documented behaviour: \<open>accept\<close> on a descriptor that is not open fails.\<close>

definition accept_needs_open :: "posix \<Rightarrow> bool" where
  "accept_needs_open K \<longleftrightarrow> (\<forall>tr fd. fd \<notin> open_fds tr \<longrightarrow> k_accept K tr fd = -1)"

section \<open>No byte is lost or repeated\<close>

text \<open>
  The books of one connection: its descriptor is open and is not the listener's \<open>l\<close>, and what
  was queued on it, with the "ack" of the handshake, is what the kernel was given and what is
  pending. Two connections never share a descriptor.
\<close>

definition booked :: "int \<Rightarrow> event list \<Rightarrow> bytes \<Rightarrow> server_connection \<Rightarrow> bool" where
  "booked l tr queued c \<longleftrightarrow>
     sc_mSocket c \<noteq> l \<and> sc_mSocket c \<in> open_fds tr \<and>
     mset queued + mset ''ack'' = mset (sent_since (sc_mSocket c) tr) + mset (mOutgoingBytes c)"

definition bytes_kept :: "int \<Rightarrow> 'a threaded_scheme \<Rightarrow> bool" where
  "bytes_kept l s \<longleftrightarrow> heap_fresh s \<and> mConnectSocket s = Some \<lparr>mSocket = l\<rparr> \<and>
     (\<forall>p c. sc_heap s p = Some c \<longrightarrow> booked l (io_trace s) (th_queued s p) c) \<and>
     (\<forall>p q c d. sc_heap s p = Some c \<longrightarrow> sc_heap s q = Some d \<longrightarrow> sc_mSocket c = sc_mSocket d \<longrightarrow> p = q) \<and>
     (\<forall>p \<ge> sc_next s. th_queued s p = [])"

lemma bytes_keptD:
  assumes "bytes_kept l s"
  shows "heap_fresh s" "mConnectSocket s = Some \<lparr>mSocket = l\<rparr>"
    "sc_heap s p = Some c \<Longrightarrow> booked l (io_trace s) (th_queued s p) c"
    "sc_heap s p = Some c \<Longrightarrow> sc_heap s q = Some d \<Longrightarrow> sc_mSocket c = sc_mSocket d \<Longrightarrow> p = q"
    "sc_next s \<le> p \<Longrightarrow> th_queued s p = []"
  using assms unfolding bytes_kept_def by blast+

lemma bytes_keptI:
  assumes "heap_fresh s" and "mConnectSocket s = Some \<lparr>mSocket = l\<rparr>"
    and "\<And>p c. sc_heap s p = Some c \<Longrightarrow> booked l (io_trace s) (th_queued s p) c"
    and "\<And>p q c d. sc_heap s p = Some c \<Longrightarrow> sc_heap s q = Some d \<Longrightarrow> sc_mSocket c = sc_mSocket d \<Longrightarrow> p = q"
    and "\<And>p. sc_next s \<le> p \<Longrightarrow> th_queued s p = []"
  shows "bytes_kept l s"
  using assms unfolding bytes_kept_def by blast

lemma bytes_kept_updates [simp]:
  "bytes_kept l (s\<lparr>mContainer := xs\<rparr>) = bytes_kept l s"
  "bytes_kept l (s\<lparr>mMapping := m\<rparr>) = bytes_kept l s"
  "bytes_kept l (s\<lparr>mRead := R\<rparr>) = bytes_kept l s"
  "bytes_kept l (s\<lparr>mFdMax := k\<rparr>) = bytes_kept l s"
  "bytes_kept l (s\<lparr>mMasterWrite := W\<rparr>) = bytes_kept l s"
  "bytes_kept l (s\<lparr>srv_mBuffer := b\<rparr>) = bytes_kept l s"
  "bytes_kept l (s\<lparr>mHasBeenShutdown := d\<rparr>) = bytes_kept l s"
  "bytes_kept l (s\<lparr>th_senders := ts\<rparr>) = bytes_kept l s"
  "bytes_kept l (s\<lparr>th_loop := pc\<rparr>) = bytes_kept l s"
  by (simp_all add: bytes_kept_def heap_fresh_def)

lemma bytes_kept_quiet:
  assumes "bytes_kept l s" and "\<forall>e \<in> set es. quiet e"
  shows "bytes_kept l (s\<lparr>io_trace := io_trace s @ es\<rparr>)"
  using assms by (simp add: bytes_kept_def heap_fresh_def booked_def quiet_trace)

lemma bytes_kept_close_listener:
  assumes "bytes_kept l s"
  shows "bytes_kept l (s\<lparr>io_trace := io_trace s @ close_events K tr l\<rparr>)"
  using assms by (simp add: bytes_kept_def heap_fresh_def booked_def close_events_def sent_since_append open_fds_append)

lemma bytes_kept_dealloc:
  assumes "bytes_kept l s" and "sc_heap s p = Some c"
  shows "bytes_kept l (sc_dealloc p (s\<lparr>io_trace := io_trace s @ close_events K tr (sc_mSocket c)\<rparr>))"
  using assms
  by (fastforce simp: bytes_kept_def heap_fresh_def booked_def sc_dealloc_def close_events_def
      sent_since_append open_fds_append)

lemma bytes_kept_object:
  assumes "bytes_kept l s" and "sc_heap s p = Some c"
    and "sc_mSocket c' = sc_mSocket c" and "mOutgoingBytes c' = mOutgoingBytes c"
  shows "bytes_kept l (s\<lparr>sc_heap := (sc_heap s)(p \<mapsto> c')\<rparr>)"
  using assms unfolding bytes_kept_def by (auto simp: booked_def heap_fresh_def split: if_splits)

lemma keeps_update_pending [keeps_intros]:
  "(\<And>c. sc_mSocket (f c) = sc_mSocket c \<and> mOutgoingBytes (f c) = mOutgoingBytes c) \<Longrightarrow>
     keeps True (bytes_kept l) (update_at p f)"
  by (rule keepsI) (simp add: wp_simps bytes_kept_object split: option.splits)

lemma keeps_bytes_basic [keeps_intros]:
  "keeps True (bytes_kept l) (deref p)"
  "keeps True (bytes_kept l) (sys_recv K fd n f)"
  "keeps True (bytes_kept l) (sys_poll K fd i)"
  "keeps True (bytes_kept l) (sys_select K k rd wr)"
  "keeps True (bytes_kept l) (throw_errno K msg)"
  "keeps True (bytes_kept l) (call_callback cb cbe)"
  "keeps True (bytes_kept l) (check_fd K fd)"
  "keeps True (bytes_kept l) connect_socket"
  "keeps True (bytes_kept l) (delete_ServerConnection K p)"
  "keeps True (bytes_kept l) (Server_performWakeup K)"
  by (rule keepsI; simp add: wp_simps Let_def bytes_kept_dealloc bytes_kept_quiet wakeup_events_def
      split: option.splits prod.splits)+

lemma keeps_bytes_connections [keeps_intros]:
  "keeps True (bytes_kept l) m \<Longrightarrow> keeps True (bytes_kept l) (on_connections m)"
  "keeps True (bytes_kept l) (ServerConnection_getSocket p)"
  "keeps True (bytes_kept l) (ServerConnection_getIdentifier p)"
  "keeps True (bytes_kept l) (Connections_getServerConnection_id ident)"
  "keeps True (bytes_kept l) (FD_ISSET K fd S)"
  "keeps True (bytes_kept l) Connections_getMax"
  by (simp_all add: Connections_getMax_def on_connections_def ServerConnection_getSocket_def ServerConnection_getIdentifier_def
      Connections_getServerConnection_id_def FD_ISSET_def) (intro keeps_intros; simp?)+

lemma keeps_bytes_find [keeps_intros]: "keeps True (bytes_kept l) (Connections_getServerConnection_fd fd)"
proof (rule keepsI)
  fix s :: "'a threaded_scheme"
  have "\<exists>u. fault = Undefined_behaviour u" if "find_if_conn h fd ps = Inl fault" for h ps fault
    using that by (induction h fd ps rule: find_if_conn.induct) (auto split: option.splits if_splits)
  moreover assume "bytes_kept l s"
  ultimately show "wp (Connections_getServerConnection_fd fd) (\<lambda>_. bytes_kept l) (after_fault True (bytes_kept l)) s"
    by (fastforce simp: wp_def Connections_getServerConnection_fd_def split: sum.splits option.splits)
qed

lemma keeps_bytes_remove [keeps_intros]: "keeps True (bytes_kept l) (Connections_removeServerConnection K fd)"
  unfolding Connections_removeServerConnection_def remove_if_conn_def recompute_max_def
  by (intro keeps_intros) simp_all

lemma keeps_bytes_receive [keeps_intros]: "keeps True (bytes_kept l) (ServerConnection_performReceive K p)"
  unfolding ServerConnection_performReceive_def by (intro keeps_intros) simp_all

lemma keeps_bytes_handle [keeps_intros]: "keeps True (bytes_kept l) (Server_handleServerConnection K fd)"
  unfolding Server_handleServerConnection_def Server_getCallback_def by (intro keeps_intros)

text \<open>A connection that the constructor made owes the three bytes of its handshake to nobody.\<close>

lemma bytes_kept_built:
  assumes K: "accept_fresh K" "accept_needs_open K" and kept: "bytes_kept l s" and built: "built K l s p t"
  shows "bytes_kept l t"
proof -
  define k where "k = k_accept K (io_trace s) l"
  note D = bytes_keptD [OF kept]
  obtain x r pr ident where kn: "k \<noteq> -1" and p: "p = sc_next s"
    and t: "t = s\<lparr>sc_next := Suc p, io_trace := io_trace s @ handshake_events K l k x r pr ident,
              sc_heap := (sc_heap s)(p \<mapsto> accepted K k ident)\<rparr>"
    using built unfolding built_def k_def by blast
  have "k \<notin> open_fds (io_trace s)" and "l \<in> open_fds (io_trace s)"
    using K kn unfolding accept_fresh_def accept_needs_open_def k_def by metis+
  then have new: "sc_mSocket c \<noteq> k" if "sc_heap s q = Some c" for q c
    using D(3) [OF that] unfolding booked_def by blast
  have lk: "l \<noteq> k" using \<open>k \<notin> open_fds (io_trace s)\<close> \<open>l \<in> open_fds (io_trace s)\<close> by blast
  have fresh: "heap_fresh s" "sc_heap s p = None" using D(1) unfolding p heap_fresh_def by simp_all
  let ?tr = "io_trace s @ handshake_events K l k x r pr ident"
  have old: "booked l ?tr (th_queued s q) c" if "sc_heap s q = Some c" for q c
    using D(3) [OF that] new [OF that]
    by (simp add: booked_def handshake_events_def sent_since_append open_fds_append)
  have own: "booked l ?tr (th_queued s p) (accepted K k ident)"
    using D(5) [of p] lk kn unfolding p
    by (simp add: booked_def accepted_def handshake_events_def sent_since_append open_fds_append)
  have inj: "q = q'" if "sc_heap t q = Some c" "sc_heap t q' = Some d" "sc_mSocket c = sc_mSocket d" for q q' c d
  proof -
    have "q \<noteq> p \<Longrightarrow> q' \<noteq> p \<Longrightarrow> q = q'" using that D(4) [of q c q' d] by (simp add: t)
    then show ?thesis using that new [of q c] new [of q' d] by (auto simp: t accepted_def split: if_splits)
  qed
  have books: "booked l (io_trace t) (th_queued t q) c" if "sc_heap t q = Some c" for q c
    using that old [of q c] own by (cases "q = p") (simp_all add: t)
  have rest: "heap_fresh t" "mConnectSocket t = Some \<lparr>mSocket = l\<rparr>" "sc_next t \<le> q \<Longrightarrow> th_queued t q = []" for q
    using D(1,2) D(5) [of q] by (simp_all add: t p heap_fresh_def)
  show ?thesis
    by (rule bytes_keptI [OF rest(1,2) books inj rest(3)])
qed

lemma failed_handshake_others:
  assumes "failed_handshake K k es" and "k \<noteq> fd"
  shows "sent_since fd (tr @ Ev_accept l k # es) = sent_since fd tr"
    and "fd \<in> open_fds (tr @ Ev_accept l k # es) \<longleftrightarrow> fd \<in> open_fds tr"
proof -
  have "\<forall>e \<in> set es. quiet e \<or> (\<exists>d r. e = Ev_send k d r)"
    using assms(1) unfolding failed_handshake_def by auto
  then have "foldl (sent_step fd) sent es = sent \<and> foldl track_fd S es = S" for sent S
    using assms(2) by (induction es) (auto simp: quiet_step)
  then show "sent_since fd (tr @ Ev_accept l k # es) = sent_since fd tr"
    "fd \<in> open_fds (tr @ Ev_accept l k # es) \<longleftrightarrow> fd \<in> open_fds tr"
    using assms(2) by (simp_all add: sent_since_append open_fds_append)
qed

lemma bytes_kept_not_built:
  assumes K: "accept_fresh K" and kept: "bytes_kept l s" and failed: "not_built K l s e t"
  shows "bytes_kept l t"
proof -
  define k where "k = k_accept K (io_trace s) l"
  note D = bytes_keptD [OF kept]
  obtain es where hs: "failed_handshake K k es"
    and t: "t = s\<lparr>sc_next := Suc (sc_next s), io_trace := io_trace s @ Ev_accept l k # es,
              sc_heap := (sc_heap s)(sc_next s := None)\<rparr>"
    using failed unfolding not_built_def k_def by blast
  have k: "k = -1 \<or> k \<notin> open_fds (io_trace s)"
    using K unfolding accept_fresh_def k_def by blast
  have books: "booked l (io_trace s @ Ev_accept l k # es) (th_queued s q) c" if "sc_heap s q = Some c" for q c
  proof (cases "k = sc_mSocket c")
    case False
    then show ?thesis using D(3) [OF that] failed_handshake_others [OF hs] by (simp add: booked_def)
  next
    case True
    then have "k = -1" using k D(3) [OF that] by (simp add: booked_def)
    then show ?thesis
      using True D(3) [OF that] hs by (simp add: booked_def failed_handshake_def sent_since_append open_fds_append)
  qed
  have heap: "sc_heap t = sc_heap s" using D(1) by (simp add: t heap_fresh_def fun_upd_idem)
  have rest: "heap_fresh t" "mConnectSocket t = Some \<lparr>mSocket = l\<rparr>" "sc_next t \<le> q \<Longrightarrow> th_queued t q = []" for q
    using D(1,2) D(5) [of q] by (simp_all add: t heap_fresh_def)
  have "booked l (io_trace t) (th_queued t q) c" if "sc_heap t q = Some c" for q c
    using books [of q c] that unfolding heap by (simp add: t)
  moreover have "q = q'" if "sc_heap t q = Some c" "sc_heap t q' = Some d" "sc_mSocket c = sc_mSocket d" for q q' c d
    using D(4) that unfolding heap by blast
  ultimately show ?thesis
    by (rule bytes_keptI [OF rest(1,2) _ _ rest(3)])
qed

lemma keeps_bytes_accept:
  assumes fits: "recv_fits K" and K: "accept_fresh K" "accept_needs_open K"
  shows "keeps True (bytes_kept l) (Server_accept K)"
proof (rule keepsI)
  fix s :: "'a threaded_scheme"
  assume kept: "bytes_kept l s"
  let ?I = "bytes_kept l"
  let ?rest = "\<lambda>client. bindE Server_getCallback (\<lambda>cb.
        bindE (ServerConnection_getIdentifier client) (\<lambda>ident.
        seqE (call_callback cb (Cb_connected ident))
          (on_connections (Connections_addServerConnection K client))))"
  let ?E = "\<lambda>e s'. case e of Runtime_error x \<Rightarrow> wp skip (\<lambda>_. ?I) (after_fault True ?I) s' | _ \<Rightarrow> after_fault True ?I e s'"
  have handle: "after_fault True ?I e t \<Longrightarrow> ?E e t" for e and t :: "'a threaded_scheme"
    by (cases e) (simp_all add: wp_skip)
  have "keeps True ?I (?rest p :: ('a threaded_scheme, unit) act)" for p
    unfolding Server_getCallback_def Connections_addServerConnection_def by (intro keeps_intros) simp_all
  then have rest: "wp (?rest p) (\<lambda>_. ?I) ?E t" if "?I t" for p and t :: "'a threaded_scheme"
    by (rule wp_mono [OF keeps_wp]) (use that handle in auto)
  have "wp (bindE (new_ServerConnection K l) ?rest) (\<lambda>_. ?I) ?E s"
    unfolding wp_bindE [of "new_ServerConnection K l"]
  proof (rule wp_mono [OF new_ServerConnection_wp [OF fits]])
    show "wp (?rest p) (\<lambda>_. ?I) ?E t" if "built K l s p t" for p t
      by (rule rest [OF bytes_kept_built [OF K kept that]])
    show "?E e t" if "not_built K l s e t" for e t
      using bytes_kept_not_built [OF K(1) kept that] by (intro handle) (cases e; use that in \<open>simp add: not_built_def\<close>)
  qed
  then show "wp (Server_accept K) (\<lambda>_. ?I) (after_fault True ?I) s"
    using bytes_keptD(2) [OF kept] by (simp add: Server_accept_def wp_tryE wp_bindE [of connect_socket] wp_connect_socket)
qed

lemma keeps_bytes_drain [keeps_intros]: "keeps True (bytes_kept l) (Server_drain_wakeup K rd)"
  unfolding Server_drain_wakeup_def by (intro keeps_intros) simp_all

lemma keeps_bytes_shutdown: "keeps True (bytes_kept l) (Server_shutdown K)"
proof -
  have "keeps True (bytes_kept l) (Server_close_listener K)"
    by (rule keepsI) (simp add: Server_close_listener_def wp_simps bytes_keptD(2) bytes_kept_close_listener)
  then show ?thesis
    unfolding Server_shutdown_def by (intro keeps_intros) simp_all
qed

text \<open>A message is queued, and the pending bytes are handed to the kernel.\<close>

lemma bytes_kept_enqueue:
  assumes "bytes_kept l s" and "sc_heap s p = Some c"
  shows "bytes_kept l (s\<lparr>th_queued := (th_queued s)(p := d @ th_queued s p),
    sc_heap := (sc_heap s)(p \<mapsto> c\<lparr>mOutgoingBytes := d @ mOutgoingBytes c\<rparr>)\<rparr>)"
proof -
  have "p < sc_next s"
    using assms(2) bytes_keptD(1) [OF assms(1)] by (cases "p < sc_next s") (simp_all add: heap_fresh_def)
  moreover have "booked l (io_trace s) (d @ th_queued s p) (c\<lparr>mOutgoingBytes := d @ mOutgoingBytes c\<rparr>)"
    using bytes_keptD(3) [OF assms] by (simp add: booked_def union_ac del: mset.simps)
  ultimately show ?thesis
    using assms unfolding bytes_kept_def by (auto simp: heap_fresh_def split: if_splits)
qed

lemma bytes_kept_send:
  assumes "bytes_kept l s" and "sc_heap s p = Some c" and "\<forall>e \<in> set es. quiet e"
  shows "bytes_kept l (s\<lparr>sc_heap := (sc_heap s)(p \<mapsto> c\<lparr>mOutgoingBytes := []\<rparr>),
    io_trace := io_trace s @ Ev_send (sc_mSocket c) (mOutgoingBytes c) r # es\<rparr>)"
proof -
  note D = bytes_keptD [OF assms(1)]
  let ?e = "Ev_send (sc_mSocket c) (mOutgoingBytes c) r"
  have "booked l (io_trace s @ [?e]) (th_queued s q) d" if "sc_heap s q = Some d" "q \<noteq> p" for q d
    using D(3) [OF that(1)] D(4) [OF that(1) assms(2)] that(2)
    by (auto simp: booked_def sent_since_append)
  moreover have "booked l (io_trace s @ [?e]) (th_queued s p) (c\<lparr>mOutgoingBytes := []\<rparr>)"
    using D(3) [OF assms(2)] by (simp add: booked_def sent_since_append)
  ultimately have "bytes_kept l (s\<lparr>sc_heap := (sc_heap s)(p \<mapsto> c\<lparr>mOutgoingBytes := []\<rparr>), io_trace := io_trace s @ [?e]\<rparr>)"
    using assms(1,2) unfolding bytes_kept_def by (auto simp: heap_fresh_def split: if_splits)
  from bytes_kept_quiet [OF this assms(3)] show ?thesis by simp
qed

lemma keeps_bytes_sender: "keeps True (bytes_kept l) (sender_run K n)"
proof -
  have "keeps True (bytes_kept l) (seqE (modify (note_queued t))
      (bindE (tryE (sender_step K t) (\<lambda>_. ret Send_over)) (\<lambda>t.
       modify (\<lambda>s :: 'a threaded_scheme. s\<lparr>th_senders := (th_senders s)[n := t]\<rparr>))))" for t
  proof (cases t)
    case (Send_queue d p)
    show ?thesis
      unfolding Send_queue
      by (rule keepsI) (simp add: ServerConnection_addQueuedMessage_def sc_enqueue_def vector_insert_begin_def
        wp_simps bytes_kept_enqueue split: option.splits)
  qed (simp; intro keeps_intros; simp)+
  then show ?thesis
    unfolding sender_run_def by (intro keeps_bindE keeps_gets keeps_if keeps_skip)
qed

lemma keeps_bytes_loop_step:
  assumes K: "recv_fits K" "accept_fresh K" "accept_needs_open K"
  shows "keeps True (bytes_kept l) (loop_step K serverMax pc)"
proof (cases pc)
  case (At_read x y z w)
  then show ?thesis by (simp only: loop_step.simps) (intro keeps_intros keeps_bytes_accept K)
next
  case (At_send p i x y z)
  show ?thesis
    unfolding At_send loop_step.simps
    by (rule keepsI) (auto simp: ServerConnection_sendQueuedMessage_def sc_swap_out_def Server_getCallback_def Let_def
        wp_simps bytes_kept_send bytes_kept_quiet split: option.splits)
next
  case (At_clear x y z w)
  then show ?thesis by (simp add: loop_step.simps) (intro keeps_intros, simp)
qed (simp add: loop_step.simps; intro keeps_intros)+

lemma keeps_bytes_threads:
  assumes "recv_fits K" "accept_fresh K" "accept_needs_open K"
  shows "keeps True (bytes_kept l) (threads_run K serverMax labels)"
proof -
  have "keeps True (bytes_kept l) (loop_run K serverMax)"
    unfolding loop_run_def by (intro keeps_bindE keeps_gets keeps_modify keeps_bytes_loop_step assms) simp
  then have "keeps True (bytes_kept l) (thread_run K serverMax lb :: ('a threaded_scheme, unit) act)" for lb
    by (cases lb) (simp_all add: keeps_bytes_sender keeps_bytes_shutdown keeps_modify)
  then show ?thesis unfolding threads_run_def by (intro keeps_intros)
qed

section \<open>No connection is used after it was freed, while no peer leaves\<close>

fun held_by :: "sender \<Rightarrow> addr set" where
  "held_by (Send_watch d p) = {p}"
| "held_by (Send_queue d p) = {p}"
| "held_by _ = {}"

fun held_by_loop :: "loop_pc \<Rightarrow> addr set" where
  "held_by_loop (At_send p i fdmax rd wr) = {p}"
| "held_by_loop _ = {}"

definition alive :: "'a threaded_scheme \<Rightarrow> bool" where
  "alive s \<longleftrightarrow> mConnections s = Connections_ptr \<and> heap_fresh s \<and> conns_live s \<and>
     ran (mMapping s) \<subseteq> dom (sc_heap s) \<and>
     \<Union> (held_by ` set (th_senders s)) \<union> held_by_loop (th_loop s) \<subseteq> dom (sc_heap s)"

definition dead_use :: fault where
  "dead_use = Undefined_behaviour ''use of a dead ServerConnection''"

definition undead :: "fault \<Rightarrow> 'a threaded_scheme \<Rightarrow> bool" where
  "undead e s \<longleftrightarrow> e \<noteq> dead_use \<and> (\<forall>w. e = Runtime_error w \<longrightarrow> alive s)"

lemma undead_simps [simp]:
  "undead (Runtime_error w) s = alive s"
  "undead (Undefined_behaviour u) s = (u \<noteq> ''use of a dead ServerConnection'')"
  by (simp_all add: undead_def dead_use_def)

lemma alive_updates [simp]:
  "alive (s\<lparr>io_trace := tr\<rparr>) = alive s"
  "alive (s\<lparr>mRead := R\<rparr>) = alive s"
  "alive (s\<lparr>mFdMax := k\<rparr>) = alive s"
  "alive (s\<lparr>mMasterWrite := W\<rparr>) = alive s"
  "alive (s\<lparr>srv_mBuffer := b\<rparr>) = alive s"
  "alive (s\<lparr>mHasBeenShutdown := d\<rparr>) = alive s"
  "alive (s\<lparr>th_queued := q\<rparr>) = alive s"
  by (simp_all add: alive_def heap_fresh_def conns_live_def)

lemma alive_pc: "alive s \<Longrightarrow> held_by_loop pc \<subseteq> dom (sc_heap s) \<Longrightarrow> alive (s\<lparr>th_loop := pc\<rparr>)"
  by (auto simp: alive_def heap_fresh_def conns_live_def)

lemma alive_ptr: "alive s \<Longrightarrow> mConnections s = Connections_ptr"
  by (simp add: alive_def)

lemma alive_write: "alive s \<Longrightarrow> sc_heap s p = Some c \<Longrightarrow> alive (s\<lparr>sc_heap := (sc_heap s)(p \<mapsto> c')\<rparr>)"
  by (auto simp: alive_def heap_fresh_def conns_live_def)

lemma alive_grow:
  assumes "alive s"
  shows "alive (s\<lparr>sc_heap := (sc_heap s)(sc_next s \<mapsto> c), sc_next := Suc (sc_next s)\<rparr>)"
  using assms by (auto simp: alive_def heap_fresh_def conns_live_def)

lemma alive_fail:
  assumes "alive s"
  shows "alive (s\<lparr>sc_heap := (sc_heap s)(sc_next s := None), sc_next := Suc (sc_next s)\<rparr>)"
proof -
  have "(sc_heap s)(sc_next s := None) = sc_heap s"
    using assms by (simp add: alive_def heap_fresh_def fun_upd_idem)
  then show ?thesis using assms by (auto simp: alive_def heap_fresh_def conns_live_def)
qed

lemma find_entry_in: "find_entry k es = Some p \<Longrightarrow> \<exists>e \<in> set es. snd (snd e) = p"
  by (induction es) (auto split: if_splits)

lemma alive_find:
  assumes "alive s"
  shows "wp (on_connections (Connections_getServerConnection_fd k))
    (\<lambda>p s'. s' = s \<and> (p \<noteq> null \<longrightarrow> p \<in> dom (sc_heap s))) undead s"
proof -
  have live: "conns_live s" and ptr: "mConnections s = Connections_ptr" using assms by (simp_all add: alive_def)
  have "p \<in> dom (sc_heap s)" if "find_entry k (conn_entries s) = Some p" for p
    using find_entry_in [OF that] live by (auto simp: conn_entries_def conns_live_def)
  then show ?thesis
    unfolding wp_on_connections
    by (auto simp: ptr wp_def getServerConnection_fd_eq [OF live] split: option.splits)
qed

lemma alive_register:
  assumes "alive s" and "sc_heap s p = Some c" and "p \<noteq> null"
  shows "alive (s\<lparr>mContainer := mContainer s @ [p]\<rparr>)"
    and "alive (s\<lparr>mMapping := (mMapping s)(i \<mapsto> p)\<rparr>)"
  using assms by (auto simp: alive_def heap_fresh_def conns_live_def ran_def)

lemma alive_accept:
  assumes fits: "recv_fits K" and alive: "alive s"
  shows "wp (Server_accept K) (\<lambda>_. alive) undead s"
proof -
  have new: "alive t \<and> p \<noteq> null \<and> (\<exists>c. sc_heap t p = Some c) \<and> mConnections t = Connections_ptr"
    if "built K fd s p t" for fd p t
  proof -
    have "alive t \<and> (\<exists>c. sc_heap t p = Some c) \<and> p = sc_next s"
      using that alive_grow [OF alive] by (auto simp: built_def)
    moreover have "0 < sc_next s" using alive by (simp add: alive_def heap_fresh_def)
    ultimately show ?thesis using alive_ptr by (auto simp: null_def)
  qed
  have no: "alive t \<and> (\<exists>w. e = Runtime_error w)" if "not_built K fd s e t" for fd e t
    using that alive_fail [OF alive] by (auto simp: not_built_def)
  have rest: "wp (bindE (gets srv_mCallback) (\<lambda>cb.
        bindE (ServerConnection_getIdentifier p) (\<lambda>ident.
        seqE (call_callback cb (Cb_connected ident))
          (on_connections (Connections_addServerConnection K p))))) (\<lambda>_. alive) undead t"
    if "alive t" "p \<noteq> null" "sc_heap t p = Some c" "mConnections t = Connections_ptr" for t p c
  proof -
    have "alive (t\<lparr>mContainer := mContainer t @ [p], mMapping := (mMapping t)(i \<mapsto> p)\<rparr>)" for i
      using alive_register(2) [OF alive_register(1) [OF that(1,3,2)], of p c] that(2,3) by simp
    then show ?thesis
      using that by (simp add: wp_simps ServerConnection_getIdentifier_def ServerConnection_getSocket_def
        Connections_addServerConnection_def)
  qed
  show ?thesis
    unfolding Server_accept_def Server_getCallback_def wp_tryE wp_bindE [of connect_socket] wp_connect_socket
    apply (simp add: wp_skip split: option.splits)
    apply (intro allI impI)
    apply (subst wp_bindE)
    apply (rule wp_mono [OF new_ServerConnection_wp [OF fits]])
    subgoal premises prems for sck p t
    proof -
      obtain c where c: "alive t" "p \<noteq> null" "sc_heap t p = Some c" "mConnections t = Connections_ptr"
        using new [OF prems(2)] by blast
      show ?thesis by (rule wp_mono [OF rest [OF c]]) (auto simp: wp_skip split: fault.splits)
    qed
    subgoal for sck e t using no [of "mSocket sck" e t] by (auto simp: wp_skip)
    done
qed

lemma alive_handle:
  assumes fits: "recv_fits K" and stay: "peers_stay K" and alive: "alive s"
  shows "wp (Server_handleServerConnection K k) (\<lambda>_. alive) undead s"
  unfolding Server_handleServerConnection_def Server_getCallback_def wp_bindE
proof (rule wp_mono [OF alive_find [OF alive]])
  fix p t
  assume found: "t = s \<and> (p \<noteq> null \<longrightarrow> p \<in> dom (sc_heap s))"
  show "wp (if p \<noteq> null then bindE (gets srv_mCallback) (\<lambda>cb.
         tryE
           (bindE (ServerConnection_performReceive K p) (\<lambda>result.
            whenE cb
              (bindE (ServerConnection_getIdentifier p) (\<lambda>ident.
               call_callback cb (Cb_receiveComplete ident result)))))
           (\<lambda>_.
            seqE (whenE cb
                    (bindE (ServerConnection_getIdentifier p) (\<lambda>ident.
                     call_callback cb (Cb_disconnected ident))))
              (on_connections (Connections_removeServerConnection K k)))) else skip) (\<lambda>_. alive) undead t"
  proof (cases "p = null")
    case False
    then obtain c where c: "sc_heap s p = Some c" using found by blast
    show ?thesis
      unfolding wp_if wp_bindE [of "gets srv_mCallback"] wp_gets wp_tryE wp_bindE [of "ServerConnection_performReceive K p"]
      using False found
      apply simp
      apply (rule performReceive_wpI [OF fits c])
      subgoal using alive_write [OF alive c] by (simp add: wp_simps ServerConnection_getIdentifier_def)
      subgoal for w n d using stay unfolding peers_stay_def by (metis fst_conv not_less)
      done
  qed (use found alive in \<open>simp add: wp_simps\<close>)
qed simp

lemma alive_loop_step:
  assumes fits: "recv_fits K" and stay: "peers_stay K" and alive: "alive s" and pc: "th_loop s = pc"
  shows "wp (loop_step K serverMax pc) (\<lambda>pc' s'. alive (s'\<lparr>th_loop := pc'\<rparr>)) undead s"
proof (cases pc)
  case At_loop_test
  then show ?thesis
    using alive pc by (auto simp: loop_step.simps wp_simps alive_pc Connections_getMax_def alive_ptr)
next
  case (At_select x y z)
  then show ?thesis
    using alive pc by (auto simp: loop_step.simps wp_simps alive_pc split: prod.splits)
next
  case (At_read i x y z)
  have keep: "wp m (\<lambda>_. alive) undead s \<Longrightarrow> 
      wp m (\<lambda>_. wp (ret (At_drain j x y z)) (\<lambda>pc' s'. alive (s'\<lparr>th_loop := pc'\<rparr>)) undead) undead s"
    for j and m :: "('a threaded_scheme, unit) act"
    by (erule wp_mono) (simp_all add: alive_pc wp_ret)
  show ?thesis
    using alive pc unfolding At_read
    by (auto simp: loop_step.simps wp_simps alive_pc split: option.splits
        intro!: keep alive_accept [OF fits] alive_handle [OF fits stay])
next
  case (At_drain i x y z)
  then show ?thesis
    using alive pc by (auto simp: loop_step.simps wp_simps alive_pc Server_drain_wakeup_def split: prod.splits)
next
  case (At_write i x y z)
  have find: "wp (Connections_getServerConnection_fd i)
      (\<lambda>p s'. s' = s \<and> (p \<noteq> null \<longrightarrow> p \<in> dom (sc_heap s))) undead s"
    using alive_find [OF alive, of i] alive_ptr [OF alive] by (simp add: wp_on_connections)
  show ?thesis
    unfolding At_write loop_step.simps wp_bindE wp_FD_ISSET wp_if
    using alive by (auto simp: wp_simps alive_pc alive_ptr domIff intro!: wp_mono [OF find])
next
  case (At_send p i x y z)
  then obtain c where c: "sc_heap s p = Some c" using alive pc by (fastforce simp: alive_def)
  then show ?thesis
    using alive_write [OF alive c] unfolding At_send
    by (auto simp: loop_step.simps wp_simps alive_pc ServerConnection_sendQueuedMessage_def sc_swap_out_def Server_getCallback_def)
qed (use alive pc in \<open>auto simp: loop_step.simps wp_simps alive_pc\<close>)

lemma alive_sender_step:
  assumes alive: "alive s" and t: "t \<in> set (th_senders s)"
  shows "wp (sender_step K t) (\<lambda>t' s'. alive s' \<and> held_by t' \<subseteq> dom (sc_heap s')) undead s"
proof (cases t)
  case (Send_find d ident)
  show ?thesis
    using alive unfolding Send_find
    by (auto simp: wp_simps Connections_getServerConnection_id_def alive_def ran_def split: option.splits)
next
  case (Send_watch d p)
  then obtain c where "sc_heap s p = Some c" using alive t by (fastforce simp: alive_def)
  then show ?thesis
    using alive unfolding Send_watch by (auto simp: wp_simps ServerConnection_getSocket_def)
next
  case (Send_queue d p)
  then obtain c where c: "sc_heap s p = Some c" using alive t by (fastforce simp: alive_def)
  then show ?thesis
    using alive_write [OF alive c] unfolding Send_queue
    by (auto simp: wp_simps ServerConnection_addQueuedMessage_def)
qed (use alive in \<open>auto simp: wp_simps\<close>)

lemma alive_notes:
  "alive (note_queued t s) = alive s" "sc_heap (note_queued t s) = sc_heap s"
  "th_senders (note_queued t s) = th_senders s"
  by (cases t; simp)+

lemma alive_set_sender:
  
  assumes "alive s" and t: "held_by t \<subseteq> dom (sc_heap s)"
  shows "alive (s\<lparr>th_senders := (th_senders s)[n := t]\<rparr>)"
proof -
  from assms have "\<Union> (held_by ` set (th_senders s)) \<subseteq> dom (sc_heap s)" by (simp add: alive_def)
  then have "\<Union> (held_by ` set ((th_senders s)[n := t])) \<subseteq> dom (sc_heap s)"
    using set_update_subset_insert [of "th_senders s" n t] t by blast
  then show ?thesis using \<open>alive s\<close> by (simp add: alive_def heap_fresh_def conns_live_def)
qed

lemma alive_sender_run:
  assumes alive: "alive s"
  shows "wp (sender_run K n) (\<lambda>_. alive) undead s"
proof -
  have "wp (bindE (tryE (sender_step K t) (\<lambda>_. ret Send_over)) (\<lambda>t.
         modify (\<lambda>s. s\<lparr>th_senders := (th_senders s)[n := t]\<rparr>))) (\<lambda>_. alive) undead u"
    if "alive u" "t \<in> set (th_senders u)" for t and u :: "'a threaded_scheme"
    unfolding wp_bindE wp_tryE
    by (rule wp_mono [OF alive_sender_step [OF that]])
      (auto simp: wp_simps alive_set_sender split: fault.splits)
  from this [of "note_queued (th_senders s ! n) s" "th_senders s ! n"] show ?thesis
    using alive by (simp add: sender_run_def wp_simps alive_notes)
qed

lemma alive_loop_run:
  assumes "recv_fits K" and "peers_stay K" and "alive s"
  shows "wp (loop_run K serverMax) (\<lambda>_. alive) undead s"
proof -
  have "wp (bindE (loop_step K serverMax (th_loop s)) (\<lambda>pc'. modify (\<lambda>s. s\<lparr>th_loop := pc'\<rparr>)))
      (\<lambda>_. alive) undead s"
    unfolding wp_bindE
    by (rule wp_mono [OF alive_loop_step [OF assms(1,2)]]) (auto simp: assms(3) alive_notes wp_simps)
  then show ?thesis by (simp add: loop_run_def wp_simps)
qed

lemma alive_threads_run:
  assumes "recv_fits K" and "peers_stay K" and "alive s"
  shows "wp (threads_run K serverMax labels) (\<lambda>_. alive) undead s"
  unfolding threads_run_def
proof (rule wp_for_each [where I = alive])
  show "alive s" by (rule assms(3))
next
  fix l and s :: "'a threaded_scheme"
  assume alive: "alive s"
  show "wp (thread_run K serverMax l) (\<lambda>_. alive) undead s"
  proof (cases l)
    case (Call d ident)
    then show ?thesis
      using alive by (auto simp: wp_simps alive_def heap_fresh_def conns_live_def)
  next
    case Call_shutdown
    then show ?thesis
      using alive by (auto simp: wp_simps Server_shutdown_def Server_close_listener_def split: option.splits)
  qed (use alive alive_sender_run alive_loop_run assms in auto)
qed

section \<open>Concrete runs\<close>

definition threads_server :: threaded where
  "threads_server =
     \<lparr>io_trace = [], sc_heap = [1 \<mapsto> accepted sample_kernel 5 ''bob''], sc_next = 2,
      mContainer = [1], mMapping = [''bob'' \<mapsto> 1], mRead = {3, 4, 5}, mFdMax = 5,
      mConnectSocket = Some \<lparr>mSocket = 3\<rparr>, mConnections = Connections_ptr, srv_mBuffer = [],
      mPort = 80, srv_mCallback = True, mHasBeenShutdown = False, mWakeupPipe = (4, 6),
      mMasterWrite = {}, th_senders = [], th_loop = At_loop_test, th_queued = (\<lambda>_. [])\<rparr>"

lemma threads_server_inv:
  assumes "FD_SETSIZE K = 1024"
  shows "conns_inv K (threads_server\<lparr>th_loop := pc\<rparr>)"
  using assms by (simp add: conns_inv_def conns_live_def threads_server_def sock_of_def ident_of_def accepted_def
      null_def fd_in_range_def max_sock_def)

text \<open>
  A server whose listener is 3 and whose pipe is 4, 5, on a kernel with one client: bob
  connects at the first \<open>select\<close> and can be written to at the later ones.
\<close>

definition one_client_kernel :: posix where
  "one_client_kernel = (scripted (\<lambda>tr fd. ''bob'') (\<lambda>tr. if length tr = 2 then ({3}, {}) else ({}, {6})))
     \<lparr>k_accept := (\<lambda>tr fd. if fd \<in> open_fds tr then next_fd tr else -1)\<rparr>"

definition empty_threads_server :: threaded where
  "empty_threads_server =
     \<lparr>io_trace = [Ev_socket 3, Ev_pipe 0 4 5], sc_heap = Map.empty, sc_next = 1,
      mContainer = [], mMapping = Map.empty, mRead = {3, 4}, mFdMax = 0,
      mConnectSocket = Some \<lparr>mSocket = 3\<rparr>, mConnections = Connections_ptr, srv_mBuffer = [],
      mPort = 80, srv_mCallback = True, mHasBeenShutdown = False, mWakeupPipe = (4, 5),
      mMasterWrite = {}, th_senders = [], th_loop = At_loop_test, th_queued = (\<lambda>_. [])\<rparr>"

lemma one_client_kernel_ok: "recv_fits one_client_kernel" "accept_fresh one_client_kernel" "accept_needs_open one_client_kernel"
proof -
  have "0 \<le> next_fd tr" for tr using next_fd_fresh(1) [of tr] by simp
  then show "recv_fits one_client_kernel" "accept_fresh one_client_kernel" "accept_needs_open one_client_kernel"
    by (auto simp: recv_fits_def accept_fresh_def accept_needs_open_def one_client_kernel_def scripted_def Let_def
        next_fd_fresh(2))
qed

lemma one_client_kernel_calls:
  "k_accept one_client_kernel tr fd = (if fd \<in> open_fds tr then next_fd tr else -1)"
  "k_select one_client_kernel tr m rd wr = (1, {fd \<in> if length tr = 2 then {3} else {}. fd \<in> rd \<and> fd < m},
     {fd \<in> if length tr = 2 then {} else {6}. fd \<in> wr \<and> fd < m})"
  "k_recv one_client_kernel tr fd n f = (int (length (take n ''bob'')), take n ''bob'')"
  "k_send one_client_kernel tr fd d = int (length d)" "k_getfl one_client_kernel tr fd = 2" "k_poll one_client_kernel tr fd i = 1"
  "k_write one_client_kernel tr fd d = int (length d)" "FD_SETSIZE one_client_kernel = 1024"
  by (simp_all add: one_client_kernel_def scripted_def Let_def)

lemmas bob_accept_defs = Server_accept_def new_ServerConnection_def ServerConnection_ctor_def sc_alloc_def unwind_def
  update_at_def deref_def Socket_makeNonBlocking_def ServerConnection_performReceive_def Server_getCallback_def
  ServerConnection_getIdentifier_def ServerConnection_getSocket_def call_callback_def Connections_addServerConnection_def
  Socket_wrap_def Socket_getSocket_def connect_socket_def ServerConnection_blank_def accepted_def MAX_BUFFER_SIZE_def

section \<open>Properties\<close>

text \<open>
  C11 In a run of a server that starts without connections: however a schedule interleaves the
  statements of the loop with those of the threads that call \<open>send\<close> and \<open>shutdown\<close>, no byte is
  lost or repeated between \<open>send\<close> and the kernel. For every connection that is live at the end,
  the bytes queued on it since it was accepted, and the three bytes "ack" of its handshake, are
  with their multiplicities those that the trace hands to \<open>::send\<close> on its descriptor since
  \<open>accept\<close> returned it, whatever the kernel takes of them, and those still pending in
  \<open>mOutgoingBytes\<close>. The kernel's new descriptors are not open ones, \<open>accept\<close> needs an open
  listener, \<open>recv\<close> stores what it counts, and the run has not ended in undefined behaviour.
\<close>

theorem server_threads_conserve_bytes:
  assumes "recv_fits K" and "accept_fresh K" and "accept_needs_open K"
    and "heap_fresh s" and "sc_heap s = Map.empty" and "mConnectSocket s = Some \<lparr>mSocket = l\<rparr>"
    and "th_queued s = (\<lambda>_. [])"
    and "threads_run K serverMax labels s = (r, s')"
    and "\<forall>u. r \<noteq> Inl (Undefined_behaviour u)" and "sc_heap s' p = Some c"
  shows "mset (th_queued s' p) + mset ''ack'' =
    mset (sent_since (sc_mSocket c) (io_trace s')) + mset (mOutgoingBytes c)"
proof -
  have "bytes_kept l s" using assms(4-7) by (simp add: bytes_kept_def)
  then have run: "wp (threads_run K serverMax labels) (\<lambda>_. bytes_kept l) (after_fault True (bytes_kept l)) s"
    by (rule keeps_wp [OF keeps_bytes_threads [OF assms(1-3)]])
  have "bytes_kept l s'"
    using run assms(8,9) by (auto simp: wp_def after_fault_def split: sum.splits fault.splits)
  from bytes_keptD(3) [OF this assms(10)] show ?thesis by (simp add: booked_def)
qed

theorem server_threads_conserve_bytes_witness:
  "\<exists>s'. threads_run one_client_kernel 4
      (replicate 18 Loop @ [Call ''hi'' ''bob'', Sender 0, Sender 0, Sender 0] @ replicate 24 Loop @
       [Call ''!'' ''bob'', Sender 1, Sender 1, Sender 1]) empty_threads_server = (Inr (), s') \<and>
    mset (th_queued s' 1) + mset ''ack'' = mset (sent_since 6 (io_trace s')) + mset ''!''"
proof -
  let ?labels = "replicate 18 Loop @ [Call ''hi'' ''bob'', Sender 0, Sender 0, Sender 0] @ replicate 24 Loop @
    [Call ''!'' ''bob'', Sender 1, Sender 1, Sender 1]"
  obtain s' c where s': "threads_run one_client_kernel 4 ?labels empty_threads_server = (Inr (), s')"
    "sc_heap s' 1 = Some c" "sc_mSocket c = 6" "mOutgoingBytes c = ''!''"
    by (simp add: numeral_eq_Suc threads_run_def loop_run_def sender_run_def loop_step.simps seqE_def bindE_def tryE_def act_simps
        on_connections_def Connections_getMax_def FD_ISSET_def check_fd_def fd_in_range_def Server_drain_wakeup_def
        Connections_getServerConnection_id_def Connections_getServerConnection_fd_def
        ServerConnectionFinder_def ServerConnection_addQueuedMessage_def
        ServerConnection_sendQueuedMessage_def sc_swap_out_def sc_enqueue_def vector_insert_begin_def null_def
        sys_defs empty_threads_server_def one_client_kernel_calls bob_accept_defs open_fds_def next_fd_def Let_def store_bytes_def)
  have "heap_fresh empty_threads_server" "sc_heap empty_threads_server = Map.empty"
    "mConnectSocket empty_threads_server = Some \<lparr>mSocket = 3\<rparr>" "th_queued empty_threads_server = (\<lambda>_. [])"
    by (simp_all add: empty_threads_server_def heap_fresh_def)
  from server_threads_conserve_bytes [OF one_client_kernel_ok this s'(1) _ s'(2)] s' show ?thesis by auto
qed

text \<open>
  C10 As long as no peer leaves and no \<open>recv\<close> fails, no interleaving of the loop with threads
  that send ever uses a \<open>ServerConnection\<close> that is not there: every pointer that a thread
  keeps from one statement to the next stays valid, whoever connects in the meantime.
\<close>

theorem server_threads_never_use_dead:
  assumes "alive s" and "recv_fits K" and "peers_stay K"
  shows "fst (threads_run K serverMax labels s) \<noteq>
    Inl (Undefined_behaviour ''use of a dead ServerConnection'')"
proof -
  have "wp (threads_run K serverMax labels) (\<lambda>_. alive) undead s"
    by (rule alive_threads_run [OF assms(2,3,1)])
  then show ?thesis by (auto simp: wp_def undead_def dead_use_def split: prod.splits)
qed

lemma threads_server_alive: "alive threads_server"
  by (simp add: alive_def threads_server_def heap_fresh_def conns_live_def null_def)

theorem server_threads_never_use_dead_witness:
  "fst (threads_run sample_kernel 4 [Call ''hi'' ''bob'', Loop, Sender 0, Loop, Sender 0, Loop, Sender 0] threads_server) \<noteq>
   Inl (Undefined_behaviour ''use of a dead ServerConnection'')"
proof -
  have fits: "recv_fits sample_kernel" by (simp add: sample_kernel_def scripted_recv_fits)
  have "peers_stay sample_kernel"
    by (simp add: sample_kernel_def peers_stay_def scripted_def MAX_BUFFER_SIZE_def)
  from server_threads_never_use_dead [OF threads_server_alive fits this] show ?thesis .
qed

end
