(* ===== verification/Server_Thread_Faults.thy ===== *)
theory Server_Thread_Faults
  imports Server_Thread_Facts
begin

text \<open>
  Two interleavings of \<open>send\<close> with the loop that end in undefined behaviour: the loop frees
  the connection that the thread has looked up, and the loop writes a connection between the
  two statements of the private \<open>send\<close>.
\<close>

section \<open>A connection that goes away under a thread that sends\<close>

text \<open>
  The loop is about to read the connection \<open>p\<close>, the one added last, whose identifier a thread
  is sending to.
\<close>

definition leaving :: "posix \<Rightarrow> addr \<Rightarrow> bytes \<Rightarrow> int \<Rightarrow> 'a threaded_scheme \<Rightarrow> bool" where
  "leaving K p ident fd s \<longleftrightarrow>
     conns_inv K s \<and> heap_fresh s \<and> mConnections s = Connections_ptr \<and>
     mContainer s \<noteq> [] \<and> last (mContainer s) = p \<and> mMapping s ident = Some p \<and>
     sock_of s p = fd \<and> (\<exists>l. mConnectSocket s = Some l \<and> mSocket l \<noteq> fd)"

lemma leavingD:
  assumes "leaving K p ident fd s"
  shows "conns_inv K s" "heap_fresh s" "mConnections s = Connections_ptr" "p \<noteq> null"
    "mContainer s \<noteq> []" "last (mContainer s) = p" "p \<in> set (mContainer s)" "mMapping s ident = Some p"
    "\<exists>c. sc_heap s p = Some c" "fd_in_range K fd" "sock_of s p = fd"
    "\<exists>l. mConnectSocket s = Some l \<and> mSocket l \<noteq> fd"
proof -
  show p: "p \<in> set (mContainer s)" using assms by (auto simp: leaving_def)
  show "conns_inv K s" "heap_fresh s" "mConnections s = Connections_ptr" "mContainer s \<noteq> []"
    "last (mContainer s) = p" "mMapping s ident = Some p" "sock_of s p = fd"
    "\<exists>l. mConnectSocket s = Some l \<and> mSocket l \<noteq> fd"
    using assms by (simp_all add: leaving_def)
  then show "p \<noteq> null" "\<exists>c. sc_heap s p = Some c" "fd_in_range K fd"
    using p by (auto simp: conns_inv_def conns_live_def)
qed

lemma leaving_cong:
  assumes "leaving K p ident fd s"
    and "mContainer t = mContainer s" "mMapping t = mMapping s" "mRead t = mRead s" "mFdMax t = mFdMax s"
      "mConnections t = mConnections s" "mConnectSocket t = mConnectSocket s" "sc_next t = sc_next s"
    and "\<And>q. map_option (\<lambda>c. (sc_mSocket c, mIdentifier c)) (sc_heap t q) =
             map_option (\<lambda>c. (sc_mSocket c, mIdentifier c)) (sc_heap s q)"
  shows "leaving K p ident fd t"
proof -
  have live: "(sc_heap t q = None) = (sc_heap s q = None)" for q
    using assms(9) [of q] by (cases "sc_heap t q"; cases "sc_heap s q") auto
  have same: "sock_of t q = sock_of s q \<and> ident_of t q = ident_of s q" if "sc_heap s q \<noteq> None" for q
    using assms(9) [of q] that by (cases "sc_heap t q"; cases "sc_heap s q") (auto simp: sock_of_def ident_of_def)
  have "conns_inv K t"
    by (rule conns_inv_cong [of K s])
      (use assms same live in \<open>auto simp: leaving_def conns_inv_def conns_live_def\<close>)
  moreover have "heap_fresh t"
    by (rule heap_fresh_cong [of s]) (use assms live in \<open>auto simp: leaving_def\<close>)
  moreover have "sock_of t p = sock_of s p"
    using same [of p] leavingD(9) [OF assms(1)] by auto
  ultimately show ?thesis using assms by (simp add: leaving_def)
qed

lemma leaving_updates [simp]:
  "leaving K p ident fd s \<Longrightarrow> leaving K p ident fd (s\<lparr>io_trace := tr\<rparr>)"
  "leaving K p ident fd s \<Longrightarrow> leaving K p ident fd (s\<lparr>mMasterWrite := W\<rparr>)"
  "leaving K p ident fd s \<Longrightarrow> leaving K p ident fd (s\<lparr>th_senders := ts\<rparr>)"
  "leaving K p ident fd s \<Longrightarrow> leaving K p ident fd (s\<lparr>th_queued := q\<rparr>)"
  by (erule leaving_cong; simp)+

lemma leaving_write:
  assumes "leaving K p ident fd s" and "sc_heap s q = Some c"
    and "sc_mSocket c' = sc_mSocket c" and "mIdentifier c' = mIdentifier c"
  shows "leaving K p ident fd (s\<lparr>sc_heap := (sc_heap s)(q \<mapsto> c')\<rparr>)"
  by (rule leaving_cong [OF assms(1)]) (simp_all add: assms)

text \<open>What the next step of the thread makes of its program counter while \<open>p\<close> is there.\<close>

fun next_of :: "addr \<Rightarrow> sender \<Rightarrow> sender" where
  "next_of p (Send_find d ident) = Send_watch d p"
| "next_of p (Send_watch d q) = Send_queue d q"
| "next_of p (Send_queue d q) = Send_wake"
| "next_of p Send_wake = Send_over"
| "next_of p Send_over = Send_over"

lemma leaving_sender:
  assumes lv: "leaving K p ident fd s" and ts: "th_senders s = [t]"
    and t: "t \<in> {Send_find d ident, Send_watch d p, Send_queue d p, Send_wake, Send_over}"
  shows "\<exists>s'. sender_run K 0 s = (Inr (), s') \<and> leaving K p ident fd s' \<and>
    th_senders s' = [next_of p t] \<and> th_loop s' = th_loop s"
proof -
  note l = leavingD [OF lv]
  obtain c where c: "sc_heap s p = Some c" using l(9) by blast
  have range: "fd_in_range K (sc_mSocket c)" using l(10,11) c by (simp add: sock_of_def)
  have queued: "leaving K p ident fd (s\<lparr>th_queued := f, sc_heap := (sc_heap s)(p \<mapsto> sc_enqueue d c)\<rparr>)" for f
    using leaving_write [OF leaving_updates(4) [OF lv, of f], of p c "sc_enqueue d c"] c
    by (simp add: sc_enqueue_def)
  show ?thesis
    using t lv ts l(3,4,8) c range queued
    by (elim insertE emptyE)
      (simp_all add: sender_run_def seqE_def bindE_def tryE_def act_simps on_connections_def
        getServerConnection_id_eq ServerConnection_addQueuedMessage_def Server_performWakeup_def sys_defs
        Let_def sc_enqueue_def)
qed

text \<open>The loop's step removes and frees the connection.\<close>

lemma leaving_loop:
  assumes lv: "leaving K p ident fd s" and fits: "recv_fits K"
    and left: "\<forall>tr. fst (k_recv K tr fd MAX_BUFFER_SIZE MSG_WAITALL) \<le> 0"
    and pc: "th_loop s = At_read fd fdmax rd wr" and rd: "fd \<in> rd" "fd \<le> fdmax"
  shows "\<exists>s'. loop_run K serverMax s = (Inr (), s') \<and> conns_inv K s' \<and> heap_fresh s' \<and>
    mConnections s' = Connections_ptr \<and> sc_heap s' p = None \<and>
    th_senders s' = th_senders s \<and> th_loop s' = At_drain fd fdmax rd wr"
proof -
  note l = leavingD [OF lv]
  obtain c where c: "sc_heap s p = Some c" using l(9) by blast
  have sock: "sc_mSocket c = fd" using l(11) by (simp add: sock_of_def c)
  obtain n d where nd: "k_recv K (io_trace s) fd MAX_BUFFER_SIZE MSG_WAITALL = (n, d)"
    by (cases "k_recv K (io_trace s) fd MAX_BUFFER_SIZE MSG_WAITALL")
  have "n \<le> 0" using left nd by (metis fst_conv)
  then have n: "n = -1 \<or> n = 0" using recv_fitsD [OF fits nd] by auto
  define t where "t = s\<lparr>io_trace := io_trace s @ [Ev_recv fd MAX_BUFFER_SIZE MSG_WAITALL n d] @
      (if srv_mCallback s then [Ev_callback (Cb_disconnected (mIdentifier c))] else []),
    sc_heap := (sc_heap s)(p \<mapsto> c\<lparr>mBuffer := store_bytes (mBuffer c) d\<rparr>)\<rparr>"
  have lt: "leaving K p ident fd t"
    using leaving_write [OF lv c, of "c\<lparr>mBuffer := store_bytes (mBuffer c) d\<rparr>"] by (simp add: t_def)
  have st: "sock_of t p = fd" using sock by (simp add: t_def sock_of_def)
  obtain s' where s': "Connections_removeServerConnection K fd t = (Inr (), s')" "conns_inv K s'"
    "\<exists>m n. s' = t\<lparr>mContainer := butlast (mContainer t), mMapping := m, mRead := mRead t - {fd},
       mFdMax := n, sc_heap := (sc_heap t)(p := None),
       io_trace := io_trace t @ close_events K (io_trace t) fd\<rparr>"
    using conns_inv_remove_last [OF leavingD(1,5) [OF lt], of fd] st leavingD(6) [OF lt] by auto
  have handled: "Server_handleServerConnection K fd s = (Inr (), s')"
    using getServerConnection_fd_run(1) [OF l(1,7)] l(3,4) c sock nd n s'(1) leavingD(3) [OF lt]
    by (auto simp: Server_handleServerConnection_def Server_getCallback_def bindE_def seqE_def tryE_def
        act_simps l(11) performReceive_run Let_def throw_def call_callback_def emit_def t_def)
  have "loop_run K serverMax s = (Inr (), s'\<lparr>th_loop := At_drain fd fdmax rd wr\<rparr>)"
    using l(10,11,12) rd pc handled
    by (auto simp: loop_run_def loop_step.simps seqE_def bindE_def act_simps
        connect_socket_def Socket_getSocket_def)
  moreover have same: "mConnections s' = Connections_ptr" "th_senders s' = th_senders s" "sc_heap s' p = None"
    using s'(3) leavingD(3) [OF lt] by (auto simp: t_def)
  moreover have "heap_fresh s'"
    using s'(3) l(2) c by (auto simp: t_def heap_fresh_def)
  moreover have "conns_inv K (s'\<lparr>th_loop := pc'\<rparr>)" for pc'
    by (rule conns_inv_cong [OF s'(2)]) (use conns_inv_liveD [OF s'(2)] in \<open>auto simp: sock_of_def ident_of_def\<close>)
  ultimately show ?thesis by (simp add: heap_fresh_def)
qed

lemma leaving_sender_run:
  assumes "leaving K p ident fd s" and "th_senders s = [t]"
    and "t \<in> {Send_find d ident, Send_watch d p, Send_queue d p, Send_wake, Send_over}"
  shows "\<exists>s'. threads_run K serverMax (replicate k (Sender 0)) s = (Inr (), s') \<and> leaving K p ident fd s' \<and>
    th_senders s' = [(next_of p ^^ k) t] \<and> th_loop s' = th_loop s"
  using assms
proof (induction k arbitrary: s t)
  case 0
  then show ?case by (simp add: threads_run_def act_simps)
next
  case (Suc k)
  obtain s1 where s1: "sender_run K 0 s = (Inr (), s1)" "leaving K p ident fd s1"
    "th_senders s1 = [next_of p t]" "th_loop s1 = th_loop s"
    using leaving_sender [OF Suc.prems] by blast
  have "next_of p t \<in> {Send_find d ident, Send_watch d p, Send_queue d p, Send_wake, Send_over}"
    using Suc.prems(3) by auto
  from Suc.IH [OF s1(2,3) this] show ?case
    using s1 by (simp add: threads_run_def seqE_def bindE_def funpow_swap1)
qed

lemma threads_run_append:
  "threads_run K serverMax (xs @ ys) = seqE (threads_run K serverMax xs) (threads_run K serverMax ys)"
  unfolding threads_run_def
  by (induction xs) (simp_all add: seqE_def bindE_assoc skip_def ret_bindE)

text \<open>A thread that keeps no pointer meets no dead connection, whoever has left.\<close>

lemma senders_never_use_dead:
  assumes "alive s"
  shows "fst (threads_run K serverMax (replicate k (Sender n)) s) \<noteq> Inl dead_use"
proof -
  have "wp (threads_run K serverMax (replicate k (Sender n))) (\<lambda>_. alive) undead s"
    unfolding threads_run_def
    by (rule wp_for_each [where I = alive]) (auto simp: assms alive_sender_run)
  then show ?thesis by (auto simp: wp_def undead_def split: prod.splits)
qed

text \<open>
  C12 A thread inside \<open>send\<close> keeps a pointer that the loop may free. Let the peer that was
  accepted last leave while a thread sends to it, and let the loop handle that after \<open>k\<close> of
  the four statements of the call: the process uses the freed connection exactly when the
  thread had looked the connection up and not yet queued its bytes, that is for \<open>k\<close> 1 and 2.
\<close>

theorem server_send_uses_freed_connection:
  assumes "leaving K p ident fd s" and "recv_fits K"
    and "\<forall>tr. fst (k_recv K tr fd MAX_BUFFER_SIZE MSG_WAITALL) \<le> 0"
    and "th_loop s = At_read fd fdmax rd wr" and "fd \<in> rd" and "fd \<le> fdmax"
    and "th_senders s = []" and "k \<le> 4"
  shows "fst (threads_run K serverMax
      (Call d ident # replicate k (Sender 0) @ Loop # replicate (4 - k) (Sender 0)) s) =
      Inl (Undefined_behaviour ''use of a dead ServerConnection'') \<longleftrightarrow> k \<in> {1, 2}"
proof -
  let ?s = "s\<lparr>th_senders := [Send_find d ident]\<rparr>" and ?t = "(next_of p ^^ k) (Send_find d ident)"
  let ?rest = "replicate (4 - k) (Sender 0)"
  obtain s1 where s1: "threads_run K serverMax (replicate k (Sender 0)) ?s = (Inr (), s1)"
    "leaving K p ident fd s1" "th_senders s1 = [?t]" "th_loop s1 = th_loop s"
    using leaving_sender_run [of K p ident fd ?s "Send_find d ident" d serverMax k] assms(1) by auto
  obtain s2 where s2: "loop_run K serverMax s1 = (Inr (), s2)" "conns_inv K s2" "heap_fresh s2"
    "mConnections s2 = Connections_ptr" "sc_heap s2 p = None" "th_senders s2 = [?t]"
    "th_loop s2 = At_drain fd fdmax rd wr"
    using leaving_loop [OF s1(2) assms(2,3) s1(4) [unfolded assms(4)] assms(5,6)] s1(3) by metis
  have "threads_run K serverMax (Call d ident # ts) s = threads_run K serverMax ts ?s" for ts
    using assms(7) by (simp add: threads_run_def seqE_def bindE_def act_simps)
  moreover have "threads_run K serverMax (Loop # ?rest) s1 = threads_run K serverMax ?rest s2"
    using s2(1) by (simp add: threads_run_def seqE_def bindE_def)
  ultimately have run: "threads_run K serverMax
      (Call d ident # replicate k (Sender 0) @ Loop # ?rest) s = threads_run K serverMax ?rest s2"
    using s1(1) by (simp add: threads_run_append seqE_def bindE_def)
  show ?thesis
  proof (cases "k \<in> {1, 2}")
    case True
    then have "?t \<in> {Send_watch d p, Send_queue d p}" by (auto simp: numeral_eq_Suc)
    then have "fst (sender_run K 0 s2) = Inl dead_use"
      using s2(5,6)
      by (elim insertE emptyE) (simp_all add: sender_run_def seqE_def bindE_def tryE_def act_simps
          ServerConnection_getSocket_def ServerConnection_addQueuedMessage_def update_at_def dead_use_def)
    then have "fst (threads_run K serverMax (Sender 0 # ts) s2) = Inl dead_use" for ts
      by (cases "sender_run K 0 s2") (simp add: threads_run_def seqE_run(2))
    moreover have "?rest = Sender 0 # replicate (3 - k) (Sender 0)" using True by (auto simp: numeral_eq_Suc)
    ultimately show ?thesis unfolding run using True by (simp add: dead_use_def)
  next
    case False
    then have "?t \<in> {Send_find d ident, Send_wake, Send_over}"
      using assms(8) by (auto simp: numeral_eq_Suc le_Suc_eq)
    moreover have "ran (mMapping s2) \<subseteq> dom (sc_heap s2)" "conns_live s2"
      using s2(2) by (auto simp: conns_inv_def conns_live_def ran_def)
    ultimately have "alive s2" using s2(3,4,6,7) by (auto simp: alive_def)
    from senders_never_use_dead [OF this] False show ?thesis by (simp add: run dead_use_def)
  qed
qed

theorem server_send_uses_freed_connection_witness:
  "fst (threads_run silent_kernel 4 [Call ''hi'' ''bob'', Sender 0, Loop, Sender 0, Sender 0, Sender 0]
      (threads_server\<lparr>th_loop := At_read 5 5 {5} {}\<rparr>)) =
   Inl (Undefined_behaviour ''use of a dead ServerConnection'')"
proof -
  let ?s = "threads_server\<lparr>th_loop := At_read 5 5 {5} {}\<rparr>"
  have "conns_inv silent_kernel ?s"
    by (rule threads_server_inv) (simp add: silent_kernel_def scripted_def)
  then have "leaving silent_kernel 1 ''bob'' 5 ?s"
    by (simp add: leaving_def threads_server_def heap_fresh_def sock_of_def accepted_def)
  moreover have "recv_fits silent_kernel" by (simp add: silent_kernel_def scripted_recv_fits)
  moreover have "\<forall>tr. fst (k_recv silent_kernel tr 5 MAX_BUFFER_SIZE MSG_WAITALL) \<le> 0"
    by (simp add: silent_kernel_def scripted_def)
  ultimately show ?thesis
    using server_send_uses_freed_connection [of silent_kernel 1 "''bob''" 5 ?s 5 "{5}" "{}" 1 4 "''hi''"]
    by (simp add: threads_server_def numeral_eq_Suc)
qed

section \<open>A descriptor is watched before its bytes are queued\<close>

text \<open>The loop passes the descriptors that are not ready.\<close>

lemma idle_loop:
  assumes "fd_in_range K fd" and "fd_in_range K (fst (mWakeupPipe s))" and "fd \<le> fdmax"
  shows "0 \<le> i \<Longrightarrow> i + int k \<le> fd \<Longrightarrow>
    threads_run K serverMax (replicate (3 * k) Loop) (s\<lparr>th_loop := At_read i fdmax {} {fd}\<rparr>) =
      (Inr (), s\<lparr>th_loop := At_read (i + int k) fdmax {} {fd}\<rparr>)"
proof (induction k arbitrary: i)
  case 0
  then show ?case by (simp add: threads_run_def act_simps)
next
  case (Suc k)
  have "threads_run K serverMax (replicate (3 * Suc k) Loop) (s\<lparr>th_loop := At_read i fdmax {} {fd}\<rparr>) =
    threads_run K serverMax (replicate (3 * k) Loop) (s\<lparr>th_loop := At_read (i + 1) fdmax {} {fd}\<rparr>)"
    using assms Suc.prems
    by (simp add: numeral_eq_Suc threads_run_def loop_run_def loop_step.simps FD_ISSET_def check_fd_def
        fd_in_range_def Server_drain_wakeup_def seqE_def bindE_def act_simps)
  also have "\<dots> = (Inr (), s\<lparr>th_loop := At_read (i + 1 + int k) fdmax {} {fd}\<rparr>)"
    by (rule Suc.IH) (use Suc.prems in auto)
  finally show ?case by (simp add: add.assoc)
qed

text \<open>At its descriptor, the loop writes a connection that has nothing pending.\<close>

lemma empty_write_branch:
  assumes inv: "conns_inv K s" and p: "p \<in> set (mContainer s)" "sock_of s p = fd" "outgoing_of s p = []"
    and s: "mConnections s = Connections_ptr" "fd_in_range K (fst (mWakeupPipe s))" and fd: "fd \<le> fdmax"
  shows "fst (threads_run K serverMax (replicate 4 Loop) (s\<lparr>th_loop := At_read fd fdmax {} {fd}\<rparr>)) =
    Inl (Undefined_behaviour ''element of an empty vector'')"
proof -
  obtain c where c: "sc_heap s p = Some c" using conns_inv_liveD [OF inv p(1)] by blast
  have "p \<noteq> null" "fd_in_range K fd" using inv p(1,2) by (auto simp: conns_inv_def conns_live_def)
  moreover have "Connections_getServerConnection_fd fd (s\<lparr>th_loop := pc\<rparr>) = (Inr p, s\<lparr>th_loop := pc\<rparr>)" for pc
  proof -
    have "conns_inv K (s\<lparr>th_loop := pc\<rparr>)"
      by (rule conns_inv_cong [OF inv]) (use conns_inv_liveD [OF inv] in \<open>auto simp: sock_of_def ident_of_def\<close>)
    moreover have "sock_of (s\<lparr>th_loop := pc\<rparr>) p = fd" using p(2) by (simp add: sock_of_def)
    ultimately show ?thesis
      using getServerConnection_fd_run(1) [of K "s\<lparr>th_loop := pc\<rparr>" p] p(1) by simp
  qed
  ultimately show ?thesis
    using s c p(3) fd
    by (simp add: numeral_eq_Suc threads_run_def loop_run_def loop_step.simps FD_ISSET_def check_fd_def
        Server_drain_wakeup_def on_connections_def Server_getCallback_def outgoing_of_def
        ServerConnection_sendQueuedMessage_def sc_swap_out_def seqE_def bindE_def act_simps)
qed

text \<open>
  C13 \<open>send\<close> puts the descriptor into the write set before it queues the bytes. If the loop
  runs an iteration between the two statements, and nothing was pending for the connection,
  \<open>select\<close> reports the socket as writable and the loop writes an empty vector: reading its
  first element is undefined behaviour, whatever the message is.
\<close>

theorem server_send_watches_before_queueing:
  assumes "conns_inv K s" and "mConnections s = Connections_ptr"
    and "mMapping s ident = Some p" and "sock_of s p = fd" and "outgoing_of s p = []"
    and "\<not> mHasBeenShutdown s" and "th_senders s = []" and "th_loop s = At_loop_test"
    and "fd_in_range K (fst (mWakeupPipe s))"
    and "\<forall>tr. k_select K tr (max serverMax (mFdMax s) + 1) (mRead s) (insert fd (mMasterWrite s)) = (1, {}, {fd})"
  shows "fst (threads_run K serverMax
      ([Call d ident, Sender 0, Sender 0] @ replicate (3 * nat fd + 6) Loop) s) =
    Inl (Undefined_behaviour ''element of an empty vector'')"
proof -
  have p: "p \<in> set (mContainer s)" "p \<noteq> null" "fd_in_range K fd" "\<exists>c. sc_heap s p = Some c"
    using conns_inv_mappedD [OF assms(1,3)] assms(4) by simp_all
  then obtain c where c: "sc_heap s p = Some c" by blast
  have fd: "sc_mSocket c = fd" "mOutgoingBytes c = []" "0 \<le> fd"
    using assms(4,5) c p(3) by (simp_all add: sock_of_def outgoing_of_def fd_in_range_def)
  define fdmax where "fdmax = max serverMax (mFdMax s)"
  have "fd \<le> fdmax"
    using max_sock_ge [OF p(1), of s] assms(1,4) by (simp add: fdmax_def conns_inv_def)
  define s1 where "s1 = s\<lparr>mMasterWrite := insert fd (mMasterWrite s), th_senders := [Send_queue d p]\<rparr>"
  have run1: "threads_run K serverMax ([Call d ident, Sender 0, Sender 0] @ ts) s = threads_run K serverMax ts s1" for ts
    using assms c fd p(2,3)
    by (simp add: threads_run_def sender_run_def seqE_def bindE_def tryE_def act_simps on_connections_def
        getServerConnection_id_eq s1_def)
  define s2 where "s2 = s1\<lparr>io_trace := io_trace s @ [Ev_select (fdmax + 1) (mRead s) (insert fd (mMasterWrite s)) 1 {} {fd}]\<rparr>"
  have run2: "threads_run K serverMax (replicate 2 Loop @ ts) s1 =
      threads_run K serverMax ts (s2\<lparr>th_loop := At_read 0 fdmax {} {fd}\<rparr>)" for ts
    using assms
    by (simp add: numeral_eq_Suc threads_run_def loop_run_def loop_step.simps seqE_def bindE_def act_simps on_connections_def
        Connections_getMax_def sys_select_def s1_def s2_def fdmax_def)
  have run3: "threads_run K serverMax (replicate (3 * nat fd) Loop @ ts) (s2\<lparr>th_loop := At_read 0 fdmax {} {fd}\<rparr>) =
      threads_run K serverMax ts (s2\<lparr>th_loop := At_read fd fdmax {} {fd}\<rparr>)" for ts
    using idle_loop [of K fd s2 fdmax 0 "nat fd" serverMax] p(3) fd(3) assms(9) \<open>fd \<le> fdmax\<close>
    by (simp add: threads_run_append seqE_def bindE_def s1_def s2_def)
  have s2: "sc_heap s2 = sc_heap s" "mContainer s2 = mContainer s" "mMapping s2 = mMapping s"
    "mRead s2 = mRead s" "mFdMax s2 = mFdMax s" "mConnections s2 = Connections_ptr" "mWakeupPipe s2 = mWakeupPipe s"
    using assms(2) by (simp_all add: s2_def s1_def)
  have "conns_inv K s2"
    by (rule conns_inv_cong [OF assms(1)])
      (use conns_inv_liveD [OF assms(1)] s2 in \<open>auto simp: sock_of_def ident_of_def\<close>)
  then have run4: "fst (threads_run K serverMax (replicate 4 Loop) (s2\<lparr>th_loop := At_read fd fdmax {} {fd}\<rparr>)) =
      Inl (Undefined_behaviour ''element of an empty vector'')"
    by (rule empty_write_branch) (use p(1) c fd(1,2) s2 assms(9) \<open>fd \<le> fdmax\<close> in \<open>auto simp: sock_of_def outgoing_of_def\<close>)
  have "[Call d ident, Sender 0, Sender 0] @ replicate (3 * nat fd + 6) Loop =
     [Call d ident, Sender 0, Sender 0] @ replicate 2 Loop @ replicate (3 * nat fd) Loop @ replicate 4 Loop"
    by (simp add: replicate_add [symmetric] add.commute)
  then show ?thesis by (simp only: run1 run2 run3 run4)
qed

theorem server_send_watches_before_queueing_witness:
  "fst (threads_run (scripted (\<lambda>_ _. []) (\<lambda>_. ({}, {5}))) 4
      ([Call ''hi'' ''bob'', Sender 0, Sender 0] @ replicate 21 Loop) threads_server) =
   Inl (Undefined_behaviour ''element of an empty vector'')"
proof -
  let ?K = "scripted (\<lambda>_ _. []) (\<lambda>_. ({}, {5}))"
  have "conns_inv ?K threads_server"
    using threads_server_inv [of ?K At_loop_test] by (simp add: scripted_def threads_server_def)
  moreover have "\<forall>tr. k_select ?K tr (max 4 (mFdMax threads_server) + 1) (mRead threads_server)
      (insert 5 (mMasterWrite threads_server)) = (1, {}, {5})"
    by (auto simp: scripted_def threads_server_def)
  ultimately show ?thesis
    using server_send_watches_before_queueing [of ?K threads_server "''bob''" 1 5 4 "''hi''"]
    by (simp add: threads_server_def sock_of_def outgoing_of_def accepted_def fd_in_range_def scripted_def)
qed

end
