(* ===== verification/Facades.thy ===== *)
theory Facades
  imports Posix_Server_Loop Posix_Client_Facts
begin

text \<open>
  \<open>server/Server.cpp\<close> and \<open>client/Client.cpp\<close>: the platform-independent classes of
  namespace \<open>tcp\<close>, here on the posix implementation. Each owns a callback object, which
  forwards the data received to the user's class and drops every other event, and a wrapper
  around the platform object, which forwards calls. The wrappers have no destructor, so
  deleting one does not delete the platform object behind it.
\<close>

section \<open>The callback objects\<close>

text \<open>
  What the user's class is told of an event of the platform: \<open>receiveComplete\<close> is
  forwarded, the other four have empty bodies.
\<close>

datatype user_event = User_receiveComplete bytes bytes

fun PlatformCallback_forward :: "callback_event \<Rightarrow> user_event list" where
  "PlatformCallback_forward (Cb_receiveComplete ident d) = [User_receiveComplete ident d]"
| "PlatformCallback_forward (Cb_sendComplete ident n) = []"
| "PlatformCallback_forward (Cb_sendFailed ident msg) = []"
| "PlatformCallback_forward (Cb_connected ident) = []"
| "PlatformCallback_forward (Cb_disconnected ident) = []"

fun tcp_Client_callback :: "callback_event \<Rightarrow> user_event list" where
  "tcp_Client_callback (Cb_receiveComplete ident d) = [User_receiveComplete ident d]"
| "tcp_Client_callback (Cb_sendComplete ident n) = []"
| "tcp_Client_callback (Cb_sendFailed ident msg) = []"
| "tcp_Client_callback (Cb_connected ident) = []"
| "tcp_Client_callback (Cb_disconnected ident) = []"

definition user_events :: "(callback_event \<Rightarrow> user_event list) \<Rightarrow> event list \<Rightarrow> user_event list" where
  "user_events f tr = concat (map f (callbacks tr))"

lemma user_events_simps [simp]:
  "user_events f [] = []"
  "user_events f (a @ b) = user_events f a @ user_events f b"
  "user_events f (e # a) = concat (map f (callback_of e)) @ user_events f a"
  by (simp_all add: user_events_def)

section \<open>The server\<close>

text \<open>The pointers of the facade: whether each points to an object.\<close>

record tcp_server = server +
  fs_mCallback :: bool
  fs_mServer :: bool

definition PlatformServer_ctor :: "posix \<Rightarrow> 32 word \<Rightarrow> ('a tcp_server_scheme, unit) act" where
  "PlatformServer_ctor K port = bindE (gets fs_mCallback) (\<lambda>callback. Server_ctor K callback port)"

definition PlatformServer_waitForEvents ::
    "posix \<Rightarrow> api_call list list \<Rightarrow> ('a tcp_server_scheme, bool) act" where
  "PlatformServer_waitForEvents K schedule = Server_waitForEvents K schedule"

definition PlatformServer_send :: "posix \<Rightarrow> bytes \<Rightarrow> bytes \<Rightarrow> ('a tcp_server_scheme, unit) act" where
  "PlatformServer_send K data identifier = Server_send K data identifier"

definition PlatformServer_broadcast :: "posix \<Rightarrow> bytes \<Rightarrow> ('a tcp_server_scheme, unit) act" where
  "PlatformServer_broadcast K data = Server_broadcast K data"

definition PlatformServer_shutdown :: "posix \<Rightarrow> ('a tcp_server_scheme, unit) act" where
  "PlatformServer_shutdown K = Server_shutdown K"

definition tcp_Server_ctor :: "posix \<Rightarrow> 32 word \<Rightarrow> ('a tcp_server_scheme, unit) act" where
  "tcp_Server_ctor K port =
     seqE (modify (\<lambda>s. s\<lparr>fs_mCallback := True\<rparr>))
    (seqE (PlatformServer_ctor K port)
       (modify (\<lambda>s. s\<lparr>fs_mServer := True\<rparr>)))"

definition tcp_Server_waitForEvents ::
    "posix \<Rightarrow> api_call list list \<Rightarrow> ('a tcp_server_scheme, bool) act" where
  "tcp_Server_waitForEvents K schedule = PlatformServer_waitForEvents K schedule"

definition tcp_Server_send :: "posix \<Rightarrow> bytes \<Rightarrow> bytes \<Rightarrow> ('a tcp_server_scheme, unit) act" where
  "tcp_Server_send K data identifier = PlatformServer_send K data identifier"

definition tcp_Server_broadcast :: "posix \<Rightarrow> bytes \<Rightarrow> ('a tcp_server_scheme, unit) act" where
  "tcp_Server_broadcast K data = PlatformServer_broadcast K data"

definition tcp_Server_shutdown :: "posix \<Rightarrow> ('a tcp_server_scheme, unit) act" where
  "tcp_Server_shutdown K = PlatformServer_shutdown K"

text \<open>
  \<open>delete mServer\<close> frees the wrapper only. The destructor of the platform server is not run.
\<close>

definition tcp_Server_destructor :: "posix \<Rightarrow> ('a tcp_server_scheme, unit) act" where
  "tcp_Server_destructor K =
     noexceptE
       (seqE (PlatformServer_shutdown K)
       (seqE (modify (\<lambda>s. s\<lparr>fs_mServer := False\<rparr>))
          (modify (\<lambda>s. s\<lparr>fs_mCallback := False\<rparr>))))"

section \<open>The client\<close>

record tcp_client = client +
  fc_mCallback :: bool
  fc_mClient :: bool

definition PlatformClient_ctor ::
    "posix \<Rightarrow> string \<Rightarrow> 32 word \<Rightarrow> bytes \<Rightarrow> ('a tcp_client_scheme, unit) act" where
  "PlatformClient_ctor K hostname port onConnectMessage =
     bindE (gets fc_mCallback) (\<lambda>callback. Client_ctor K callback hostname port onConnectMessage)"

definition PlatformClient_waitForEvents ::
    "posix \<Rightarrow> client_call list list \<Rightarrow> ('a tcp_client_scheme, bool) act" where
  "PlatformClient_waitForEvents K schedule = Client_waitForEvents K schedule"

definition PlatformClient_send :: "posix \<Rightarrow> bytes \<Rightarrow> ('a tcp_client_scheme, unit) act" where
  "PlatformClient_send K data = Client_sendDataToServer K data"

definition PlatformClient_disconnect :: "posix \<Rightarrow> ('a tcp_client_scheme, unit) act" where
  "PlatformClient_disconnect K = Client_disconnect K"

definition tcp_Client_ctor ::
    "posix \<Rightarrow> string \<Rightarrow> 32 word \<Rightarrow> bytes \<Rightarrow> ('a tcp_client_scheme, unit) act" where
  "tcp_Client_ctor K hostname port onConnectMessage =
     seqE (modify (\<lambda>s. s\<lparr>fc_mCallback := True\<rparr>))
    (seqE (PlatformClient_ctor K hostname port onConnectMessage)
       (modify (\<lambda>s. s\<lparr>fc_mClient := True\<rparr>)))"

definition tcp_Client_waitForEvents ::
    "posix \<Rightarrow> client_call list list \<Rightarrow> ('a tcp_client_scheme, bool) act" where
  "tcp_Client_waitForEvents K schedule = PlatformClient_waitForEvents K schedule"

definition tcp_Client_sendDataToServer :: "posix \<Rightarrow> bytes \<Rightarrow> ('a tcp_client_scheme, unit) act" where
  "tcp_Client_sendDataToServer K data = PlatformClient_send K data"

definition tcp_Client_disconnect :: "posix \<Rightarrow> ('a tcp_client_scheme, unit) act" where
  "tcp_Client_disconnect K = PlatformClient_disconnect K"

definition tcp_Client_destructor :: "posix \<Rightarrow> ('a tcp_client_scheme, unit) act" where
  "tcp_Client_destructor K =
     noexceptE
       (seqE (PlatformClient_disconnect K)
       (seqE (modify (\<lambda>s. s\<lparr>fc_mClient := False\<rparr>))
          (modify (\<lambda>s. s\<lparr>fc_mCallback := False\<rparr>))))"

section \<open>Properties\<close>

text \<open>
  C40 Destroying the platform-independent server closes only the listening descriptor, and
  closes it again when the server had been shut down before: every connection object, and
  every descriptor of a connection, outlives the server, because the platform server is
  never deleted.
\<close>

theorem tcp_server_destructor_leaks_connections:
  assumes "mConnectSocket s = Some sck"
  shows "\<exists>s' tr. tcp_Server_destructor K s = (Inr (), s') \<and> io_trace s' = io_trace s @ tr \<and>
    closes tr = [mSocket sck] \<and> open_fds (io_trace s') = open_fds (io_trace s) - {mSocket sck} \<and>
    mContainer s' = mContainer s \<and> sc_heap s' = sc_heap s \<and> \<not> fs_mServer s' \<and>
    (\<exists>s'' tr'. PlatformServer_shutdown K s = (Inr (), s'') \<and> tcp_Server_destructor K s'' = (Inr (), s''\<lparr>io_trace := io_trace s @ tr',
       fs_mServer := False, fs_mCallback := False\<rparr>) \<and> closes tr' = [mSocket sck, mSocket sck])"
proof -
  have down: "\<exists>tr. Server_shutdown K t = (Inr (), t\<lparr>mHasBeenShutdown := True, io_trace := io_trace t @ tr\<rparr>) \<and>
      open_fds (io_trace t @ tr) = open_fds (io_trace t) - {mSocket sck} \<and> closes tr = [mSocket sck]"
    if "mConnectSocket t = Some sck" for t :: "'a tcp_server_scheme"
    using shutdown_run [OF that] .
  obtain tr where tr: "Server_shutdown K s = (Inr (), s\<lparr>mHasBeenShutdown := True, io_trace := io_trace s @ tr\<rparr>)"
    "open_fds (io_trace s @ tr) = open_fds (io_trace s) - {mSocket sck}" "closes tr = [mSocket sck]"
    using down [OF assms] by blast
  let ?s1 = "s\<lparr>mHasBeenShutdown := True, io_trace := io_trace s @ tr\<rparr>"
  obtain tr2 where tr2: "Server_shutdown K ?s1 = (Inr (), ?s1\<lparr>mHasBeenShutdown := True, io_trace := io_trace ?s1 @ tr2\<rparr>)"
    "closes tr2 = [mSocket sck]"
    using down [of ?s1] assms by auto
  have first: "tcp_Server_destructor K s = (Inr (), ?s1\<lparr>fs_mServer := False, fs_mCallback := False\<rparr>)"
    using tr(1) by (simp add: tcp_Server_destructor_def PlatformServer_shutdown_def noexceptE_def
        seqE_def bindE_def act_simps)
  have second: "tcp_Server_destructor K ?s1 = (Inr (), ?s1\<lparr>io_trace := io_trace s @ tr @ tr2,
       fs_mServer := False, fs_mCallback := False\<rparr>)"
    using tr2(1) by (simp add: tcp_Server_destructor_def PlatformServer_shutdown_def noexceptE_def
        seqE_def bindE_def act_simps)
  have twice: "\<exists>s'' tr'. PlatformServer_shutdown K s = (Inr (), s'') \<and>
      tcp_Server_destructor K s'' = (Inr (), s''\<lparr>io_trace := io_trace s @ tr', fs_mServer := False,
        fs_mCallback := False\<rparr>) \<and> closes tr' = [mSocket sck, mSocket sck]"
    using second tr tr2 by (intro exI [of _ ?s1] exI [of _ "tr @ tr2"]) (simp add: PlatformServer_shutdown_def)
  show ?thesis
    using twice first tr by simp
qed

definition sample_tcp_server :: tcp_server where
  "sample_tcp_server = server.extend sample_server \<lparr>fs_mCallback = True, fs_mServer = True\<rparr>"

theorem tcp_server_destructor_leaks_connections_witness:
  "\<exists>s' tr. tcp_Server_destructor sample_kernel sample_tcp_server = (Inr (), s') \<and>
    closes tr = [3] \<and> mContainer s' = [1, 2] \<and> io_trace s' = io_trace sample_tcp_server @ tr"
proof -
  have "mConnectSocket sample_tcp_server = Some \<lparr>mSocket = 3\<rparr>" "mContainer sample_tcp_server = [1, 2]"
    by (simp_all add: sample_tcp_server_def server.extend_def sample_server_def)
  from tcp_server_destructor_leaks_connections [OF this(1), of sample_kernel] this(2)
  show ?thesis by auto
qed

text \<open>
  Through the platform-independent client the user hears of nothing but received data: a
  write that the kernel refused is reported as complete by the platform client, and then
  dropped by the callback object, as is the notice of a connection that ended.
\<close>

theorem tcp_client_user_hears_only_data:
  assumes "cl_mOutgoingBytes s \<noteq> []" and "fd_in_range K (cl_mSocket s)"
    and "k_recv K (io_trace s) (cl_mSocket s) cl_MAX_BUFFER_SIZE MSG_WAITALL = (int (length d), d)"
    and "d \<noteq> []" and "cl_mCallback s"
  shows "\<exists>s1 s2. Client_write K s = (Inr (), s1) \<and>
    user_events tcp_Client_callback (io_trace s1) = user_events tcp_Client_callback (io_trace s) \<and>
    Client_read K s = (Inr (), s2) \<and>
    user_events tcp_Client_callback (io_trace s2) =
      user_events tcp_Client_callback (io_trace s) @ [User_receiveComplete (cl_mIdentifier s) d]"
proof -
  obtain s1 where "Client_write K s = (Inr (), s1)" "io_trace s1 = io_trace s @
      [Ev_send (cl_mSocket s) (cl_mOutgoingBytes s) (k_send K (io_trace s) (cl_mSocket s) (cl_mOutgoingBytes s)),
       Ev_callback (Cb_sendComplete (cl_mIdentifier s) (length (cl_mOutgoingBytes s)))]"
    using client_write_run [OF assms(1,2) refl] assms(5) by auto
  moreover have "\<exists>s2. Client_read K s = (Inr (), s2) \<and> io_trace s2 = io_trace s @
      [Ev_recv (cl_mSocket s) cl_MAX_BUFFER_SIZE MSG_WAITALL (int (length d)) d,
       Ev_callback (Cb_receiveComplete (cl_mIdentifier s) d)]"
    using assms(3-5)
    by (simp add: Client_read_def Client_getCallback_def seqE_def bindE_def act_simps sys_recv_def
        call_callback_def emit_def cl_store_def)
  ultimately show ?thesis by auto
qed

theorem tcp_client_user_hears_only_data_witness:
  "\<exists>s1 s2. Client_write client_kernel (cl_enqueue ''hi'' connected_sample) = (Inr (), s1) \<and>
    user_events tcp_Client_callback (io_trace s1) = [] \<and>
    Client_read client_kernel (cl_enqueue ''hi'' connected_sample) = (Inr (), s2) \<and>
    user_events tcp_Client_callback (io_trace s2) = [User_receiveComplete ''alice'' ''ack'']"
proof -
  let ?s = "cl_enqueue ''hi'' connected_sample"
  have "cl_mOutgoingBytes ?s \<noteq> []" "fd_in_range client_kernel (cl_mSocket ?s)" "cl_mCallback ?s"
    "k_recv client_kernel (io_trace ?s) (cl_mSocket ?s) cl_MAX_BUFFER_SIZE MSG_WAITALL = (int (length ''ack''), ''ack'')"
    using connected_sample_facts(2)
    by (simp_all add: connected_sample_def client_blank_def client_kernel_def scripted_def cl_MAX_BUFFER_SIZE_def)
  moreover have "user_events tcp_Client_callback (io_trace ?s) = []" "cl_mIdentifier ?s = ''alice''"
    by (simp_all add: connected_sample_def client_blank_def)
  ultimately show ?thesis
    using tcp_client_user_hears_only_data [of ?s client_kernel "''ack''"] by auto
qed

text \<open>
  Destroying the platform-independent client of a connection that the server has already
  closed closes nothing: the socket of the platform client stays open and its object is never
  deleted. Of a connected client it closes exactly the socket, and where the poll before that
  fails the process is terminated.
\<close>

theorem tcp_client_destructor:
  "if \<not> cl_mConnected s
    then \<exists>s'. tcp_Client_destructor K s = (Inr (), s') \<and> io_trace s' = io_trace s
    else if k_poll K (io_trace s) (cl_mSocket s) Poll_out \<noteq> -1
    then \<exists>s'. tcp_Client_destructor K s = (Inr (), s') \<and>
      open_fds (io_trace s') = open_fds (io_trace s) - {cl_mSocket s}
    else \<exists>s'. tcp_Client_destructor K s = (Inl Std_terminate, s')"
  by (simp add: tcp_Client_destructor_def PlatformClient_disconnect_def Client_disconnect_def
      Client_performWakeup_def noexceptE_def seqE_def bindE_def act_simps sys_defs Let_def
      close_events_def open_fds_append)

end
