(* ===== verification/Server_Race.thy ===== *)
theory Server_Race
  imports Posix_Server_Calls
begin

text \<open>
  The loop of the posix server and the threads that send share the write set and the queues
  without a lock. Here the two statements of the private \<open>send\<close> and the two of the loop's
  write branch are steps of their own, and their interleavings are compared with the two
  orders in which one thread finishes before the other starts.
\<close>

section \<open>Steps\<close>

datatype micro_step = Set_interest | Queue_message | Send_pending | Clear_interest

fun micro_run :: "posix \<Rightarrow> addr \<Rightarrow> bytes \<Rightarrow> micro_step \<Rightarrow> ('a server_scheme, unit) act" where
  "micro_run K p d Set_interest =
     bindE (ServerConnection_getSocket p) (\<lambda>sckt.
     seqE (check_fd K sckt)
       (modify (\<lambda>s. s\<lparr>mMasterWrite := insert sckt (mMasterWrite s)\<rparr>)))"
| "micro_run K p d Queue_message = ServerConnection_addQueuedMessage p d"
| "micro_run K p d Send_pending =
     bindE Server_getCallback (\<lambda>cb. ServerConnection_sendQueuedMessage K cb p)"
| "micro_run K p d Clear_interest =
     bindE (ServerConnection_getSocket p) (\<lambda>sckt.
     modify (\<lambda>s. s\<lparr>mMasterWrite := mMasterWrite s - {sckt}\<rparr>))"

definition sender_steps :: "micro_step list" where
  "sender_steps = [Set_interest, Queue_message]"

definition loop_steps :: "micro_step list" where
  "loop_steps = [Send_pending, Clear_interest]"

definition interleaving :: "posix \<Rightarrow> addr \<Rightarrow> bytes \<Rightarrow> micro_step list \<Rightarrow> ('a server_scheme, unit) act" where
  "interleaving K p d zs = for_each (micro_run K p d) zs"

text \<open>Run without interruption, the sender's steps are the model's \<open>send\<close>.\<close>

lemma sender_steps_atomic: "interleaving K p d sender_steps s = Server_send_connection K d p s"
proof (cases "sc_heap s p")
  case None
  then show ?thesis
    by (simp add: interleaving_def sender_steps_def Server_send_connection_def
        ServerConnection_getSocket_def seqE_def bindE_def act_simps)
next
  case (Some c)
  then show ?thesis
    by (simp add: interleaving_def sender_steps_def Server_send_connection_def
        ServerConnection_addQueuedMessage_def seqE_def bindE_def act_simps check_fd_def)
qed

lemma interleavings:
  "shuffles sender_steps loop_steps =
     {[Set_interest, Queue_message, Send_pending, Clear_interest],
      [Set_interest, Send_pending, Queue_message, Clear_interest],
      [Set_interest, Send_pending, Clear_interest, Queue_message],
      [Send_pending, Set_interest, Queue_message, Clear_interest],
      [Send_pending, Set_interest, Clear_interest, Queue_message],
      [Send_pending, Clear_interest, Set_interest, Queue_message]}"
  unfolding sender_steps_def loop_steps_def by (auto simp: insert_commute)

text \<open>A message is stuck when it is pending and the loop does not watch its descriptor.\<close>

definition stuck :: "addr \<Rightarrow> 'a server_scheme \<Rightarrow> bool" where
  "stuck p s \<longleftrightarrow> (\<exists>c. sc_heap s p = Some c \<and> mOutgoingBytes c \<noteq> [] \<and> sc_mSocket c \<notin> mMasterWrite s)"

text \<open>
  What the steps do to the pending bytes of the connection and to the loop's interest in its
  descriptor; writing nothing is undefined behaviour.
\<close>

fun micro_abs :: "bytes \<Rightarrow> micro_step \<Rightarrow> bytes \<times> bool \<Rightarrow> (bytes \<times> bool) option" where
  "micro_abs d Set_interest (pending, watched) = Some (pending, True)"
| "micro_abs d Queue_message (pending, watched) = Some (d @ pending, watched)"
| "micro_abs d Send_pending (pending, watched) = (if pending = [] then None else Some ([], watched))"
| "micro_abs d Clear_interest (pending, watched) = Some (pending, False)"

fun micro_abs_all :: "bytes \<Rightarrow> micro_step list \<Rightarrow> bytes \<times> bool \<Rightarrow> (bytes \<times> bool) option" where
  "micro_abs_all d [] a = Some a"
| "micro_abs_all d (z # zs) a =
     (case micro_abs d z a of None \<Rightarrow> None | Some a' \<Rightarrow> micro_abs_all d zs a')"

definition represents :: "posix \<Rightarrow> addr \<Rightarrow> bytes \<times> bool \<Rightarrow> 'a server_scheme \<Rightarrow> bool" where
  "represents K p a s \<longleftrightarrow> srv_mCallback s \<and>
     (\<exists>c. sc_heap s p = Some c \<and> fd_in_range K (sc_mSocket c) \<and> mOutgoingBytes c = fst a \<and>
          (sc_mSocket c \<in> mMasterWrite s \<longleftrightarrow> snd a))"

lemma represents_stuck: "represents K p a s \<Longrightarrow> stuck p s \<longleftrightarrow> fst a \<noteq> [] \<and> \<not> snd a"
  by (auto simp: represents_def stuck_def)

lemma micro_step_refines:
  assumes "represents K p a s" and "micro_abs d z a = Some a'"
  shows "\<exists>s'. micro_run K p d z s = (Inr (), s') \<and> represents K p a' s'"
proof -
  obtain c where c: "srv_mCallback s" "sc_heap s p = Some c" "fd_in_range K (sc_mSocket c)"
    "mOutgoingBytes c = fst a" "sc_mSocket c \<in> mMasterWrite s \<longleftrightarrow> snd a"
    using assms(1) by (auto simp: represents_def)
  show ?thesis
  proof (cases z)
    case Set_interest
    then show ?thesis
      using assms(2) c
      by (cases a) (auto simp: seqE_def bindE_def act_simps represents_def)
  next
    case Queue_message
    then show ?thesis
      using assms(2) c
      by (cases a) (auto simp: ServerConnection_addQueuedMessage_def act_simps represents_def
          sc_enqueue_def vector_insert_begin_def)
  next
    case Send_pending
    then have "mOutgoingBytes c \<noteq> []" using assms(2) c(4) by (cases a) (auto split: if_splits)
    then show ?thesis
      using Send_pending assms(2) c sendQueuedMessage_run [OF c(2) _ refl, of K]
      by (cases a) (auto simp: bindE_def act_simps Server_getCallback_def represents_def)
  next
    case Clear_interest
    then show ?thesis
      using assms(2) c by (cases a) (auto simp: bindE_def act_simps represents_def)
  qed
qed

lemma interleaving_refines:
  "represents K p a s \<Longrightarrow> micro_abs_all d zs a = Some a' \<Longrightarrow>
   \<exists>s'. interleaving K p d zs s = (Inr (), s') \<and> represents K p a' s'"
proof (induction zs arbitrary: a s)
  case Nil
  then show ?case by (simp add: interleaving_def act_simps)
next
  case (Cons z zs)
  obtain a1 where a1: "micro_abs d z a = Some a1" "micro_abs_all d zs a1 = Some a'"
    using Cons.prems(2) by (auto split: option.splits)
  obtain s1 where s1: "micro_run K p d z s = (Inr (), s1)" "represents K p a1 s1"
    using micro_step_refines [OF Cons.prems(1) a1(1)] by blast
  from Cons.IH [OF s1(2) a1(2)] s1(1) show ?case
    by (auto simp: interleaving_def seqE_def bindE_def)
qed

section \<open>Properties\<close>

text \<open>
  C21 Of the six ways in which a thread that sends and the loop that writes the same
  connection can interleave, only the two in which one finishes before the other starts are
  right. In each of the other four the new message ends up pending with its descriptor out
  of the write set: it is never sent until some later message to the same connection.
\<close>

theorem send_races_with_loop:
  assumes "sc_heap s p = Some c" and "fd_in_range K (sc_mSocket c)" and "srv_mCallback s"
    and "mOutgoingBytes c \<noteq> []" and "d \<noteq> []" and "zs \<in> shuffles sender_steps loop_steps"
  shows "\<exists>s'. interleaving K p d zs s = (Inr (), s') \<and>
    (stuck p s' \<longleftrightarrow> zs \<notin> {sender_steps @ loop_steps, loop_steps @ sender_steps})"
proof -
  let ?a = "(mOutgoingBytes c, sc_mSocket c \<in> mMasterWrite s)"
  have start: "represents K p ?a s" using assms(1-3) by (simp add: represents_def)
  have "\<exists>a'. micro_abs_all d zs ?a = Some a' \<and>
    ((fst a' \<noteq> [] \<and> \<not> snd a') \<longleftrightarrow> zs \<notin> {sender_steps @ loop_steps, loop_steps @ sender_steps})"
    using assms(6) unfolding interleavings
    by (elim insertE emptyE) (simp_all add: assms(4,5) sender_steps_def loop_steps_def)
  then show ?thesis
    using interleaving_refines [OF start] represents_stuck by blast
qed

theorem send_races_with_loop_witness:
  "\<exists>s'. interleaving sample_kernel 2 ''late'' [Set_interest, Send_pending, Queue_message, Clear_interest]
      (sample_server\<lparr>sc_heap := [2 \<mapsto> sc_enqueue ''early'' (accepted sample_kernel 8 ''bob'')],
        mMasterWrite := {8}\<rparr>) = (Inr (), s') \<and> stuck 2 s'"
proof -
  let ?c = "sc_enqueue ''early'' (accepted sample_kernel 8 ''bob'')"
  let ?s = "sample_server\<lparr>sc_heap := [2 \<mapsto> ?c], mMasterWrite := {8}\<rparr>"
  let ?zs = "[Set_interest, Send_pending, Queue_message, Clear_interest]"
  have "sc_heap ?s 2 = Some ?c" "fd_in_range sample_kernel (sc_mSocket ?c)" "srv_mCallback ?s"
    "mOutgoingBytes ?c \<noteq> []"
    by (simp_all add: sc_enqueue_def accepted_def vector_insert_begin_def fd_in_range_def
        sample_kernel_def scripted_def sample_server_def)
  moreover have "?zs \<in> shuffles sender_steps loop_steps" by (simp add: interleavings)
  moreover have "?zs \<notin> {sender_steps @ loop_steps, loop_steps @ sender_steps}"
    by (simp add: sender_steps_def loop_steps_def)
  ultimately show ?thesis
    using send_races_with_loop [of ?s 2 ?c sample_kernel "''late''" ?zs] by blast
qed

end
