(* ===== verification/Server_Mailboxes.thy ===== *)
theory Server_Mailboxes
  imports Server_Race
begin

text \<open>
  What the posix server promises to the threads that send, as an abstract specification:
  a mailbox of pending bytes for every identifier, with a flag that says whether the loop
  watches it. The calls of other threads and the write branch of the loop refine it; the
  micro steps of \<open>Server_Race\<close>, run in order, are the operations themselves.
\<close>

section \<open>The specification\<close>

type_synonym mailboxes = "bytes \<rightharpoonup> bytes \<times> bool"

fun spec_call :: "api_call \<Rightarrow> mailboxes \<times> bool \<Rightarrow> mailboxes \<times> bool" where
  "spec_call (Send d i) (m, down) =
     ((case m i of None \<Rightarrow> m | Some (b, w) \<Rightarrow> m(i \<mapsto> (d @ b, True))), down)"
| "spec_call (Broadcast d) (m, down) = (\<lambda>i. map_option (\<lambda>(b, w). (d @ b, True)) (m i), down)"
| "spec_call Shutdown (m, down) = (m, True)"

definition spec_flush :: "bytes \<Rightarrow> mailboxes \<times> bool \<Rightarrow> mailboxes \<times> bool" where
  "spec_flush i a = ((fst a)(i \<mapsto> ([], False)), snd a)"

text \<open>The abstraction: what is pending for the connection that an identifier leads to.\<close>

definition mailbox_of :: "'a server_scheme \<Rightarrow> addr \<Rightarrow> bytes \<times> bool" where
  "mailbox_of s p = (mOutgoingBytes (the (sc_heap s p)), sock_of s p \<in> mMasterWrite s)"

definition mailboxes :: "'a server_scheme \<Rightarrow> mailboxes \<times> bool" where
  "mailboxes s = (\<lambda>i. map_option (mailbox_of s) (mMapping s i), mHasBeenShutdown s)"

lemma mailbox_of_updates [simp]:
  "mailbox_of (s\<lparr>io_trace := tr\<rparr>) = mailbox_of s"
  "mailbox_of (s\<lparr>mHasBeenShutdown := b\<rparr>) = mailbox_of s"
  by (simp_all add: mailbox_of_def sock_of_def fun_eq_iff)

text \<open>What holds between the calls.\<close>

definition serving :: "posix \<Rightarrow> 'a server_scheme \<Rightarrow> bool" where
  "serving K s \<longleftrightarrow> mConnections s = Connections_ptr \<and> mConnectSocket s \<noteq> None \<and> conns_inv K s"

lemma serving_mapped:
  assumes "serving K s" and "mMapping s i = Some p"
  shows "p \<in> set (mContainer s)" "\<exists>c. sc_heap s p = Some c"
    "mMapping s j = Some q \<Longrightarrow> sock_of s q = sock_of s p \<longleftrightarrow> j = i" "mMapping s j = Some p \<Longrightarrow> j = i"
proof -
  have inv: "conns_inv K s" using assms(1) by (simp add: serving_def)
  show p: "p \<in> set (mContainer s)" and "\<exists>c. sc_heap s p = Some c"
    using conns_inv_mappedD [OF inv assms(2)] by auto
  have m: "mMapping s j = Some q \<Longrightarrow> q \<in> set (mContainer s) \<and> ident_of s q = j" for j q
    using inv by (auto simp: conns_inv_def)
  show "mMapping s j = Some p \<Longrightarrow> j = i" using m assms(2) by blast
  have "inj_on (sock_of s) (set (mContainer s))"
    using inv by (simp add: conns_inv_def distinct_map)
  then have "sock_of s q = sock_of s p \<longleftrightarrow> q = p" if "mMapping s j = Some q"
    using m [OF that] p by (simp add: inj_on_eq_iff)
  moreover have "q = p \<longleftrightarrow> j = i" if "mMapping s j = Some q"
  proof
    assume "q = p"
    then show "j = i" using m [OF that] m [OF assms(2)] by simp
  next
    assume "j = i"
    then show "q = p" using that assms(2) by simp
  qed
  ultimately show "mMapping s j = Some q \<Longrightarrow> sock_of s q = sock_of s p \<longleftrightarrow> j = i" by blast
qed

section \<open>Every call refines its specification\<close>

lemma send_refines:
  assumes "serving K s"
  shows "\<exists>s'. tryE (Server_send K d i) (\<lambda>_. skip) s = (Inr (), s') \<and> serving K s' \<and>
    mailboxes s' = spec_call (Send d i) (mailboxes s)"
proof (cases "mMapping s i")
  case None
  then show ?thesis
    using assms
    by (simp add: serving_def Server_send_def bindE_def act_simps getServerConnection_id_eq mailboxes_def
        tryE_run(2))
next
  case (Some p)
  obtain c where c: "sc_heap s p = Some c" using serving_mapped(2) [OF assms Some] by blast
  have inv: "mConnections s = Connections_ptr" "conns_inv K s" "mConnectSocket s \<noteq> None"
    using assms by (simp_all add: serving_def)
  let ?s' = "s\<lparr>mMasterWrite := insert (sc_mSocket c) (mMasterWrite s),
    sc_heap := (sc_heap s)(p \<mapsto> sc_enqueue d c),
    io_trace := io_trace s @ wakeup_events K (io_trace s) (snd (mWakeupPipe s))\<rparr>"
  have run: "Server_send K d i s = (Inr (), ?s')" "conns_inv K ?s'"
    using server_send_run [OF inv(1,2) Some c, of d] by (simp_all add: Let_def)
  have "mailbox_of ?s' q = (if j = i then (d @ mOutgoingBytes c, True) else mailbox_of s q)"
    if "mMapping s j = Some q" for j q
    using that c Some serving_mapped(3) [OF assms Some that] serving_mapped(4) [OF assms Some, of j]
    by (auto simp: mailbox_of_def sock_of_def sc_enqueue_def vector_insert_begin_def)
  then have "map_option (mailbox_of ?s') (mMapping s j) =
      (if j = i then Some (d @ mOutgoingBytes c, True) else map_option (mailbox_of s) (mMapping s j))" for j
    using Some by (cases "mMapping s j") auto
  moreover have "mailboxes ?s' = (\<lambda>j. map_option (mailbox_of ?s') (mMapping s j), mHasBeenShutdown s)"
    by (simp add: mailboxes_def)
  moreover have "mailbox_of s p = (mOutgoingBytes c, sock_of s p \<in> mMasterWrite s)"
    using c by (simp add: mailbox_of_def)
  ultimately have "mailboxes ?s' = spec_call (Send d i) (mailboxes s)"
    using Some by (simp add: mailboxes_def [of s] fun_upd_def)
  then show ?thesis using run inv by (auto simp: serving_def tryE_run(1))
qed

lemma broadcast_refines:
  assumes "serving K s"
  shows "\<exists>s'. Server_broadcast K d s = (Inr (), s') \<and> serving K s' \<and>
    mailboxes s' = spec_call (Broadcast d) (mailboxes s)"
proof -
  have inv: "mConnections s = Connections_ptr" "conns_inv K s" "mConnectSocket s \<noteq> None"
    using assms by (simp_all add: serving_def)
  let ?s' = "s\<lparr>mMasterWrite := mMasterWrite s \<union> sock_of s ` set (mContainer s),
    sc_heap := enqueue_on d (set (mContainer s)) (sc_heap s),
    io_trace := io_trace s @ wakeup_events K (io_trace s) (snd (mWakeupPipe s))\<rparr>"
  have run: "Server_broadcast K d s = (Inr (), ?s')" "conns_inv K ?s'"
    using server_broadcast_run [OF inv(1,2), of d] by (simp_all add: Let_def)
  have "mailbox_of ?s' p = (d @ mOutgoingBytes (the (sc_heap s p)), True)" if m: "mMapping s i = Some p" for i p
  proof -
    obtain c where c: "sc_heap s p = Some c" "p \<in> set (mContainer s)" using serving_mapped(1,2) [OF assms m] by blast
    have "sock_of ?s' p = sock_of s p" using c by (simp add: sock_of_def enqueue_on_def sc_enqueue_def)
    then show ?thesis
      using c by (simp add: mailbox_of_def enqueue_on_def sc_enqueue_def vector_insert_begin_def)
  qed
  then have "map_option (mailbox_of ?s') (mMapping s i) =
      map_option (\<lambda>(b, w). (d @ b, True)) (map_option (mailbox_of s) (mMapping s i))" for i
    by (cases "mMapping s i") (simp_all add: mailbox_of_def [of s])
  moreover have "mailboxes ?s' = (\<lambda>i. map_option (mailbox_of ?s') (mMapping s i), mHasBeenShutdown s)"
    by (simp add: mailboxes_def)
  ultimately have "mailboxes ?s' = spec_call (Broadcast d) (mailboxes s)"
    by (simp add: mailboxes_def [of s])
  then show ?thesis using run inv by (auto simp: serving_def)
qed

lemma shutdown_refines:
  assumes "serving K s"
  shows "\<exists>s'. Server_shutdown K s = (Inr (), s') \<and> serving K s' \<and>
    mailboxes s' = spec_call Shutdown (mailboxes s)"
proof -
  obtain sck where "mConnectSocket s = Some sck" using assms by (auto simp: serving_def)
  then obtain tr where "Server_shutdown K s = (Inr (), s\<lparr>mHasBeenShutdown := True, io_trace := io_trace s @ tr\<rparr>)"
    using shutdown_run by blast
  moreover have "conns_inv K (s\<lparr>mHasBeenShutdown := True, io_trace := io_trace s @ tr\<rparr>)"
  proof (rule conns_inv_cong [of K s])
    show "conns_inv K s" using assms by (simp add: serving_def)
    then show "sc_heap (s\<lparr>mHasBeenShutdown := True, io_trace := io_trace s @ tr\<rparr>) p \<noteq> None \<and>
        sock_of (s\<lparr>mHasBeenShutdown := True, io_trace := io_trace s @ tr\<rparr>) p = sock_of s p \<and>
        ident_of (s\<lparr>mHasBeenShutdown := True, io_trace := io_trace s @ tr\<rparr>) p = ident_of s p"
      if "p \<in> set (mContainer s)" for p
      using conns_inv_liveD [OF _ that, of K] by (simp add: sock_of_def ident_of_def)
  qed simp_all
  ultimately show ?thesis
    using assms by (simp add: serving_def mailboxes_def mailbox_of_def sock_of_def)
qed

lemma call_refines:
  assumes "serving K s"
  shows "\<exists>s'. tryE (Server_api K c) (\<lambda>_. skip) s = (Inr (), s') \<and> serving K s' \<and>
    mailboxes s' = spec_call c (mailboxes s)"
proof (cases c)
  case (Send d i)
  then show ?thesis using send_refines [OF assms] by simp
next
  case (Broadcast d)
  obtain s' where "Server_broadcast K d s = (Inr (), s')" "serving K s'"
    "mailboxes s' = spec_call (Broadcast d) (mailboxes s)"
    using broadcast_refines [OF assms] by blast
  then show ?thesis using Broadcast by (simp add: tryE_run(1))
next
  case Shutdown
  obtain s' where "Server_shutdown K s = (Inr (), s')" "serving K s'"
    "mailboxes s' = spec_call Shutdown (mailboxes s)"
    using shutdown_refines [OF assms] by blast
  then show ?thesis using Shutdown by (simp add: tryE_run(1))
qed

section \<open>Properties\<close>

text \<open>
  C4 The calls of other threads implement mailboxes: any sequence of messages, broadcasts and
  shutdowns, failed ones included, ends normally, and what is then pending for every identifier,
  whether the loop watches it, and whether the server is shut down are what the specification
  computes from the same sequence. A message to an unknown identifier changes nothing; no call
  takes a mailbox away or makes one.
\<close>

theorem server_calls_refine_mailboxes:
  assumes "serving K s"
  shows "\<exists>s'. other_threads K calls s = (Inr (), s') \<and> serving K s' \<and>
    mailboxes s' = fold spec_call calls (mailboxes s)"
  using assms
proof (induction calls arbitrary: s)
  case Nil
  then show ?case by (simp add: other_threads_def act_simps)
next
  case (Cons c calls)
  obtain t where t: "tryE (Server_api K c) (\<lambda>_. skip) s = (Inr (), t)" "serving K t"
    "mailboxes t = spec_call c (mailboxes s)"
    using call_refines [OF Cons.prems] by blast
  from Cons.IH [OF t(2)] t(1,3) show ?case
    by (auto simp: other_threads_def seqE_def bindE_def)
qed

lemma sample_server_serving: "serving sample_kernel sample_server"
  by (simp add: serving_def sample_server_inv)

theorem server_calls_refine_mailboxes_witness:
  "\<exists>s'. other_threads sample_kernel [Send ''hi'' ''bob'', Send ''lost'' ''carol'', Broadcast ''all'', Shutdown]
       sample_server = (Inr (), s') \<and>
     fst (mailboxes s') ''bob'' = Some (''allhi'', True) \<and> fst (mailboxes s') ''alice'' = Some (''all'', True) \<and>
     snd (mailboxes s')"
proof -
  have "mailboxes sample_server = ([''alice'' \<mapsto> ([], False), ''bob'' \<mapsto> ([], False)], False)"
    by (auto simp: mailboxes_def mailbox_of_def fun_eq_iff accepted_def)
  then show ?thesis
    using server_calls_refine_mailboxes [OF sample_server_serving,
        of "[Send ''hi'' ''bob'', Send ''lost'' ''carol'', Broadcast ''all'', Shutdown]"]
    by auto
qed

text \<open>
  C19 The write branch of the loop empties one mailbox: for an identifier with bytes pending, all
  of them are given to one \<open>send\<close> on its descriptor, its mailbox is then empty and not
  watched, and every other one is as it was.
\<close>

theorem server_write_refines_flush:
  assumes "serving K s" and "srv_mCallback s" and "mMapping s i = Some p" and "fst (mailbox_of s p) \<noteq> []"
  shows "\<exists>s'. Server_write K (sock_of s p) s = (Inr (), s') \<and> serving K s' \<and>
    mailboxes s' = spec_flush i (mailboxes s) \<and>
    sent_on (sock_of s p) (io_trace s') = sent_on (sock_of s p) (io_trace s) @ [fst (mailbox_of s p)]"
proof -
  obtain c where c: "sc_heap s p = Some c" "p \<in> set (mContainer s)"
    using serving_mapped(1,2) [OF assms(1,3)] by blast
  have inv: "mConnections s = Connections_ptr" "conns_inv K s" "mConnectSocket s \<noteq> None"
    using assms(1) by (simp_all add: serving_def)
  have so: "sock_of s p = sc_mSocket c" and ne: "mOutgoingBytes c \<noteq> []" "mailbox_of s p = (mOutgoingBytes c, sc_mSocket c \<in> mMasterWrite s)"
    using c assms(4) by (simp_all add: sock_of_def mailbox_of_def)
  let ?b = "mOutgoingBytes c"
  let ?r = "k_send K (io_trace s) (sc_mSocket c) ?b"
  let ?tr = "io_trace s @ [Ev_send (sc_mSocket c) ?b ?r] @
    (if ?r = int (length ?b) then [Ev_callback (Cb_sendComplete (mIdentifier c) (length ?b))] else [])"
  let ?s' = "s\<lparr>sc_heap := (sc_heap s)(p \<mapsto> c\<lparr>mOutgoingBytes := []\<rparr>), io_trace := ?tr,
    mMasterWrite := mMasterWrite s - {sc_mSocket c}\<rparr>"
  have run: "Server_write K (sock_of s p) s = (Inr (), ?s')"
    using getServerConnection_fd_run(1) [OF inv(2) c(2)] sendQueuedMessage_run [OF c(1) ne(1) refl, of K]
      inv(1,2) assms(2) c so conns_inv_mappedD [OF inv(2) assms(3)]
    by (simp add: Server_write_def Server_getCallback_def seqE_def bindE_def act_simps)
  have "conns_inv K ?s'"
  proof (rule conns_inv_cong [OF inv(2)])
    show "sc_heap ?s' q \<noteq> None \<and> sock_of ?s' q = sock_of s q \<and> ident_of ?s' q = ident_of s q"
      if "q \<in> set (mContainer s)" for q
      using c conns_inv_liveD [OF inv(2) that] by (auto simp: sock_of_def ident_of_def)
  qed simp_all
  moreover have "mailbox_of ?s' q = (if j = i then ([], False) else mailbox_of s q)" if "mMapping s j = Some q" for j q
    using that c assms(3) so serving_mapped(3) [OF assms(1,3) that] serving_mapped(4) [OF assms(1,3), of j]
    by (auto simp: mailbox_of_def sock_of_def)
  then have "map_option (mailbox_of ?s') (mMapping s j) =
      (if j = i then Some ([], False) else map_option (mailbox_of s) (mMapping s j))" for j
    using assms(3) by (cases "mMapping s j") auto
  moreover have "mailboxes ?s' = (\<lambda>j. map_option (mailbox_of ?s') (mMapping s j), mHasBeenShutdown s)"
    by (simp add: mailboxes_def)
  ultimately show ?thesis
    using run inv(1,3) ne(2) so
    by (intro exI [of _ ?s']) (simp add: serving_def spec_flush_def mailboxes_def [of s] fun_upd_def)
qed

theorem server_write_refines_flush_witness:
  "\<exists>s'. Server_write sample_kernel 8 (sample_server\<lparr>sc_heap := (sc_heap sample_server)
        (2 \<mapsto> sc_enqueue ''hi'' (accepted sample_kernel 8 ''bob'')), mMasterWrite := {8}\<rparr>) = (Inr (), s') \<and>
     mailboxes s' = ([''alice'' \<mapsto> ([], False), ''bob'' \<mapsto> ([], False)], False) \<and>
     sent_on 8 (io_trace s') = [''hi'']"
proof -
  let ?s = "sample_server\<lparr>sc_heap := (sc_heap sample_server)
    (2 \<mapsto> sc_enqueue ''hi'' (accepted sample_kernel 8 ''bob'')), mMasterWrite := {8}\<rparr>"
  have s: "sc_heap ?s 2 = Some (sc_enqueue ''hi'' (accepted sample_kernel 8 ''bob''))" "sock_of ?s 2 = 8"
    by (simp_all add: sock_of_def sc_enqueue_def accepted_def)
  have "conns_inv sample_kernel ?s"
    by (rule conns_inv_cong [OF sample_server_inv])
      (auto simp: sock_of_def ident_of_def sc_enqueue_def accepted_def)
  then have "serving sample_kernel ?s" by (simp add: serving_def)
  moreover have "mailbox_of ?s 2 = (''hi'', True)"
    by (simp add: mailbox_of_def sock_of_def sc_enqueue_def accepted_def vector_insert_begin_def)
  moreover have "mailboxes ?s = ([''alice'' \<mapsto> ([], False), ''bob'' \<mapsto> (''hi'', True)], False)"
    by (auto simp: mailboxes_def mailbox_of_def sock_of_def fun_eq_iff accepted_def sc_enqueue_def vector_insert_begin_def)
  ultimately show ?thesis
    using server_write_refines_flush [of sample_kernel ?s "''bob''" 2] s(2)
    by (auto simp: spec_flush_def sock_of_def accepted_def sc_enqueue_def sample_server_def sent_on_def)
qed

lemma for_each_append: "for_each f (xs @ ys) = seqE (for_each f xs) (for_each f ys)"
proof (induction xs)
  case Nil
  show ?case by (simp add: fun_eq_iff seqE_def bindE_def act_simps)
next
  case (Cons x xs)
  show ?case
    by (simp add: fun_eq_iff Cons seqE_def bindE_def split: prod.split sum.split)
qed

text \<open>Run without interruption, the loop's two steps are the model's write branch.\<close>

lemma loop_steps_atomic:
  assumes t: "serving K t" and mem: "p \<in> set (mContainer t)"
  shows "interleaving K p d loop_steps t = Server_write K (sock_of t p) t"
proof -
  have inv: "mConnections t = Connections_ptr" "conns_inv K t" using t by (simp_all add: serving_def)
  obtain c where c: "sc_heap t p = Some c" "p \<noteq> null"
    using inv(2) mem by (auto simp: conns_inv_def conns_live_def)
  have so: "sock_of t p = sc_mSocket c" using c by (simp add: sock_of_def)
  have find: "Connections_getServerConnection_fd (sc_mSocket c) t = (Inr p, t)"
    using getServerConnection_fd_run(1) [OF inv(2) mem] so by simp
  obtain r u where u: "ServerConnection_sendQueuedMessage K (srv_mCallback t) p t = (r, u)" by fastforce
  have "sc_heap u p \<noteq> None \<and> sc_mSocket (the (sc_heap u p)) = sc_mSocket c"
    using u c by (auto simp: ServerConnection_sendQueuedMessage_def bindE_def seqE_def deref_def sc_swap_out_def
        update_at_def modify_def sys_send_def whenE_def call_callback_def emit_def skip_def ret_def
        throw_def Let_def split: if_splits)
  then obtain c' where "sc_heap u p = Some c'" "sc_mSocket c' = sc_mSocket c" by auto
  then show ?thesis
    using u c find inv(1) so
    by (cases r) (simp_all add: interleaving_def loop_steps_def Server_write_def Server_getCallback_def
        seqE_def bindE_def act_simps)
qed

text \<open>
  Taken step by step, the operations are what they are as a whole: the sender's two steps
  followed by the loop's two are the private \<open>send\<close> followed by the write branch for the
  connection's descriptor, and in the other order too, in every state in which the container is
  in order; undefined behaviour and the state it leaves included.
\<close>

theorem micro_steps_equal_operations:
  assumes "serving K s" and "p \<in> set (mContainer s)"
  shows "interleaving K p d (sender_steps @ loop_steps) s =
      seqE (Server_send_connection K d p) (Server_write K (sock_of s p)) s \<and>
    interleaving K p d (loop_steps @ sender_steps) s =
      seqE (Server_write K (sock_of s p)) (Server_send_connection K d p) s"
proof -
  have append: "interleaving K p d (xs @ ys) = seqE (interleaving K p d xs) (interleaving K p d ys)"
    for xs ys and K :: posix
    by (simp add: interleaving_def for_each_append)
  have sender: "interleaving K p d sender_steps = (Server_send_connection K d p :: ('a server_scheme, unit) act)"
    by (simp add: fun_eq_iff sender_steps_atomic)
  have inv: "conns_inv K s" using assms(1) by (simp add: serving_def)
  obtain c where "sc_heap s p = Some c" using conns_inv_liveD [OF inv assms(2)] by blast
  moreover have "fd_in_range K (sock_of s p)" using inv assms(2) by (simp add: conns_inv_def)
  ultimately have c: "sc_heap s p = Some c" "fd_in_range K (sc_mSocket c)" by (simp_all add: sock_of_def)
  let ?t = "s\<lparr>mMasterWrite := insert (sc_mSocket c) (mMasterWrite s), sc_heap := (sc_heap s)(p \<mapsto> sc_enqueue d c)\<rparr>"
  have same: "sc_heap ?t q \<noteq> None \<and> sock_of ?t q = sock_of s q \<and> ident_of ?t q = ident_of s q"
    if "q \<in> set (mContainer s)" for q
    using c conns_inv_liveD [OF inv that] by (auto simp: sock_of_def ident_of_def sc_enqueue_def)
  have "conns_inv K ?t" by (rule conns_inv_cong [OF inv]) (use same in simp_all)
  then have "interleaving K p d loop_steps ?t = Server_write K (sock_of s p) ?t"
    using loop_steps_atomic [of K ?t] assms same [OF assms(2)] by (simp add: serving_def)
  moreover have "Server_send_connection K d p s = (Inr (), ?t)" by (rule send_connection_run [OF c])
  ultimately show ?thesis
    using loop_steps_atomic [OF assms] by (simp add: append sender seqE_def bindE_def)
qed

theorem micro_steps_equal_operations_witness:
  "interleaving sample_kernel 2 ''hi'' (sender_steps @ loop_steps) sample_server =
     seqE (Server_send_connection sample_kernel ''hi'' 2) (Server_write sample_kernel 8) sample_server"
  using micro_steps_equal_operations [OF sample_server_serving, of 2 "''hi''"] by simp

end
