(* ===== verification/Server_Monitors.thy ===== *)
theory Server_Monitors
  imports Posix_Server_Loop
begin

text \<open>
  What an observer of the system calls can tell of a posix server. A monitor reads the trace
  and keeps a judgement (\<open>m_good\<close>), what it knows of every descriptor that serves a
  connection, and what it knows of the listening descriptor and of the wake-up pipe. The
  locale \<open>server_monitor\<close> states, once for every stretch of calls that the server makes as
  a whole, what a monitor has to put up with; inside it, every operation and the whole of
  \<open>waitForEvents\<close> keep the judgement and the knowledge. It is interpreted in
  \<open>Server_Types\<close> (every call is made on a descriptor of the right kind) and in
  \<open>Server_Reports\<close> (the user hears of exactly what happened on the connections).
\<close>

unbundle bit_operations_syntax

section \<open>The start\<close>

text \<open>New descriptors of every kind are not negative, and not ones that are still open.\<close>

definition fds_fresh :: "posix \<Rightarrow> bool" where
  "fds_fresh K \<longleftrightarrow> accept_fresh K \<and>
     (\<forall>tr. k_socket K tr = -1 \<or> 0 \<le> k_socket K tr \<and> k_socket K tr \<notin> open_fds tr) \<and>
     (\<forall>tr r a b. k_pipe K tr = (r, a, b) \<longrightarrow> r = -1 \<or> a \<noteq> b \<and> a \<notin> open_fds tr \<and> b \<notin> open_fds tr)"

text \<open>The calls of a construction that succeeds.\<close>

definition boot_events :: "posix \<Rightarrow> sockaddr_in \<Rightarrow> int \<Rightarrow> int \<times> int \<Rightarrow> int \<Rightarrow> int \<Rightarrow> int \<Rightarrow> int \<Rightarrow> int \<Rightarrow> event list" where
  "boot_events K a l w x r1 r2 r3 r4 =
     [Ev_socket l, Ev_setsockopt l SO_REUSEADDR 0 r1, Ev_bind l a r2, Ev_listen l 10 r3,
      Ev_getfl l x, Ev_setfl l (x OR O_NONBLOCK K), Ev_pipe r4 (fst w) (snd w)]"

definition booted :: "posix \<Rightarrow> 'a server_scheme \<Rightarrow> 'a server_scheme \<Rightarrow> bool" where
  "booted K s t \<longleftrightarrow>
     (\<exists>l a x r1 r2 r3 r4.
        mConnectSocket t = Some \<lparr>mSocket = l\<rparr> \<and> 0 \<le> l \<and> - 1 \<notin> {r2, r3, r4} \<and>
        distinct [l, fst (mWakeupPipe t), snd (mWakeupPipe t)] \<and>
        io_trace t = boot_events K a l (mWakeupPipe t) x r1 r2 r3 r4 \<and>
        srv_mCallback t \<and> \<not> mHasBeenShutdown t \<and> sc_heap t = sc_heap s)"

lemma ctor_boots:
  assumes "fds_fresh K" and "io_trace s = []"
  shows "wp (Server_ctor K True port) (\<lambda>_. booted K s) (\<lambda>_ _. True) s"
proof -
  have l: "k_socket K [] = -1 \<or> 0 \<le> k_socket K []"
    using assms(1) unfolding fds_fresh_def by blast
  have p: "a \<noteq> b \<and> a \<notin> open_fds tr \<and> b \<notin> open_fds tr" if "k_pipe K tr = (r, a, b)" "r \<noteq> -1" for tr r a b
    using assms(1) that unfolding fds_fresh_def by blast
  show ?thesis
    using l p
    by (simp add: Server_ctor_def Socket_new_def wp_simps Let_def Server_fields_def
        Socket_getSocket_def booted_def boot_events_def assms(2) split: prod.splits)
      (intro allI impI, drule p, auto simp: open_fds_def)
qed

section \<open>Monitors\<close>

record monitor =
  m_good :: "event list \<Rightarrow> bool"
  m_tracks :: "event list \<Rightarrow> int \<Rightarrow> bytes \<Rightarrow> bool"
  m_listens :: "event list \<Rightarrow> int \<Rightarrow> bool \<Rightarrow> bool"
  m_piped :: "event list \<Rightarrow> int \<times> int \<Rightarrow> bool"

text \<open>
  The calls \<open>es\<close> after the trace \<open>tr\<close> are as they should be and change nothing of what the
  monitor knows, the descriptors in \<open>F\<close> apart; \<open>b\<close> says whether the listening
  descriptor was closed.
\<close>

definition steady :: "monitor \<Rightarrow> bool \<Rightarrow> event list \<Rightarrow> int set \<Rightarrow> event list \<Rightarrow> bool" where
  "steady m b tr F es \<longleftrightarrow>
     m_good m (tr @ es) \<and>
     (\<forall>w. m_piped m tr w \<longrightarrow> m_piped m (tr @ es) w) \<and>
     (\<forall>l. m_listens m tr l b \<longrightarrow> m_listens m (tr @ es) l b) \<and>
     (\<forall>fd i. fd \<notin> F \<longrightarrow> m_tracks m tr fd i \<longrightarrow> m_tracks m (tr @ es) fd i)"

definition watched :: "monitor \<Rightarrow> event list \<Rightarrow> int \<times> int \<Rightarrow> int \<Rightarrow> bool \<Rightarrow> bool" where
  "watched m tr w l b \<longleftrightarrow> m_good m tr \<and> m_piped m tr w \<and> m_listens m tr l b"

locale server_monitor =
  fixes m :: monitor and w :: "int \<times> int" and l :: int
  assumes boots: "0 \<le> l \<Longrightarrow> distinct [l, fst w, snd w] \<Longrightarrow> - 1 \<notin> {r2, r3, r4} \<Longrightarrow>
      watched m (boot_events K a l w x r1 r2 r3 r4) w l False"
    and tracked_open: "m_tracks m tr fd i \<Longrightarrow> fd \<in> open_fds tr"
    and accepted: "watched m tr w l False \<Longrightarrow> 0 \<le> fd \<Longrightarrow> fd \<notin> open_fds tr \<Longrightarrow> ident \<noteq> [] \<Longrightarrow>
      steady m False tr {} (handshake_events K l fd x r pr ident @ [Ev_callback (Cb_connected ident)]) \<and>
      m_tracks m (tr @ handshake_events K l fd x r pr ident @ [Ev_callback (Cb_connected ident)]) fd ident"
    and refused: "watched m tr w l False \<Longrightarrow> fd = -1 \<or> 0 \<le> fd \<and> fd \<notin> open_fds tr \<Longrightarrow>
      failed_handshake K fd es \<Longrightarrow> steady m False tr {} (Ev_accept l fd # es)"
    and received: "watched m tr w l b \<Longrightarrow> m_tracks m tr fd i \<Longrightarrow> d \<noteq> [] \<Longrightarrow>
      steady m b tr {} [Ev_recv fd n MSG_WAITALL (int (length d)) d, Ev_callback (Cb_receiveComplete i d)]"
    and hung_up: "watched m tr w l b \<Longrightarrow> m_tracks m tr fd i \<Longrightarrow> r \<le> 0 \<Longrightarrow>
      steady m b tr {} [Ev_recv fd n MSG_WAITALL r [], Ev_callback (Cb_disconnected i)]"
    and sent: "watched m tr w l b \<Longrightarrow> m_tracks m tr fd i \<Longrightarrow>
      steady m b tr {} (Ev_send fd d r #
        (if r = int (length d) then [Ev_callback (Cb_sendComplete i (length d))] else []))"
    and closed: "watched m tr w l b \<Longrightarrow> m_tracks m tr fd i \<Longrightarrow>
      steady m b tr {fd} (close_events K tr' fd)"
    and drained: "watched m tr w l b \<Longrightarrow> steady m b tr {} [Ev_recv (fst w) n No_flags r d]"
    and woken: "watched m tr w l b \<Longrightarrow> steady m b tr {} (wakeup_events K tr' (snd w))"
    and selected: "watched m tr w l b \<Longrightarrow> steady m b tr {} [Ev_select k rd wr r rd' wr']"
    and halted: "watched m tr w l b \<Longrightarrow>
      watched m (tr @ close_events K tr' l) w l True \<and>
      (\<forall>fd i. m_tracks m tr fd i \<longrightarrow> m_tracks m (tr @ close_events K tr' l) fd i)"
begin

text \<open>
  The invariant: the trace is well judged, the monitor knows the listening descriptor and the
  pipe, and for every connection on the heap its descriptor and its identifier.
\<close>

definition monitored :: "bool \<Rightarrow> 'a server_scheme \<Rightarrow> bool" where
  "monitored up s \<longleftrightarrow>
     srv_mCallback s \<and> mWakeupPipe s = w \<and> mConnectSocket s = Some \<lparr>mSocket = l\<rparr> \<and>
     watched m (io_trace s) w l (mHasBeenShutdown s) \<and>
     (\<forall>p c. sc_heap s p = Some c \<longrightarrow> m_tracks m (io_trace s) (sc_mSocket c) (mIdentifier c)) \<and>
     (\<forall>p q c d. sc_heap s p = Some c \<longrightarrow> sc_heap s q = Some d \<longrightarrow> sc_mSocket c = sc_mSocket d \<longrightarrow> p = q) \<and>
     (up \<longrightarrow> \<not> mHasBeenShutdown s)"

lemma monitoredD:
  assumes "monitored up s"
  shows "srv_mCallback s" "mWakeupPipe s = w" "mConnectSocket s = Some \<lparr>mSocket = l\<rparr>"
    "watched m (io_trace s) w l (mHasBeenShutdown s)"
    "sc_heap s p = Some c \<Longrightarrow> m_tracks m (io_trace s) (sc_mSocket c) (mIdentifier c)"
    "sc_heap s p = Some c \<Longrightarrow> sc_heap s q = Some d \<Longrightarrow> sc_mSocket c = sc_mSocket d \<Longrightarrow> p = q"
    "up \<Longrightarrow> \<not> mHasBeenShutdown s"
  using assms unfolding monitored_def by blast+

lemma monitored_updates [simp]:
  "monitored up (s\<lparr>mMasterWrite := W\<rparr>) = monitored up s"
  "monitored up (s\<lparr>srv_mBuffer := b\<rparr>) = monitored up s"
  "monitored up (s\<lparr>mConnections := x\<rparr>) = monitored up s"
  "monitored up (s\<lparr>mContainer := xs\<rparr>) = monitored up s"
  "monitored up (s\<lparr>mMapping := mp\<rparr>) = monitored up s"
  "monitored up (s\<lparr>mRead := rd\<rparr>) = monitored up s"
  "monitored up (s\<lparr>mFdMax := n\<rparr>) = monitored up s"
  "monitored up (s\<lparr>sc_next := a\<rparr>) = monitored up s"
  by (simp_all add: monitored_def)

lemma watched_steady: "watched m tr w l b \<Longrightarrow> steady m b tr F es \<Longrightarrow> watched m (tr @ es) w l b"
  unfolding watched_def steady_def by blast

lemma monitored_events:
  assumes "monitored up s" and "steady m (mHasBeenShutdown s) (io_trace s) {} es"
  shows "monitored up (s\<lparr>io_trace := io_trace s @ es\<rparr>)"
  using assms watched_steady [OF monitoredD(4) [OF assms(1)] assms(2)]
  by (simp add: monitored_def steady_def)

text \<open>Objects whose descriptor and identifier stay what they were.\<close>

lemma monitored_object:
  assumes "monitored up s" and "sc_heap s p = Some c"
    and "sc_mSocket c' = sc_mSocket c" and "mIdentifier c' = mIdentifier c"
  shows "monitored up (s\<lparr>sc_heap := (sc_heap s)(p \<mapsto> c')\<rparr>)"
  using assms unfolding monitored_def by (auto split: if_splits)

lemma monitored_new_object:
  assumes "monitored up s" and "m_tracks m (io_trace s) (sc_mSocket c) (mIdentifier c)"
    and "\<And>q d. sc_heap s q = Some d \<Longrightarrow> sc_mSocket d \<noteq> sc_mSocket c"
  shows "monitored up (s\<lparr>sc_heap := (sc_heap s)(p \<mapsto> c)\<rparr>)"
proof -
  note D = monitoredD [OF assms(1)]
  let ?h = "(sc_heap s)(p \<mapsto> c)"
  have "m_tracks m (io_trace s) (sc_mSocket d) (mIdentifier d)" if "?h x = Some d" for x d
    using that D(5) assms(2) by (cases "x = p") auto
  moreover have "x = y" if x: "?h x = Some d" and y: "?h y = Some e" and de: "sc_mSocket d = sc_mSocket e"
    for x y d e
  proof (cases "x = p \<or> y = p")
    case True
    then show ?thesis using x y de assms(3) [of x d] assms(3) [of y e] by (auto split: if_splits)
  next
    case False
    then show ?thesis using x y by (intro D(6) [OF _ _ de]) simp_all
  qed
  ultimately show ?thesis
    using D(1-4,7) by (simp add: monitored_def del: fun_upd_apply)
qed

lemma monitored_dealloc:
  assumes mon: "monitored up s" and c: "sc_heap s p = Some c"
    and steady: "steady m (mHasBeenShutdown s) (io_trace s) {sc_mSocket c} es"
  shows "monitored up (sc_dealloc p (s\<lparr>io_trace := io_trace s @ es\<rparr>))"
proof -
  note D = monitoredD [OF mon]
  have "watched m (io_trace s @ es) w l (mHasBeenShutdown s)"
    by (rule watched_steady [OF D(4) steady])
  moreover have "m_tracks m (io_trace s @ es) (sc_mSocket d) (mIdentifier d)"
    if "sc_heap s q = Some d" "q \<noteq> p" for q d
    using steady D(5) [OF that(1)] D(6) [OF that(1) c] that(2) unfolding steady_def by blast
  ultimately show ?thesis
    using D(1-3,6,7) by (simp add: monitored_def sc_dealloc_def)
qed

section \<open>Operations of the connections and the container\<close>

lemma keeps_deref_monitored [keeps_intros]: "keeps True (monitored up) (deref p)"
  by (rule keepsI) (simp add: wp_simps split: option.splits)

lemma keeps_check_fd [keeps_intros]: "keeps True I (check_fd K fd)"
  by (rule keepsI) (simp add: wp_simps)

lemma keeps_delete [keeps_intros]: "keeps True (monitored up) (delete_ServerConnection K p)"
proof (rule keepsI)
  fix s :: "'a server_scheme"
  assume mon: "monitored up s"
  have "monitored up (sc_dealloc p (s\<lparr>io_trace := io_trace s @ close_events K (io_trace s) (sc_mSocket c)\<rparr>))"
    if "sc_heap s p = Some c" for c
    by (rule monitored_dealloc [OF mon that closed])
      (use monitoredD [OF mon] that in auto)
  then show "wp (delete_ServerConnection K p) (\<lambda>_. monitored up) (after_fault True (monitored up)) s"
    by (simp add: wp_simps split: option.splits)
qed

lemma find_if_conn_fault: "find_if_conn h sckt ps = Inl e \<Longrightarrow> \<exists>u. e = Undefined_behaviour u"
  by (induction ps) (auto split: option.splits if_splits)

lemma keeps_getters_monitored [keeps_intros]:
  "keeps True (monitored up) (ServerConnection_getIdentifier p)"
  "keeps True (monitored up) (ServerConnection_getSocket p)"
  "keeps True (monitored up) (Connections_getServerConnection_id ident)"
  "keeps True (monitored up) Connections_getConnections"
  by (rule keepsI; simp add: ServerConnection_getIdentifier_def ServerConnection_getSocket_def
      Connections_getServerConnection_id_def Connections_getConnections_def wp_simps
      split: option.splits)+

lemma keeps_find [keeps_intros]: "keeps True (monitored up) (Connections_getServerConnection_fd sckt)"
proof (rule keepsI)
  fix s :: "'a server_scheme"
  assume "monitored up s"
  then show "wp (Connections_getServerConnection_fd sckt) (\<lambda>_. monitored up) (after_fault True (monitored up)) s"
    using find_if_conn_fault [of "sc_heap s" sckt "mContainer s"]
    by (auto simp: wp_def Connections_getServerConnection_fd_def split: sum.splits option.splits)
qed

lemma keeps_on_connections [keeps_intros]:
  "keeps True (monitored up) f \<Longrightarrow> keeps True (monitored up) (on_connections f)"
  by (rule keepsI) (simp add: wp_simps keeps_wp)

lemma keeps_remove_monitored [keeps_intros]: "keeps True (monitored up) (Connections_removeServerConnection K sckt)"
  unfolding Connections_removeServerConnection_def remove_if_conn_def recompute_max_def
  by (intro keeps_intros) simp_all

section \<open>Calls of other threads\<close>

lemma keeps_wakeup_monitored [keeps_intros]: "keeps True (monitored up) (Server_performWakeup K)"
proof (rule keepsI)
  fix s :: "'a server_scheme"
  assume mon: "monitored up s"
  have "monitored up (s\<lparr>io_trace := io_trace s @ wakeup_events K (io_trace s) (snd w)\<rparr>)"
    by (rule monitored_events [OF mon woken [OF monitoredD(4) [OF mon]]])
  then show "wp (Server_performWakeup K) (\<lambda>_. monitored up) (after_fault True (monitored up)) s"
    using monitoredD(2) [OF mon] by (simp add: wp_simps)
qed

lemma keeps_enqueue_monitored [keeps_intros]:
  "keeps True (monitored up) (ServerConnection_addQueuedMessage p d)"
proof (rule keepsI)
  fix s :: "'a server_scheme"
  assume mon: "monitored up s"
  show "wp (ServerConnection_addQueuedMessage p d) (\<lambda>_. monitored up) (after_fault True (monitored up)) s"
    using monitored_object [OF mon]
    by (simp add: ServerConnection_addQueuedMessage_def wp_simps sc_enqueue_def split: option.splits)
qed

lemma keeps_send_connection_monitored [keeps_intros]:
  "keeps True (monitored up) (Server_send_connection K d p)"
  unfolding Server_send_connection_def by (intro keeps_intros) simp

lemma monitored_shutdown:
  assumes "monitored up s"
  shows "monitored False (s\<lparr>mHasBeenShutdown := True,
    io_trace := io_trace s @ close_events K (io_trace s) l\<rparr>)"
proof -
  note D = monitoredD [OF assms]
  note h = halted [OF D(4), of K "io_trace s"]
  have "m_tracks m (io_trace s @ close_events K (io_trace s) l) (sc_mSocket c) (mIdentifier c)"
    if "sc_heap s p = Some c" for p c
    using h D(5) [OF that] by blast
  then show ?thesis
    using D(1-3,6,7) h by (simp add: monitored_def)
qed

lemma keeps_api_monitored: "keeps True (monitored False) (Server_api K c)"
proof (cases c)
  case (Send d i)
  then show ?thesis
    by (simp add: Server_send_def) (intro keeps_intros)
next
  case (Broadcast d)
  then show ?thesis
    by (simp add: Server_broadcast_def) (intro keeps_intros)
next
  case Shutdown
  let ?close = "seqE (modify (\<lambda>s. s\<lparr>mHasBeenShutdown := True\<rparr>)) (Server_close_listener K)
    :: ('a server_scheme, unit) act"
  have "keeps True (monitored False) ?close"
  proof (rule keepsI)
    fix s :: "'a server_scheme"
    assume mon: "monitored False s"
    show "wp ?close (\<lambda>_. monitored False) (after_fault True (monitored False)) s"
      using monitored_shutdown [OF mon, of K] monitoredD(3) [OF mon]
      by (simp add: Server_close_listener_def wp_simps)
  qed
  moreover have "Server_shutdown K = seqE ?close (Server_performWakeup K)"
    by (simp add: Server_shutdown_def seqE_def bindE_def fun_eq_iff split: prod.splits sum.splits)
  ultimately show ?thesis
    using Shutdown by (simp add: keeps_intros)
qed

lemma keeps_other_threads_monitored [keeps_intros]: "keeps True (monitored False) (other_threads K calls)"
  unfolding other_threads_def by (intro keeps_intros keeps_api_monitored)

section \<open>The select loop\<close>

lemma keeps_drain_monitored [keeps_intros]: "keeps True (monitored up) (Server_drain_wakeup K rd)"
proof (rule keepsI)
  fix s :: "'a server_scheme"
  assume mon: "monitored up s"
  have "monitored up (s\<lparr>io_trace := io_trace s @ [Ev_recv (fst w) n No_flags r d]\<rparr>)" for n r d
    by (rule monitored_events [OF mon drained [OF monitoredD(4) [OF mon]]])
  then have "monitored up (s\<lparr>io_trace := io_trace s @ [Ev_recv (fst w) n No_flags r d], srv_mBuffer := b\<rparr>)"
    for n r d b
    by simp
  then show "wp (Server_drain_wakeup K rd) (\<lambda>_. monitored up) (after_fault True (monitored up)) s"
    using mon monitoredD(2) [OF mon]
    by (simp add: Server_drain_wakeup_def wp_simps split: prod.splits)
qed

lemma keeps_send_queued [keeps_intros]:
  "keeps True (monitored up) (bindE Server_getCallback (\<lambda>cb. ServerConnection_sendQueuedMessage K cb p))"
proof (rule keepsI)
  fix s :: "'a server_scheme"
  assume mon: "monitored up s"
  let ?E = "after_fault True (monitored up)"
  have "wp (ServerConnection_sendQueuedMessage K True p) (\<lambda>_. monitored up) ?E s"
  proof (cases "sc_heap s p")
    case None
    then show ?thesis by (simp add: ServerConnection_sendQueuedMessage_def wp_simps)
  next
    case (Some c)
    show ?thesis
    proof (cases "mOutgoingBytes c = []")
      case True
      with Some show ?thesis
        by (simp add: ServerConnection_sendQueuedMessage_def wp_simps sc_swap_out_def)
    next
      case False
      define r where "r = k_send K (io_trace s) (sc_mSocket c) (mOutgoingBytes c)"
      define es where "es = Ev_send (sc_mSocket c) (mOutgoingBytes c) r #
         (if r = int (length (mOutgoingBytes c))
          then [Ev_callback (Cb_sendComplete (mIdentifier c) (length (mOutgoingBytes c)))] else [])"
      have "monitored up (s\<lparr>io_trace := io_trace s @ es\<rparr>)"
        unfolding es_def
        by (rule monitored_events [OF mon sent [OF monitoredD(4,5) [OF mon]]]) (rule Some)
      then have "monitored up (s\<lparr>io_trace := io_trace s @ es,
          sc_heap := (sc_heap s)(p \<mapsto> c\<lparr>mOutgoingBytes := []\<rparr>)\<rparr>)"
        using monitored_object [of up "s\<lparr>io_trace := io_trace s @ es\<rparr>" p c] Some by simp
      then show ?thesis
        using sendQueuedMessage_run [OF Some False r_def [symmetric]] by (simp add: wp_run es_def)
    qed
  qed
  then show "wp (bindE Server_getCallback (\<lambda>cb. ServerConnection_sendQueuedMessage K cb p))
      (\<lambda>_. monitored up) ?E s"
    using monitoredD(1) [OF mon] by (simp add: Server_getCallback_def wp_simps)
qed

lemma keeps_write_monitored [keeps_intros]: "keeps True (monitored up) (Server_write K i)"
  unfolding Server_write_def by (intro keeps_intros) simp

lemma keeps_handle_monitored [keeps_intros]:
  assumes fits: "recv_fits K"
  shows "keeps True (monitored up) (Server_handleServerConnection K sckt)"
proof -
  let ?serve = "\<lambda>p. bindE Server_getCallback (\<lambda>cb.
         tryE
           (bindE (ServerConnection_performReceive K p) (\<lambda>result.
            whenE cb
              (bindE (ServerConnection_getIdentifier p) (\<lambda>ident.
               call_callback cb (Cb_receiveComplete ident result)))))
           (\<lambda>_.
            seqE (whenE cb
                    (bindE (ServerConnection_getIdentifier p) (\<lambda>ident.
                     call_callback cb (Cb_disconnected ident))))
              (on_connections (Connections_removeServerConnection K sckt))))
    :: ('a server_scheme, unit) act"
  have serve: "keeps True (monitored up) (?serve p)" for p
  proof (rule keepsI)
    fix s :: "'a server_scheme"
    assume mon: "monitored up s"
    let ?E = "after_fault True (monitored up)"
    show "wp (?serve p) (\<lambda>_. monitored up) ?E s"
    proof (cases "sc_heap s p")
      case None
      then show ?thesis
        by (simp add: Server_getCallback_def ServerConnection_performReceive_def wp_simps)
    next
      case (Some c)
      let ?t = "\<lambda>es b. s\<lparr>io_trace := io_trace s @ es, sc_heap := (sc_heap s)(p \<mapsto> c\<lparr>mBuffer := b\<rparr>)\<rparr>"
      have step: "monitored up (?t es b)"
        if "steady m (mHasBeenShutdown s) (io_trace s) {} es" for es b
        using monitored_object [OF monitored_events [OF mon that], of p c] Some by simp
      have rm: "wp (on_connections (Connections_removeServerConnection K sckt)) (\<lambda>_. monitored up) ?E t"
        if "monitored up t" for t :: "'a server_scheme"
        by (rule keeps_wp [OF keeps_on_connections [OF keeps_remove_monitored] that])
      note D = monitoredD [OF mon]
      show ?thesis
      proof (simp add: Server_getCallback_def wp_simps D(1), rule performReceive_wpI [OF fits Some],
          goal_cases)
        case (1 d)
        then show ?case
          using step [OF received [OF D(4,5)], OF Some]
          by (simp add: ServerConnection_getIdentifier_def wp_simps)
      next
        case (2 f n d)
        then have "d = []" using recv_fitsD [OF fits 2(1)] by auto
        with 2 show ?case
          using rm [OF step [OF hung_up [OF D(4,5)], OF Some]]
          by (simp add: ServerConnection_getIdentifier_def wp_simps)
      qed
    qed
  qed
  show ?thesis
    unfolding Server_handleServerConnection_def
    by (intro keeps_bindE keeps_on_connections keeps_find keeps_if keeps_skip serve)
qed

lemma keeps_accept_monitored [keeps_intros]:
  assumes fits: "recv_fits K" and fresh: "accept_fresh K"
  shows "keeps True (monitored True) (Server_accept K)"
proof (rule keepsI)
  fix s :: "'a server_scheme"
  assume mon: "monitored True s"
  note D = monitoredD [OF mon]
  have up: "\<not> mHasBeenShutdown s" using D(7) by simp
  then have watch: "watched m (io_trace s) w l False" using D(4) by simp
  define k where "k = k_accept K (io_trace s) l"
  have new: "k = -1 \<or> 0 \<le> k \<and> k \<notin> open_fds (io_trace s)"
    using fresh unfolding accept_fresh_def k_def by blast
  let ?R = "monitored True" and ?E = "after_fault True (monitored True)"
  let ?rest = "\<lambda>client. bindE Server_getCallback (\<lambda>cb.
        bindE (ServerConnection_getIdentifier client) (\<lambda>ident.
        seqE (call_callback cb (Cb_connected ident))
          (on_connections (Connections_addServerConnection K client))))"
  let ?H = "\<lambda>e s'. case e of Runtime_error x \<Rightarrow> wp skip (\<lambda>_. ?R) ?E s' | _ \<Rightarrow> ?E e s'"
  have handle: "?E e t \<Longrightarrow> ?H e t" for e and t :: "'a server_scheme"
    by (cases e) (simp_all add: wp_skip)
  have add: "wp (on_connections (Connections_addServerConnection K p)) (\<lambda>_. ?R) ?H t"
    if "?R t" for p and t :: "'a server_scheme"
  proof (rule wp_mono [where E = ?E])
    have "keeps True ?R (on_connections (Connections_addServerConnection K p)
      :: ('a server_scheme, unit) act)"
      unfolding Connections_addServerConnection_def by (intro keeps_intros) simp_all
    then show "wp (on_connections (Connections_addServerConnection K p)) (\<lambda>_. ?R) ?E t"
      by (rule keeps_wp) (rule that)
  qed (use handle in auto)
  have built: "wp (?rest p) (\<lambda>_. ?R) ?H s1" if b: "built K l s p s1" for p s1
  proof -
    obtain x r pr ident where kn: "k \<noteq> -1" and p: "p = sc_next s" and i: "ident \<noteq> []"
      and s1: "s1 = s\<lparr>sc_next := Suc p, io_trace := io_trace s @ handshake_events K l k x r pr ident,
                sc_heap := (sc_heap s)(p \<mapsto> accepted K k ident)\<rparr>"
      using b unfolding built_def k_def by blast
    have kf: "0 \<le> k" "k \<notin> open_fds (io_trace s)" using new kn by auto
    let ?es = "handshake_events K l k x r pr ident @ [Ev_callback (Cb_connected ident)]"
    note acc = accepted [OF watch kf i, of K x r pr]
    have other: "sc_mSocket c \<noteq> k" if "sc_heap s q = Some c" for q c
      using tracked_open [OF D(5) [OF that]] kf(2) by blast
    let ?u = "s\<lparr>io_trace := io_trace s @ ?es\<rparr>"
    have "monitored True ?u"
      by (rule monitored_events [OF mon]) (use acc up in simp)
    then have "monitored True (?u\<lparr>sc_heap := (sc_heap ?u)(p \<mapsto> accepted K k ident)\<rparr>)"
      by (rule monitored_new_object) (use acc other in \<open>simp_all add: accepted_def\<close>)
    then have "monitored True (s\<lparr>sc_next := Suc p, io_trace := io_trace s @ ?es,
        sc_heap := (sc_heap s)(p \<mapsto> accepted K k ident)\<rparr>)"
      using up by (simp add: monitored_def del: fun_upd_apply)
    then show ?thesis
      using add D(1)
      by (simp add: Server_getCallback_def ServerConnection_getIdentifier_def wp_simps s1 accepted_def)
  qed
  have failed: "?H e s1" if nb: "not_built K l s e s1" for e s1
  proof -
    obtain v tr where e: "e = Runtime_error v" and hs: "failed_handshake K k tr"
      and s1: "s1 = s\<lparr>sc_next := Suc (sc_next s), io_trace := io_trace s @ Ev_accept l k # tr,
                sc_heap := (sc_heap s)(sc_next s := None)\<rparr>"
      using nb unfolding not_built_def k_def by blast
    have "monitored True (s\<lparr>io_trace := io_trace s @ Ev_accept l k # tr\<rparr>)"
      by (rule monitored_events [OF mon]) (use refused [OF watch new hs] up in simp)
    then have "?R s1" using up by (simp add: monitored_def s1)
    then show ?thesis by (simp add: e wp_skip)
  qed
  have "wp (new_ServerConnection K l) (\<lambda>p. wp (?rest p) (\<lambda>_. ?R) ?H) ?H s"
    by (rule wp_mono [OF new_ServerConnection_wp [OF fits]]) (use built failed in simp_all)
  then show "wp (Server_accept K) (\<lambda>_. ?R) ?E s"
    using D(3) by (simp add: Server_accept_def wp_tryE wp_bindE wp_connect_socket)
qed

lemma keeps_fd_step_monitored [keeps_intros]:
  assumes "recv_fits K" and "accept_fresh K"
  shows "keeps True (monitored True) (Server_fd_step K rd wr i)"
proof -
  have "keeps True (monitored True) (FD_ISSET K i S)" for S
    unfolding FD_ISSET_def by (intro keeps_intros)
  moreover have "keeps True (monitored True) connect_socket"
    by (rule keepsI) (simp add: wp_simps split: option.splits)
  ultimately show ?thesis
    unfolding Server_fd_step_def by (intro keeps_intros assms)
qed

lemma keeps_iteration_monitored:
  assumes K: "recv_fits K" "accept_fresh K"
  shows "keeps True (monitored False) (Server_iteration K serverMax calls)"
proof -
  let ?body = "\<lambda>n rd wr. bindE (gets mHasBeenShutdown) (\<lambda>down.
       if down then ret True
       else seqE (for_each (Server_fd_step K rd wr) [0..n]) (ret False)) :: ('a server_scheme, bool) act"
  have weaken: "monitored True t \<Longrightarrow> monitored False t" for t :: "'a server_scheme"
    unfolding monitored_def by blast
  have body: "keeps True (monitored False) (?body n rd wr)" for n rd wr
  proof (rule keepsI)
    fix s :: "'a server_scheme"
    assume mon: "monitored False s"
    have "wp (for_each (Server_fd_step K rd wr) [0..n]) (\<lambda>_. monitored True)
        (after_fault True (monitored True)) s" if "\<not> mHasBeenShutdown s"
      by (rule keeps_wp [OF keeps_for_each [OF keeps_fd_step_monitored [OF K]]])
        (use mon that in \<open>simp add: monitored_def\<close>)
    then have "wp (for_each (Server_fd_step K rd wr) [0..n]) (\<lambda>_. monitored False)
        (after_fault True (monitored False)) s" if "\<not> mHasBeenShutdown s"
      by (rule wp_mono) (use that weaken in \<open>auto simp: after_fault_def split: fault.splits\<close>)
    moreover have "wp (ret x) Q E = Q x" for x :: bool and Q and E :: "fault \<Rightarrow> 'a server_scheme \<Rightarrow> bool"
      by (simp add: fun_eq_iff wp_ret)
    ultimately show "wp (?body n rd wr) (\<lambda>_. monitored False) (after_fault True (monitored False)) s"
      using mon by (simp add: wp_simps)
  qed
  have select: "keeps True (monitored False)
      (sys_select K n rd wr :: ('a server_scheme, int \<times> int set \<times> int set) act)" for n rd wr
  proof (rule keepsI)
    fix s :: "'a server_scheme"
    assume mon: "monitored False s"
    have "monitored False (s\<lparr>io_trace := io_trace s @ [Ev_select n rd wr r rd' wr']\<rparr>)" for r rd' wr'
      by (rule monitored_events [OF mon selected [OF monitoredD(4) [OF mon]]])
    then show "wp (sys_select K n rd wr) (\<lambda>_. monitored False) (after_fault True (monitored False)) s"
      by (simp add: wp_simps split: prod.splits)
  qed
  have throw: "keeps True (monitored False) (throw_errno K msg :: ('a server_scheme, bool) act)" for msg
    by (rule keepsI) (simp add: wp_simps)
  have max: "keeps True (monitored False) (on_connections Connections_getMax :: ('a server_scheme, int) act)"
    unfolding Connections_getMax_def by (intro keeps_intros)
  show ?thesis
    unfolding Server_iteration_def
    by (intro keeps_bindE keeps_seqE keeps_prod keeps_if keeps_gets keeps_other_threads_monitored
        max select throw body)
qed

lemma keeps_loop_monitored:
  assumes "recv_fits K" and "accept_fresh K"
  shows "keeps True (monitored False) (Server_loop K serverMax schedule)"
  by (induction schedule)
    (simp_all add: keeps_iteration_monitored [OF assms] keeps_intros)

text \<open>The whole of \<open>waitForEvents\<close>, on a server that the monitor knows.\<close>

lemma keeps_wait_monitored:
  assumes "recv_fits K" and "accept_fresh K"
  shows "keeps True (monitored False) (Server_waitForEvents K schedule)"
proof -
  have "keeps True (monitored False) connect_socket"
    by (rule keepsI) (simp add: wp_simps split: option.splits)
  moreover have "keeps True (monitored False) (Connections_new rd)" for rd
    by (rule keepsI) (simp add: Connections_new_def wp_simps)
  ultimately have "keeps True (monitored False) (Server_prepare K)"
    unfolding Server_prepare_def by (intro keeps_intros) simp_all
  then show ?thesis
    unfolding Server_waitForEvents_def by (intro keeps_intros keeps_loop_monitored assms)
qed

lemma wait_monitored:
  assumes "recv_fits K" and "accept_fresh K" and "monitored False s"
    and "Server_waitForEvents K schedule s = (r, s')" and "\<forall>u. r \<noteq> Inl (Undefined_behaviour u)"
  shows "monitored False s'"
  using keeps_wp [OF keeps_wait_monitored [OF assms(1,2)] assms(3), of schedule] assms(4,5)
  by (auto simp: wp_def after_fault_def split: sum.splits fault.splits)

text \<open>The whole life of a server, from its constructor on.\<close>

lemma life_monitored:
  assumes K: "recv_fits K" "fds_fresh K" and s: "io_trace s = []" "sc_heap s = Map.empty"
    and ctor: "Server_ctor K True port s = (Inr (), t)"
    and ends: "mWakeupPipe t = w" "mConnectSocket t = Some \<lparr>mSocket = l\<rparr>"
    and run: "Server_waitForEvents K schedule t = (r, s')" "\<forall>u. r \<noteq> Inl (Undefined_behaviour u)"
  shows "monitored False s'"
proof -
  have acc: "accept_fresh K" using K(2) by (simp add: fds_fresh_def)
  have "booted K s t" using wp_normalD [OF ctor_boots [OF K(2) s(1)] ctor] .
  then have "monitored False t"
    using ends s(2) boots unfolding booted_def monitored_def by fastforce
  from wait_monitored [OF K(1) acc this run] show ?thesis .
qed

end

section \<open>A server that serves\<close>

text \<open>
  A kernel for concrete lives: the listening socket is 3 and the pipe 4, 5; the listener is
  readable at the first \<open>select\<close>, then bob's descriptor 6 is readable and writable.
\<close>

definition serving_kernel :: posix where
  "serving_kernel = scripted (\<lambda>tr fd. ''bob'')
     (\<lambda>tr. if length tr = 7 then ({3}, {}) else ({6}, {6}))"

definition sample_schedule :: "api_call list list" where
  "sample_schedule = [[], [Send ''hi'' ''bob''], [Shutdown]]"

lemma next_fd_above: "fd \<in> open_fds tr \<Longrightarrow> fd < next_fd tr"
  using open_fds_new [of fd tr] foldr_max_ge [of 2 "concat (map new_fds tr)"]
  unfolding next_fd_def by fastforce

lemma scripted_fds_fresh: "fds_fresh (scripted feed ready)"
proof -
  have "next_fd tr + 1 \<notin> open_fds tr" for tr using next_fd_above [of "next_fd tr + 1" tr] by auto
  moreover have "0 \<le> next_fd tr" for tr using next_fd_fresh(1) [of tr] by simp
  ultimately show ?thesis
    using scripted_accept_fresh [of feed ready] next_fd_fresh(2)
    by (simp add: fds_fresh_def) (simp add: scripted_def)
qed

lemma serving_kernel_ok: "recv_fits serving_kernel" "fds_fresh serving_kernel"
  by (simp_all add: serving_kernel_def scripted_recv_fits scripted_fds_fresh)

lemma sample_life:
  "\<exists>t r s'. Server_ctor serving_kernel True 80 server_blank = (Inr (), t) \<and>
     mConnectSocket t = Some \<lparr>mSocket = 3\<rparr> \<and> mWakeupPipe t = (4, 5) \<and>
     Server_waitForEvents serving_kernel sample_schedule t = (r, s') \<and>
     (\<forall>u. r \<noteq> Inl (Undefined_behaviour u))"
proof -
  obtain t where t: "Server_ctor serving_kernel True 80 server_blank = (Inr (), t)"
    "mConnectSocket t = Some \<lparr>mSocket = 3\<rparr>" "mWakeupPipe t = (4, 5)"
    "srv_mCallback t" "mMasterWrite t = {}" "heap_fresh t" "3 \<in> open_fds (io_trace t)"
    by (simp add: Server_ctor_def Socket_new_def sys_defs seqE_def bindE_def modify_def ret_def
        gets_def Socket_makeNonBlocking_def Let_def serving_kernel_def scripted_def next_fd_def
        server_blank_def Server_fields_def Socket_getSocket_def open_fds_def heap_fresh_def)
  obtain r s' where run: "Server_waitForEvents serving_kernel sample_schedule t = (r, s')"
    by (cases "Server_waitForEvents serving_kernel sample_schedule t")
  have range: "listener_in_range serving_kernel t"
    using t by (simp add: listener_in_range_def fd_in_range_def serving_kernel_def scripted_def)
  have K: "recv_fits serving_kernel" "accept_fresh serving_kernel" "select_subset serving_kernel"
    "peers_stay serving_kernel" "accept_in_range serving_kernel"
    by (simp_all add: serving_kernel_def scripted_recv_fits scripted_accept_fresh scripted_select_subset)
      (simp_all add: peers_stay_def accept_in_range_def scripted_def MAX_BUFFER_SIZE_def)
  have "wp (Server_waitForEvents serving_kernel sample_schedule)
      (\<lambda>returned t. server_inv True serving_kernel t \<and> returned = mHasBeenShutdown t)
      (after_fault (\<not> True) (server_inv True serving_kernel)) t"
    by (rule wp_waitForEvents [OF K(1,2)])
      (use t K range in \<open>simp_all add: fresh_server_def sample_schedule_def\<close>)
  then have "\<forall>u. r \<noteq> Inl (Undefined_behaviour u)"
    using run by (auto simp: wp_def)
  then show ?thesis using t run by blast
qed

end
