(* ===== verification/Server_Types.thy ===== *)
theory Server_Types
  imports Server_Monitors
begin

text \<open>
  A type system for descriptors. Every system call gives a type to the descriptors it makes
  and asks for a type of the descriptors it is made on; typing a trace is typing its calls, one
  after the other, in the context the calls before made. The first interpretation of
  \<open>server_monitor\<close>: the posix server only makes calls that type, three kinds of call apart.
\<close>

unbundle bit_operations_syntax

section \<open>Types of descriptors\<close>

datatype fd_type = New_socket | Bound_socket | Listening | Connected | Pipe_read | Pipe_write

type_synonym fd_context = "int \<rightharpoonup> fd_type"

fun fd_step :: "fd_context \<Rightarrow> event \<Rightarrow> fd_context" where
  "fd_step T (Ev_socket r) = (if r = -1 then T else T(r \<mapsto> New_socket))"
| "fd_step T (Ev_bind fd a r) = (if r = -1 \<or> T fd = None then T else T(fd \<mapsto> Bound_socket))"
| "fd_step T (Ev_listen fd n r) = (if r = -1 \<or> T fd = None then T else T(fd \<mapsto> Listening))"
| "fd_step T (Ev_accept l r) = (if r = -1 then T else T(r \<mapsto> Connected))"
| "fd_step T (Ev_connect fd a r) = (if r = -1 \<or> T fd = None then T else T(fd \<mapsto> Connected))"
| "fd_step T (Ev_pipe r a b) = (if r = -1 then T else T(b \<mapsto> Pipe_write, a \<mapsto> Pipe_read))"
| "fd_step T (Ev_close fd) = T(fd := None)"
| "fd_step T _ = T"

definition fd_types :: "event list \<Rightarrow> fd_context" where
  "fd_types tr = foldl fd_step Map.empty tr"

definition is_socket :: "fd_type option \<Rightarrow> bool" where
  "is_socket t \<longleftrightarrow> t \<in> Some ` {New_socket, Bound_socket, Listening, Connected}"

text \<open>The type a call asks for.\<close>

fun call_types :: "fd_context \<Rightarrow> event \<Rightarrow> bool" where
  "call_types T (Ev_setsockopt fd opt v r) = is_socket (T fd)"
| "call_types T (Ev_bind fd a r) = (T fd = Some New_socket)"
| "call_types T (Ev_listen fd n r) = (T fd = Some Bound_socket)"
| "call_types T (Ev_accept fd r) = (T fd = Some Listening)"
| "call_types T (Ev_connect fd a r) = (T fd = Some New_socket)"
| "call_types T (Ev_getfl fd x) = (T fd \<noteq> None)"
| "call_types T (Ev_setfl fd x) = (T fd \<noteq> None)"
| "call_types T (Ev_send fd d r) = (T fd = Some Connected)"
| "call_types T (Ev_recv fd n f r d) = (T fd = Some Connected)"
| "call_types T (Ev_poll fd i r) =
     (case i of Poll_in_pri \<Rightarrow> T fd = Some Connected
      | Poll_out \<Rightarrow> T fd = Some Connected \<or> T fd = Some Pipe_write)"
| "call_types T (Ev_write fd d r) = (T fd = Some Pipe_write)"
| "call_types T (Ev_shutdown fd) = is_socket (T fd)"
| "call_types T (Ev_close fd) = (T fd \<noteq> None)"
| "call_types T (Ev_select n rd wr r rd' wr') = (\<forall>fd \<in> rd \<union> wr. T fd \<noteq> None)"
| "call_types T _ = True"

text \<open>The calls of a trace that do not type, in order.\<close>

fun ill_typed :: "fd_context \<Rightarrow> event list \<Rightarrow> event list" where
  "ill_typed T [] = []"
| "ill_typed T (e # es) = (if call_types T e then [] else [e]) @ ill_typed (fd_step T e) es"

lemma ill_typed_append: "ill_typed T (xs @ ys) = ill_typed T xs @ ill_typed (foldl fd_step T xs) ys"
  by (induction xs arbitrary: T) simp_all

lemma fd_types_append: "fd_types (xs @ ys) = foldl fd_step (fd_types xs) ys"
  by (simp add: fd_types_def)

lemma dom_fd_step: "dom (fd_step T e) = track_fd (dom T) e"
  by (cases e) (auto simp: insert_commute)

lemma dom_fd_types: "dom (fd_types tr) = open_fds tr"
  by (induction tr rule: rev_induct) (simp_all add: fd_types_append dom_fd_step, simp add: fd_types_def)

lemma fd_types_open: "fd_types tr fd \<noteq> None \<longleftrightarrow> fd \<in> open_fds tr"
  by (simp add: dom_fd_types [symmetric] domIff)

lemma fd_types_fresh: "fd \<notin> open_fds tr \<Longrightarrow> fd_types tr fd = None"
  using fd_types_open by blast

text \<open>
  The three kinds of call that need not type: the byte of the self-pipe is read with \<open>recv\<close>,
  which is for sockets; a listening socket that was closed is closed again; and the sets of
  \<open>select\<close> may hold descriptors that are not open, the listener after a shutdown and whatever
  is left in the write set.
\<close>

fun excused :: "int \<Rightarrow> int \<Rightarrow> event \<Rightarrow> bool" where
  "excused rd l (Ev_recv fd n f r d) = (fd = rd \<and> f = No_flags)"
| "excused rd l (Ev_shutdown fd) = (fd = l)"
| "excused rd l (Ev_setsockopt fd opt v r) = (fd = l \<and> opt = SO_LINGER)"
| "excused rd l (Ev_close fd) = (fd = l)"
| "excused rd l (Ev_select n rfds wfds r rfds' wfds') = True"
| "excused rd l _ = False"

definition type_monitor :: "int \<times> int \<Rightarrow> int \<Rightarrow> monitor" where
  "type_monitor w l =
     \<lparr>m_good = (\<lambda>tr. list_all (excused (fst w) l) (ill_typed Map.empty tr)),
      m_tracks = (\<lambda>tr fd i. fd_types tr fd = Some Connected),
      m_listens = (\<lambda>tr fd down. fd_types tr fd = (if down then None else Some Listening)),
      m_piped = (\<lambda>tr w. fd_types tr (fst w) = Some Pipe_read \<and> fd_types tr (snd w) = Some Pipe_write)\<rparr>"

lemma type_monitor_append:
  "list_all P (ill_typed Map.empty (tr @ es)) =
     (list_all P (ill_typed Map.empty tr) \<and> list_all P (ill_typed (fd_types tr) es))"
  by (simp add: ill_typed_append fd_types_def)

lemmas type_monitor_simps = type_monitor_def watched_def steady_def type_monitor_append fd_types_append

interpretation types: server_monitor "type_monitor w l" w l for w :: "int \<times> int" and l :: int
proof (unfold_locales, goal_cases)
  case (1 r2 r3 r4 K a x r1)
  then show ?case
    by (auto simp: type_monitor_simps boot_events_def fd_types_def is_socket_def)
next
  case (2 tr fd i)
  then show ?case using fd_types_open [of tr fd] by (simp add: type_monitor_def)
next
  case (3 tr fd ident K x r pr)
  then show ?case
    using fd_types_fresh [of fd tr] by (auto simp: type_monitor_simps handshake_events_def)
next
  case (4 tr fd K es)
  then show ?case
    using fd_types_fresh [of fd tr] by (auto simp: type_monitor_simps failed_handshake_def)
next
  case (5 tr b fd i d n)
  then show ?case by (simp add: type_monitor_simps)
next
  case (6 tr b fd i r n)
  then show ?case by (simp add: type_monitor_simps)
next
  case (7 tr b fd i d r)
  then show ?case by (simp add: type_monitor_simps)
next
  case (8 tr b fd i K tr')
  then show ?case by (auto simp: type_monitor_simps close_events_def is_socket_def split: if_splits)
next
  case (9 tr b n r d)
  then show ?case by (simp add: type_monitor_simps)
next
  case (10 tr b K tr')
  then show ?case by (simp add: type_monitor_simps wakeup_events_def Let_def)
next
  case (11 tr b k rd wr r rd' wr')
  then show ?case by (simp add: type_monitor_simps)
next
  case (12 tr b K tr')
  then show ?case by (auto simp: type_monitor_simps close_events_def is_socket_def split: if_splits)
qed

section \<open>Properties\<close>

text \<open>
  C7 A posix server with a callback, from its constructor on, over any number of iterations and
  whatever other threads call, each call whole while the loop is blocked in \<open>select\<close>: in a run
  that has not ended in undefined behaviour it makes every system call, with three exceptions,
  on an open descriptor of the type the call is for: it accepts only on its listening socket,
  reads and writes only connected sockets, wakes itself up only through the write end of its
  pipe, and every connection on the heap holds a connected descriptor. The exceptions: the
  byte of the pipe is read with \<open>recv\<close>, which is for sockets; a second shutdown closes the
  listening socket again; and of the descriptors in the sets given to \<open>select\<close> nothing is
  claimed, for the write set starts uninitialised and keeps closed descriptors.
\<close>

theorem server_calls_are_typed:
  assumes "recv_fits K" and "fds_fresh K" and "io_trace s = []" and "sc_heap s = Map.empty"
    and "Server_ctor K True port s = (Inr (), t)" and "mConnectSocket t = Some \<lparr>mSocket = l\<rparr>"
    and "Server_waitForEvents K schedule t = (r, s')" and "\<forall>u. r \<noteq> Inl (Undefined_behaviour u)"
  shows "list_all (excused (fst (mWakeupPipe t)) l) (ill_typed Map.empty (io_trace s')) \<and>
    (\<forall>p c. sc_heap s' p = Some c \<longrightarrow> fd_types (io_trace s') (sc_mSocket c) = Some Connected) \<and>
    fd_types (io_trace s') l = (if mHasBeenShutdown s' then None else Some Listening)"
proof -
  have "types.monitored (mWakeupPipe t) l False s'"
    by (rule types.life_monitored [OF assms(1-5) refl assms(6-8)])
  note D = types.monitoredD [OF this]
  show ?thesis using D(4,5) by (auto simp: watched_def type_monitor_def)
qed

theorem server_calls_are_typed_witness:
  "\<exists>t r s'. Server_ctor serving_kernel True 80 server_blank = (Inr (), t) \<and>
     Server_waitForEvents serving_kernel sample_schedule t = (r, s') \<and>
     list_all (excused 4 3) (ill_typed Map.empty (io_trace s'))"
proof -
  obtain t r s' where life: "Server_ctor serving_kernel True 80 server_blank = (Inr (), t)"
    "mConnectSocket t = Some \<lparr>mSocket = 3\<rparr>" "mWakeupPipe t = (4, 5)"
    "Server_waitForEvents serving_kernel sample_schedule t = (r, s')"
    "\<forall>u. r \<noteq> Inl (Undefined_behaviour u)"
    using sample_life by blast
  have "io_trace server_blank = []" "sc_heap server_blank = Map.empty"
    by (simp_all add: server_blank_def)
  from server_calls_are_typed [OF serving_kernel_ok this life(1,2,4,5)] life show ?thesis by auto
qed

end
