(* ===== verification/Server_Reports.thy ===== *)
theory Server_Reports
  imports Server_Monitors
begin

text \<open>
  What the user of a posix server hears. \<open>expected_callbacks\<close> computes the calls of the
  user's callback from the results of the system calls alone: it is the specification of the
  callback interface, written without the server's state. The second interpretation of
  \<open>server_monitor\<close>: the server calls back exactly so.
\<close>

unbundle bit_operations_syntax

section \<open>The specification of the callbacks\<close>

text \<open>
  An accepted descriptor awaits its identifier; the first bytes received on it are the
  identifier, and stay so until the descriptor is closed.
\<close>

datatype peer = Awaiting | Known bytes

fun peer_step :: "(int \<rightharpoonup> peer) \<Rightarrow> event \<Rightarrow> (int \<rightharpoonup> peer)" where
  "peer_step P (Ev_accept l r) = (if r = -1 then P else P(r \<mapsto> Awaiting))"
| "peer_step P (Ev_recv fd n f r d) =
     (if P fd = Some Awaiting \<and> 0 < r then P(fd \<mapsto> Known d) else P)"
| "peer_step P (Ev_close fd) = P(fd := None)"
| "peer_step P _ = P"

fun peer_report :: "(int \<rightharpoonup> peer) \<Rightarrow> event \<Rightarrow> callback_event list" where
  "peer_report P (Ev_recv fd n f r d) =
     (case P fd of
        None \<Rightarrow> []
      | Some Awaiting \<Rightarrow> if 0 < r then [Cb_connected d] else []
      | Some (Known i) \<Rightarrow> if 0 < r then [Cb_receiveComplete i d] else [Cb_disconnected i])"
| "peer_report P (Ev_send fd d r) =
     (case P fd of
        Some (Known i) \<Rightarrow> if r = int (length d) then [Cb_sendComplete i (length d)] else []
      | _ \<Rightarrow> [])"
| "peer_report P _ = []"

fun expected_callbacks :: "(int \<rightharpoonup> peer) \<Rightarrow> event list \<Rightarrow> callback_event list" where
  "expected_callbacks P [] = []"
| "expected_callbacks P (e # es) = peer_report P e @ expected_callbacks (peer_step P e) es"

definition peers_of :: "event list \<Rightarrow> int \<rightharpoonup> peer" where
  "peers_of tr = foldl peer_step Map.empty tr"

lemma expected_callbacks_append:
  "expected_callbacks P (xs @ ys) = expected_callbacks P xs @ expected_callbacks (foldl peer_step P xs) ys"
  by (induction xs arbitrary: P) simp_all

lemma expected_callbacks_snoc:
  "expected_callbacks Map.empty (tr @ es) =
     expected_callbacks Map.empty tr @ expected_callbacks (peers_of tr) es"
  by (simp add: expected_callbacks_append peers_of_def)

lemma peers_of_append: "peers_of (xs @ ys) = foldl peer_step (peers_of xs) ys"
  by (simp add: peers_of_def)

lemma dom_peer_step: "dom P \<subseteq> S \<Longrightarrow> dom (peer_step P e) \<subseteq> track_fd S e"
  by (cases e) auto

lemma dom_peers_of: "dom (peers_of tr) \<subseteq> open_fds tr"
  by (induction tr rule: rev_induct) (simp_all add: peers_of_append dom_peer_step, simp add: peers_of_def)

lemma peers_of_fresh: "fd \<notin> open_fds tr \<Longrightarrow> peers_of tr fd = None"
  using dom_peers_of [of tr] by blast

section \<open>The monitor\<close>

definition report_monitor :: "int \<Rightarrow> monitor" where
  "report_monitor l =
     \<lparr>m_good = (\<lambda>tr. callbacks tr = expected_callbacks Map.empty tr),
      m_tracks = (\<lambda>tr fd i. peers_of tr fd = Some (Known i)),
      m_listens = (\<lambda>tr fd down. peers_of tr fd = None \<and> (\<not> down \<longrightarrow> fd \<in> open_fds tr)),
      m_piped = (\<lambda>tr w. peers_of tr (fst w) = None \<and> fst w \<in> open_fds tr \<and> fst w \<noteq> l)\<rparr>"

lemmas report_monitor_simps = report_monitor_def watched_def steady_def expected_callbacks_snoc
  peers_of_append open_fds_append

interpretation reports: server_monitor "report_monitor l" w l for w :: "int \<times> int" and l :: int
proof (unfold_locales, goal_cases)
  case (1 r2 r3 r4 K a x r1)
  then show ?case
    by (auto simp: report_monitor_def watched_def boot_events_def peers_of_def open_fds_def callbacks_def)
next
  case (2 tr fd i)
  then show ?case using dom_peers_of [of tr] by (auto simp: report_monitor_def)
next
  case (3 tr fd ident K x r pr)
  then show ?case
    using peers_of_fresh [of fd tr] by (auto simp: report_monitor_simps handshake_events_def)
next
  case (4 tr fd K es)
  then show ?case
    using peers_of_fresh [of fd tr] by (auto simp: report_monitor_simps failed_handshake_def)
next
  case (5 tr b fd i d n)
  then show ?case by (simp add: report_monitor_simps)
next
  case (6 tr b fd i r n)
  then show ?case by (simp add: report_monitor_simps)
next
  case (7 tr b fd i d r)
  then show ?case by (simp add: report_monitor_simps)
next
  case (8 tr b fd i K tr')
  then show ?case by (auto simp: report_monitor_simps close_events_def)
next
  case (9 tr b n r d)
  then show ?case by (simp add: report_monitor_simps)
next
  case (10 tr b K tr')
  then show ?case by (simp add: report_monitor_simps wakeup_events_def Let_def)
next
  case (11 tr b k rd wr r rd' wr')
  then show ?case by (simp add: report_monitor_simps)
next
  case (12 tr b K tr')
  then show ?case by (auto simp: report_monitor_simps close_events_def)
qed

lemma server_reports:
  assumes "recv_fits K" and "fds_fresh K" and "io_trace s = []" and "sc_heap s = Map.empty"
    and "Server_ctor K True port s = (Inr (), t)"
    and "Server_waitForEvents K schedule t = (r, s')" and "\<forall>u. r \<noteq> Inl (Undefined_behaviour u)"
  shows "callbacks (io_trace s') = expected_callbacks Map.empty (io_trace s')"
proof -
  have "booted K s t"
    using wp_normalD [OF ctor_boots [OF assms(2,3)] assms(5)] .
  then obtain l where l: "mConnectSocket t = Some \<lparr>mSocket = l\<rparr>"
    by (auto simp: booted_def)
  have "reports.monitored l (mWakeupPipe t) False s'"
    by (rule reports.life_monitored [OF assms(1-5) refl l assms(6,7)])
  from reports.monitoredD(4) [OF this] show ?thesis
    by (simp add: watched_def report_monitor_def)
qed

section \<open>Properties\<close>

text \<open>
  C2 A posix server with a callback, from its constructor on, over any number of iterations and
  whatever other threads call, each call whole while the loop is blocked in \<open>select\<close>: in a run
  that has not ended in undefined behaviour (removing a connection that is not the last of the
  container is one that has), on a kernel that makes new descriptors as documented, the server
  calls its user back exactly as specified from the results of its system calls. A connection
  is announced with the first bytes received on the accepted descriptor as its identifier,
  every later piece of data is reported once, unchanged and in order under that identifier, a
  failed receive or an end of file is a disconnect, and a write is reported exactly if the
  kernel took all of it. Failed handshakes and the wake-up pipe are never heard of.
\<close>

theorem server_callbacks_as_specified:
  assumes "recv_fits K" and "fds_fresh K" and "io_trace s = []" and "sc_heap s = Map.empty"
    and "Server_ctor K True port s = (Inr (), t)"
    and "Server_waitForEvents K schedule t = (r, s')" and "\<forall>u. r \<noteq> Inl (Undefined_behaviour u)"
  shows "callbacks (io_trace s') = expected_callbacks Map.empty (io_trace s')"
  by (rule server_reports [OF assms])

theorem server_callbacks_as_specified_witness:
  "\<exists>t r s'. Server_ctor serving_kernel True 80 server_blank = (Inr (), t) \<and>
     Server_waitForEvents serving_kernel sample_schedule t = (r, s') \<and>
     callbacks (io_trace s') = expected_callbacks Map.empty (io_trace s')"
proof -
  obtain t r s' where life: "Server_ctor serving_kernel True 80 server_blank = (Inr (), t)"
    "Server_waitForEvents serving_kernel sample_schedule t = (r, s')"
    "\<forall>u. r \<noteq> Inl (Undefined_behaviour u)"
    using sample_life by blast
  have "io_trace server_blank = []" "sc_heap server_blank = Map.empty"
    by (simp_all add: server_blank_def)
  from server_callbacks_as_specified [OF serving_kernel_ok this life] life show ?thesis by auto
qed

end
