(* ===== verification/Client_Reports.thy ===== *)
theory Client_Reports
  imports Posix_Client_Facts Server_Monitors
begin

text \<open>
  What the user of a posix client hears: the calls of the callback that follow from the system
  calls of the loop, as a specification without the client's state, and the proof that the
  loop makes exactly these.
\<close>

unbundle bit_operations_syntax

section \<open>The specification of the callbacks\<close>

text \<open>
  Received data is reported as it came; a write is reported whatever the kernel made of it.
  The empty write of a disconnect is not.
\<close>

fun client_report :: "int \<Rightarrow> bytes \<Rightarrow> event \<Rightarrow> callback_event list" where
  "client_report c i (Ev_recv fd n f r d) = (if fd = c \<and> 0 < r then [Cb_receiveComplete i d] else [])"
| "client_report c i (Ev_send fd d r) =
     (if fd = c \<and> d \<noteq> [] then [Cb_sendComplete i (length d)] else [])"
| "client_report c i _ = []"

definition client_callbacks :: "int \<Rightarrow> bytes \<Rightarrow> event list \<Rightarrow> callback_event list" where
  "client_callbacks c i es = concat (map (client_report c i) es)"

lemma client_callbacks_simps [simp]:
  "client_callbacks c i [] = []"
  "client_callbacks c i (xs @ ys) = client_callbacks c i xs @ client_callbacks c i ys"
  "client_callbacks c i (e # es) = client_report c i e @ client_callbacks c i es"
  by (simp_all add: client_callbacks_def)

section \<open>The loop\<close>

text \<open>The events after \<open>tr0\<close> are reported as specified.\<close>

definition client_reported :: "event list \<Rightarrow> int \<Rightarrow> bytes \<Rightarrow> 'a client_scheme \<Rightarrow> bool" where
  "client_reported tr0 c i s \<longleftrightarrow>
     cl_mCallback s \<and> cl_mSocket s = c \<and> cl_mIdentifier s = i \<and> fst (cl_mWakeupPipe s) \<noteq> c \<and>
     (\<exists>es. io_trace s = tr0 @ es \<and> callbacks es = client_callbacks c i es \<and>
        concat (map new_fds es) = [])"

lemma client_reported_events:
  assumes "client_reported tr0 c i s" and "callbacks es = client_callbacks c i es"
    and "concat (map new_fds es) = []"
  shows "client_reported tr0 c i (s\<lparr>io_trace := io_trace s @ es\<rparr>)"
proof -
  obtain fs where "io_trace s = tr0 @ fs" "callbacks fs = client_callbacks c i fs"
    "concat (map new_fds fs) = []"
    using assms(1) by (auto simp: client_reported_def)
  then show ?thesis
    using assms by (auto simp: client_reported_def intro!: exI [of _ "fs @ es"])
qed

lemma client_reported_updates [simp]:
  "client_reported tr0 c i (cl_store d s) = client_reported tr0 c i s"
  "client_reported tr0 c i (cl_enqueue d s) = client_reported tr0 c i s"
  "client_reported tr0 c i (s\<lparr>cl_mMasterWrite := W\<rparr>) = client_reported tr0 c i s"
  "client_reported tr0 c i (s\<lparr>cl_mConnected := b\<rparr>) = client_reported tr0 c i s"
  "client_reported tr0 c i (s\<lparr>cl_mOutgoingBytes := d\<rparr>) = client_reported tr0 c i s"
  by (simp_all add: client_reported_def)

lemma client_reportedD:
  assumes "client_reported tr0 c i s"
  shows "cl_mCallback s" "cl_mSocket s = c" "cl_mIdentifier s = i" "fst (cl_mWakeupPipe s) \<noteq> c"
  using assms by (simp_all add: client_reported_def)

lemma keeps_client_api_reported: "keeps True (client_reported tr0 c i) (Client_api K call)"
proof (rule keepsI)
  fix s :: "'a client_scheme"
  assume rep: "client_reported tr0 c i s"
  note ev = client_reported_events
  show "wp (Client_api K call) (\<lambda>_. client_reported tr0 c i) (after_fault True (client_reported tr0 c i)) s"
  proof (cases call)
    case (Send_data d)
    have "client_reported tr0 c i ((cl_enqueue d s)\<lparr>cl_mMasterWrite := W, io_trace := io_trace s @ es\<rparr>)"
      if "callbacks es = client_callbacks c i es" "concat (map new_fds es) = []" for W es
      using ev [OF _ that(1,2), of tr0 "(cl_enqueue d s)\<lparr>cl_mMasterWrite := W\<rparr>"] rep by simp
    then show ?thesis
      using rep by (simp add: Send_data Client_sendDataToServer_def wp_simps Let_def)
  next
    case Disconnect
    have "client_reported tr0 c i (s\<lparr>cl_mConnected := b, io_trace := io_trace s @ es\<rparr>)"
      if "callbacks es = client_callbacks c i es" "concat (map new_fds es) = []" for b es
      using ev [OF _ that(1,2), of tr0 "s\<lparr>cl_mConnected := b\<rparr>"] rep by simp
    then show ?thesis
      using rep by (simp add: Disconnect Client_disconnect_def wp_simps Let_def close_events_def)
  qed
qed

lemma keeps_client_read_reported:
  assumes fits: "recv_fits K"
  shows "keeps True (client_reported tr0 c i) (Client_read K)"
proof (rule keepsI)
  fix s :: "'a client_scheme"
  assume rep: "client_reported tr0 c i s"
  note D = client_reportedD [OF rep]
  obtain n d where recv: "k_recv K (io_trace s) c cl_MAX_BUFFER_SIZE MSG_WAITALL = (n, d)"
    by (cases "k_recv K (io_trace s) c cl_MAX_BUFFER_SIZE MSG_WAITALL")
  have fit: "n = -1 \<or> n = int (length d)" using recv_fitsD [OF fits recv] by blast
  let ?e = "Ev_recv c cl_MAX_BUFFER_SIZE MSG_WAITALL n d"
  have "client_reported tr0 c i (s\<lparr>io_trace := io_trace s @ [?e]\<rparr>)" if "n \<le> 0"
    by (rule client_reported_events [OF rep]) (use that in simp_all)
  moreover have "client_reported tr0 c i (s\<lparr>io_trace := io_trace s @ [?e, Ev_callback (Cb_receiveComplete i d)]\<rparr>)"
    if "0 < n"
    by (rule client_reported_events [OF rep]) (use that in simp_all)
  ultimately show "wp (Client_read K) (\<lambda>_. client_reported tr0 c i) (after_fault True (client_reported tr0 c i)) s"
    using D fit
    by (auto simp: Client_read_def Client_getCallback_def wp_simps recv cl_store_def client_reported_def)
qed

lemma keeps_client_drain_reported: "keeps True (client_reported tr0 c i) (Client_drain_wakeup K)"
proof (rule keepsI)
  fix s :: "'a client_scheme"
  assume rep: "client_reported tr0 c i s"
  have "client_reported tr0 c i (s\<lparr>io_trace := io_trace s @ [Ev_recv (fst (cl_mWakeupPipe s)) n f r d]\<rparr>)"
    for n f r d
    by (rule client_reported_events [OF rep]) (use client_reportedD(4) [OF rep] in simp_all)
  then show "wp (Client_drain_wakeup K) (\<lambda>_. client_reported tr0 c i)
      (after_fault True (client_reported tr0 c i)) s"
    by (simp add: Client_drain_wakeup_def wp_simps split: prod.splits)
qed

lemma keeps_client_write_reported: "keeps True (client_reported tr0 c i) (Client_write K)"
proof (rule keepsI)
  fix s :: "'a client_scheme"
  assume rep: "client_reported tr0 c i s"
  note D = client_reportedD [OF rep]
  let ?b = "cl_mOutgoingBytes s"
  have "client_reported tr0 c i (s\<lparr>cl_mOutgoingBytes := [], io_trace := io_trace s @
      [Ev_send c ?b r, Ev_callback (Cb_sendComplete i (length ?b))]\<rparr>)" if "?b \<noteq> []" for r
    using client_reported_events [of tr0 c i "s\<lparr>cl_mOutgoingBytes := []\<rparr>"
        "[Ev_send c ?b r, Ev_callback (Cb_sendComplete i (length ?b))]"] rep that
    by simp
  then show "wp (Client_write K) (\<lambda>_. client_reported tr0 c i) (after_fault True (client_reported tr0 c i)) s"
    using D by (simp add: Client_write_def Client_getCallback_def wp_simps cl_swap_out_def Let_def)
qed

lemma keeps_client_wait_reported:
  assumes fits: "recv_fits K"
  shows "keeps True (client_reported tr0 c i) (Client_waitForEvents K schedule)"
proof -
  let ?I = "client_reported tr0 c i :: 'a client_scheme \<Rightarrow> bool"
  have select: "keeps True ?I (sys_select K n rd wr)" for n rd wr
  proof (rule keepsI)
    fix s :: "'a client_scheme"
    assume rep: "?I s"
    have "?I (s\<lparr>io_trace := io_trace s @ [Ev_select n rd wr r rd' wr']\<rparr>)" for r rd' wr'
      by (rule client_reported_events [OF rep]) simp_all
    then show "wp (sys_select K n rd wr) (\<lambda>_. ?I) (after_fault True ?I) s"
      by (simp add: wp_simps split: prod.splits)
  qed
  have throw: "keeps True ?I (throw_errno K msg :: ('a client_scheme, bool) act)" for msg
    by (rule keepsI) (simp add: wp_simps)
  have threads: "keeps True ?I (client_threads K calls)" for calls
    unfolding client_threads_def by (intro keeps_intros keeps_client_api_reported)
  have serve: "keeps True ?I (Client_serve K rd wr)" for rd wr
    unfolding Client_serve_def
    by (intro keeps_intros keeps_client_read_reported [OF fits] keeps_client_drain_reported
        keeps_client_write_reported)
  have iteration: "keeps True ?I (Client_iteration K m calls)" for m calls
    unfolding Client_iteration_def Client_await_def
    by (intro keeps_intros select throw threads serve)
  have loop: "keeps True ?I (Client_loop K m schedule)" for m
    by (induction schedule) (simp_all add: iteration keeps_intros)
  have "keeps True ?I (Client_prepare K)"
    unfolding Client_prepare_def check_fd_def by (intro keeps_intros) simp
  then show ?thesis
    unfolding Client_waitForEvents_def by (intro keeps_bindE loop)
qed

text \<open>The whole life of a client, from its constructor on.\<close>

lemma client_ctor_reported:
  assumes K: "fds_fresh K" and ctor: "Client_ctor K True hostname port ident s = (Inr (), u)"
  shows "client_reported (io_trace u) (cl_mSocket u) ident u"
proof -
  have p: "a \<notin> open_fds tr" if "k_pipe K tr = (r, a, b)" "r \<noteq> -1" for tr r a b
    using K that unfolding fds_fresh_def by blast
  have "wp (Client_ctor K True hostname port ident)
      (\<lambda>_ t. cl_mCallback t \<and> cl_mIdentifier t = ident \<and> fst (cl_mWakeupPipe t) \<noteq> cl_mSocket t)
      (\<lambda>_ _. True) s"
    by (simp add: Client_ctor_def Client_prepareWakeupPipe_def Client_Socket_new_def wp_simps Let_def
        Client_fields_def wp_case_prod split: prod.splits)
      (clarify, drule (1) p, auto simp: open_fds_append)
  from wp_normalD [OF this ctor] show ?thesis
    by (simp add: client_reported_def exI [of _ "[]"])
qed

lemma client_wait_reported:
  assumes "recv_fits K" and "client_reported tr0 c i u"
    and "Client_waitForEvents K schedule u = (r, u')" and "\<forall>x. r \<noteq> Inl (Undefined_behaviour x)"
  shows "\<exists>es. io_trace u' = tr0 @ es \<and> callbacks es = client_callbacks c i es \<and>
    concat (map new_fds es) = []"
proof -
  have "client_reported tr0 c i u'"
    using keeps_wp [OF keeps_client_wait_reported [OF assms(1)] assms(2), of schedule] assms(3,4)
    by (auto simp: wp_def after_fault_def split: sum.splits fault.splits)
  then show ?thesis by (simp add: client_reported_def)
qed

end
