(* ===== verification/End_To_End.thy ===== *)
theory End_To_End
  imports Server_Reports Client_Reports "HOL-Library.Sublist"
begin

text \<open>
  A posix client and a posix server on the two ends of one TCP connection. Each end runs on a
  kernel of its own; what joins them is \<open>tcp_link\<close>, the documented behaviour of a stream
  socket: the bytes that one end received are a prefix of those the other end's kernel took.
  Nothing is said about when bytes arrive or how they are cut into pieces.
\<close>

section \<open>The streams of a connection\<close>

text \<open>
  The bytes a kernel took and gave on a descriptor, since the descriptor was made: numbers of
  descriptors are used again.
\<close>

fun put_step :: "int \<Rightarrow> bytes \<Rightarrow> event \<Rightarrow> bytes" where
  "put_step fd b (Ev_send fd' d r) = (if fd' = fd then b @ take (nat r) d else b)"
| "put_step fd b (Ev_socket r) = (if r = fd then [] else b)"
| "put_step fd b (Ev_accept l r) = (if r = fd then [] else b)"
| "put_step fd b _ = b"

fun got_step :: "int \<Rightarrow> bytes \<Rightarrow> event \<Rightarrow> bytes" where
  "got_step fd b (Ev_recv fd' n f r d) = (if fd' = fd \<and> 0 < r then b @ d else b)"
| "got_step fd b (Ev_socket r) = (if r = fd then [] else b)"
| "got_step fd b (Ev_accept l r) = (if r = fd then [] else b)"
| "got_step fd b _ = b"

definition stream_put :: "int \<Rightarrow> event list \<Rightarrow> bytes" where
  "stream_put fd tr = foldl (put_step fd) [] tr"

definition stream_got :: "int \<Rightarrow> event list \<Rightarrow> bytes" where
  "stream_got fd tr = foldl (got_step fd) [] tr"

definition tcp_link :: "event list \<Rightarrow> int \<Rightarrow> event list \<Rightarrow> int \<Rightarrow> bool" where
  "tcp_link ta a tb b \<longleftrightarrow>
     prefix (stream_got b tb) (stream_put a ta) \<and> prefix (stream_got a ta) (stream_put b tb)"

text \<open>No descriptor \<open>fd\<close> is made among the events.\<close>

fun makes :: "int \<Rightarrow> event \<Rightarrow> bool" where
  "makes fd (Ev_socket r) = (r = fd)"
| "makes fd (Ev_accept l r) = (r = fd)"
| "makes fd _ = False"

lemma put_step_grows: "\<not> makes fd e \<Longrightarrow> \<exists>x. \<forall>b. put_step fd b e = b @ x"
  by (cases e) auto

lemma foldl_put_grows:
  "\<forall>e \<in> set es. \<not> makes fd e \<Longrightarrow> \<exists>x. foldl (put_step fd) b es = b @ x"
proof (induction es arbitrary: b)
  case (Cons e es)
  obtain x where "put_step fd b e = b @ x" using put_step_grows [of fd e] Cons.prems by auto
  moreover obtain y where "foldl (put_step fd) (b @ x) es = (b @ x) @ y" using Cons by fastforce
  ultimately show ?case by simp
qed simp

text \<open>What a user heard of the data: identifiers and data, in the order of the calls.\<close>

fun heard_of :: "callback_event \<Rightarrow> bytes" where
  "heard_of (Cb_connected i) = i"
| "heard_of (Cb_receiveComplete i d) = d"
| "heard_of _ = []"

definition heard :: "callback_event list \<Rightarrow> bytes" where
  "heard cs = concat (map heard_of cs)"

lemma heard_simps [simp]:
  "heard [] = []" "heard (c # cs) = heard_of c @ heard cs" "heard (cs @ ds) = heard cs @ heard ds"
  by (simp_all add: heard_def)

section \<open>The server's end\<close>

text \<open>The server accepted one connection, and it is still open.\<close>

definition serves_only :: "int \<Rightarrow> event list \<Rightarrow> bool" where
  "serves_only f tr \<longleftrightarrow> f \<noteq> -1 \<and>
     (\<exists>pre l post. tr = pre @ Ev_accept l f # post \<and> Ev_close f \<notin> set post \<and>
        (\<forall>e \<in> set (pre @ post). (\<forall>l r. e = Ev_accept l r \<longrightarrow> r = -1) \<and> e \<noteq> Ev_socket f))"

lemma heard_of_one_peer:
  assumes "\<forall>e \<in> set es. (\<forall>l r. e = Ev_accept l r \<longrightarrow> r = -1) \<and> e \<noteq> Ev_socket f \<and> e \<noteq> Ev_close f"
    and "f \<noteq> -1" and "P f \<noteq> None" and "dom P \<subseteq> {f}"
  shows "foldl (got_step f) b es = b @ heard (expected_callbacks P es)"
  using assms(1,3,4)
proof (induction es arbitrary: P b)
  case (Cons e es)
  have step: "peer_step P e f \<noteq> None" "dom (peer_step P e) \<subseteq> {f}"
    using Cons.prems by (cases e; auto split: if_splits)+
  have "got_step f b e = b @ heard (peer_report P e)"
    using Cons.prems assms(2) by (cases e) (auto split: option.splits peer.splits)
  then show ?case using Cons.IH [OF _ step] Cons.prems(1) by simp
qed simp

lemma expected_without_peers:
  assumes "\<forall>e \<in> set es. \<forall>l r. e = Ev_accept l r \<longrightarrow> r = -1"
  shows "expected_callbacks Map.empty es = [] \<and> foldl peer_step Map.empty es = Map.empty"
  using assms
proof (induction es)
  case (Cons e es)
  then have "peer_step Map.empty e = Map.empty" "peer_report Map.empty e = []"
    by (cases e; auto)+
  with Cons show ?case by simp
qed simp

lemma heard_is_stream:
  assumes "serves_only f tr"
  shows "heard (expected_callbacks Map.empty tr) = stream_got f tr"
proof -
  obtain pre l post where tr: "tr = pre @ Ev_accept l f # post" and f: "f \<noteq> -1" "Ev_close f \<notin> set post"
    and other: "\<forall>e \<in> set (pre @ post). (\<forall>l r. e = Ev_accept l r \<longrightarrow> r = -1) \<and> e \<noteq> Ev_socket f"
    using assms by (auto simp: serves_only_def)
  have pre: "expected_callbacks Map.empty pre = []" "foldl peer_step Map.empty pre = Map.empty"
    using expected_without_peers [of pre] other by auto
  have "foldl (got_step f) [] post = [] @ heard (expected_callbacks [f \<mapsto> Awaiting] post)"
    by (rule heard_of_one_peer) (use other f in auto)
  then show ?thesis
    using f by (simp add: tr stream_got_def expected_callbacks_append pre)
qed

section \<open>The client's end\<close>

lemma client_heard_is_stream:
  "\<forall>e \<in> set es. \<not> makes c e \<Longrightarrow> foldl (got_step c) b es = b @ heard (client_callbacks c i es)"
proof (induction es arbitrary: b)
  case (Cons e es)
  then have "got_step c b e = b @ heard (client_report c i e)" by (cases e) auto
  with Cons show ?case by simp
qed simp

lemma no_new_fds: "concat (map new_fds es) = [] \<Longrightarrow> \<forall>e \<in> set es. \<not> makes c e"
proof
  fix e assume "concat (map new_fds es) = []" "e \<in> set es"
  then show "\<not> makes c e" by (cases e) auto
qed

lemma client_ctor_streams:
  assumes fits: "recv_fits K" and blank: "io_trace s = []"
    and ctor: "Client_ctor K cb hostname port ident s = (Inr (), u)"
  shows "\<exists>ack pre rs post. io_trace u = pre @ Ev_send (cl_mSocket u) ident rs # post \<and>
    sent_on (cl_mSocket u) pre = [] \<and> stream_put (cl_mSocket u) (io_trace u) = take (nat rs) ident \<and>
    stream_got (cl_mSocket u) (io_trace u) = ack \<and> length ack \<le> 4 \<and> callbacks (io_trace u) = []"
proof -
  have short: "length d \<le> 4" if "k_recv K tr fd 4 No_flags = (r, d)" for tr fd r d
    using recv_fitsD [OF fits that] by auto
  have "wp (Client_ctor K cb hostname port ident)
      (\<lambda>_ t. \<exists>a rc ra ack rs x y rp p0 p1.
        io_trace t = [Ev_socket (cl_mSocket t), Ev_connect (cl_mSocket t) a rc,
          Ev_recv (cl_mSocket t) 4 No_flags ra ack, Ev_send (cl_mSocket t) ident rs,
          Ev_getfl (cl_mSocket t) x, Ev_setfl (cl_mSocket t) y, Ev_pipe rp p0 p1] \<and>
        length ack \<le> 4) (\<lambda>_ _. True) s"
    by (simp add: Client_ctor_def Client_prepareWakeupPipe_def Client_Socket_new_def wp_simps Let_def
        Client_fields_def wp_case_prod blank split: prod.splits)
      (clarify, drule short, simp)
  from wp_normalD [OF this ctor] obtain a rc ra ack rs x y rp p0 p1 where
    tr: "io_trace u = [Ev_socket (cl_mSocket u), Ev_connect (cl_mSocket u) a rc,
          Ev_recv (cl_mSocket u) 4 No_flags ra ack] @ Ev_send (cl_mSocket u) ident rs #
          [Ev_getfl (cl_mSocket u) x, Ev_setfl (cl_mSocket u) y, Ev_pipe rp p0 p1]"
    and ack: "length ack \<le> 4" by auto
  show ?thesis
    by (intro exI [of _ "if 0 < ra then ack else []"] exI conjI, rule tr)
      (use ack in \<open>auto simp: tr stream_put_def stream_got_def callbacks_def\<close>)
qed

section \<open>One connection\<close>

text \<open>A kernel on which the listener, 3, is readable and whoever connects first says \<open>d\<close>.\<close>

definition accepting_kernel :: "bytes \<Rightarrow> posix" where
  "accepting_kernel d = scripted (\<lambda>tr fd. d) (\<lambda>tr. ({3}, {}))"

text \<open>The server after its constructor: the listener is 3, the pipe 4, 5.\<close>

definition accepting_server :: server where
  "accepting_server = server_blank\<lparr>
     io_trace := [Ev_socket 3, Ev_setsockopt 3 SO_REUSEADDR 0 0, Ev_bind 3 \<lparr>sin_addr = 0, sin_port = 80\<rparr> 0,
       Ev_listen 3 10 0, Ev_getfl 3 2, Ev_setfl 3 2050, Ev_pipe 0 4 5],
     mConnectSocket := Some \<lparr>mSocket = 3\<rparr>, srv_mBuffer := replicate 1024 CHR ''?'', mPort := 80,
     mWakeupPipe := (4, 5)\<rparr>"

lemma accepting_ctor: "Server_ctor (accepting_kernel d) True 80 server_blank = (Inr (), accepting_server)"
  by (simp add: Server_ctor_def Socket_new_def sys_defs seqE_def bindE_def modify_def ret_def
      gets_def Socket_makeNonBlocking_def Let_def accepting_kernel_def scripted_def next_fd_def
      server_blank_def Server_fields_def Socket_getSocket_def accepting_server_def
      server_address_def INADDR_ANY_def)

lemma accepting_kernel_fields [simp]:
  "k_accept (accepting_kernel d) tr fd = (if next_fd tr < 1024 then next_fd tr else -1)"
  "k_getfl (accepting_kernel d) tr fd = 2" "k_send (accepting_kernel d) tr fd b = int (length b)"
  "k_recv (accepting_kernel d) tr fd n f = (int (length (take n d)), take n d)"
  "k_poll (accepting_kernel d) tr fd i = 1"
  "k_select (accepting_kernel d) tr m rd wr = (1, {fd \<in> {3}. fd \<in> rd \<and> fd < m}, {})"
  "FD_SETSIZE (accepting_kernel d) = 1024" "O_NONBLOCK (accepting_kernel d) = 2048"
  by (simp_all add: accepting_kernel_def scripted_def)

lemma accepting_idle:
  assumes "0 \<le> i" "i < 1024" "i \<noteq> 3" "mWakeupPipe s = (4, 5)"
  shows "Server_fd_step (accepting_kernel d) {3} {} i s = (Inr (), s)"
  using assms
  by (simp add: Server_fd_step_def Server_drain_wakeup_def act_simps fd_in_range_def seqE_def bindE_def)

definition arrives :: "bytes \<Rightarrow> event list" where
  "arrives d =
     [Ev_accept 3 6, Ev_getfl 6 2, Ev_setfl 6 2050, Ev_send 6 ''ack'' 3, Ev_poll 6 Poll_in_pri 1,
      Ev_recv 6 MAX_BUFFER_SIZE MSG_WAITALL (int (length d)) d, Ev_callback (Cb_connected d)]"

lemma accepting_accept:
  assumes "mConnectSocket s = Some \<lparr>mSocket = 3\<rparr>" "next_fd (io_trace s) = 6" "srv_mCallback s"
    "mConnections s = Connections_ptr" "mWakeupPipe s = (4, 5)"
    and d: "d \<noteq> []" "length d \<le> MAX_BUFFER_SIZE"
  shows "\<exists>s'. Server_fd_step (accepting_kernel d) {3} {} 3 s = (Inr (), s') \<and>
    mWakeupPipe s' = (4, 5) \<and> mHasBeenShutdown s' = mHasBeenShutdown s \<and>
    io_trace s' = io_trace s @ arrives d \<and>
    mContainer s' = mContainer s @ [sc_next s] \<and> mMapping s' = (mMapping s)(d \<mapsto> sc_next s)"
proof -
  have "take MAX_BUFFER_SIZE d = d" "take (length d) (store_bytes b d) = d" for b
    using d(2) by (simp_all add: store_bytes_def)
  then show ?thesis
  using assms
  by (simp add: Server_fd_step_def Server_drain_wakeup_def act_simps fd_in_range_def seqE_def bindE_def
      Server_accept_def new_ServerConnection_def ServerConnection_ctor_def sc_alloc_def unwind_def
      tryE_def update_at_def deref_def Socket_makeNonBlocking_def sys_defs
      ServerConnection_performReceive_def Let_def Server_getCallback_def
      ServerConnection_getIdentifier_def call_callback_def Connections_addServerConnection_def
      ServerConnection_getSocket_def arrives_def)
qed

lemma accepting_run:
  assumes d: "d \<noteq> []" "length d \<le> MAX_BUFFER_SIZE"
  shows "\<exists>s'. Server_waitForEvents (accepting_kernel d) [[]] accepting_server = (Inr False, s') \<and>
    io_trace s' = io_trace accepting_server @ Ev_select 5 {4, 3} {} 1 {3} {} # arrives d \<and>
    mContainer s' = [1] \<and> mMapping s' = [d \<mapsto> 1]"
proof -
  let ?step = "Server_fd_step (accepting_kernel d) {3} {}"
  let ?s = "accepting_server\<lparr>mContainer := [], mMapping := Map.empty, mRead := {4, 3}, mFdMax := -1,
      mConnections := Connections_ptr, io_trace := io_trace accepting_server @ [Ev_select 5 {4, 3} {} 1 {3} {}]\<rparr>"
  have "{fd \<in> {3}. fd \<in> {4, 3} \<and> fd < 5} = {3::int}" by auto
  then have run: "Server_waitForEvents (accepting_kernel d) [[]] accepting_server =
      bindE (seqE (for_each ?step [0..4]) (ret False))
        (\<lambda>left. if left then ret True else Server_loop (accepting_kernel d) 4 []) ?s"
    by (simp add: Server_waitForEvents_def Server_prepare_def Server_iteration_def other_threads_def
        Connections_getMax_def Connections_new_def act_simps bindE_def seqE_def check_fd_def
        accepting_server_def fd_in_range_def server_blank_def sys_select_def on_connections_def
        connect_socket_def Socket_getSocket_def)
  have fields: "mConnectSocket ?s = Some \<lparr>mSocket = 3\<rparr>" "next_fd (io_trace ?s) = 6" "srv_mCallback ?s"
    "mConnections ?s = Connections_ptr" "mWakeupPipe ?s = (4, 5)" "\<not> mHasBeenShutdown ?s"
    by (simp_all add: accepting_server_def next_fd_def server_blank_def)
  obtain s' where s': "?step 3 ?s = (Inr (), s')" "mWakeupPipe s' = (4, 5)"
    "\<not> mHasBeenShutdown s'" "io_trace s' = io_trace ?s @ arrives d"
    "mContainer s' = [1]" "mMapping s' = [d \<mapsto> 1]"
    using accepting_accept [OF fields(1-5) d] fields(6) by (auto simp: accepting_server_def server_blank_def)
  have "[0..4::int] = [0, 1, 2, 3, 4]" by (simp add: upto_rec1)
  moreover have "?step i ?s = (Inr (), ?s)" if "i \<in> {0, 1, 2}" for i
    by (rule accepting_idle) (use that fields(5) in auto)
  moreover have "?step 4 s' = (Inr (), s')" by (rule accepting_idle) (use s'(2) in simp_all)
  ultimately have "for_each ?step [0..4] ?s = (Inr (), s')"
    using s'(1) by (simp add: seqE_def bindE_def skip_run)
  then show ?thesis
    unfolding run using s'(3-6) by (simp add: seqE_def bindE_def act_simps)
qed

lemma accepting_serves_only:
  "serves_only 6 (io_trace accepting_server @ Ev_select 5 {4, 3} {} 1 {3} {} # arrives d)"
  unfolding serves_only_def
  by (intro conjI exI [of _ "io_trace accepting_server @ [Ev_select 5 {4, 3} {} 1 {3} {}]"]
      exI [of _ 3] exI [of _ "tl (arrives d)"])
    (auto simp: accepting_server_def arrives_def)

text \<open>A client that connects as bob and then waits.\<close>

definition bob_kernel :: posix where
  "bob_kernel = scripted (\<lambda>tr fd. ''ack'') (\<lambda>tr. ({}, {}))"

lemma bob_ctor:
  "\<exists>u. Client_ctor bob_kernel True ''127.0.0.1'' 80 ''bob'' client_blank = (Inr (), u) \<and>
     cl_mSocket u = 3 \<and> cl_mWakeupPipe u = (4, 5) \<and>
     io_trace u = [Ev_socket 3, Ev_connect 3 \<lparr>sin_addr = 0, sin_port = 80\<rparr> 0, Ev_recv 3 4 No_flags 3 ''ack'',
       Ev_send 3 ''bob'' 3, Ev_getfl 3 2, Ev_setfl 3 2050, Ev_pipe 0 4 5]"
  by (simp add: Client_ctor_def Client_prepareWakeupPipe_def Client_Socket_new_def
      Socket_makeNonBlocking_def sys_defs seqE_def bindE_def modify_def ret_def gets_def throw_def
      Client_fields_def Let_def client_address_def memset_sockaddr_def client_blank_def
      bob_kernel_def scripted_def next_fd_def)

lemma bob_waits:
  assumes "cl_mSocket u = 3" and "cl_mWakeupPipe u = (4, 5)"
  shows "\<exists>rc u'. Client_waitForEvents bob_kernel [] u = (rc, u') \<and> io_trace u' = io_trace u \<and>
    (\<forall>x. rc \<noteq> Inl (Undefined_behaviour x))"
  using assms
  by (simp add: Client_waitForEvents_def Client_prepare_def act_simps bindE_def seqE_def
      fd_in_range_def bob_kernel_def scripted_def)

section \<open>Properties\<close>

text \<open>
  C3 A posix client and a posix server, each from its constructor on and each in a run that has
  not ended in undefined behaviour, with a callback and with the calls of other threads made
  while the loop is blocked, joined by one TCP connection that is the only one the server has
  accepted and that it still serves. The client's first write on its socket is the whole
  identifier, and what the kernel took of it begins the stream; what the server's user hears,
  the identifier it reads first and then the data, is a prefix of this stream, that is, of what
  the client's kernel took of its writes. What the client's user hears, after the at most four
  bytes read as the acknowledgement, is a prefix of what the server's kernel took. Between what
  one kernel took and what the user of the other end hears no byte is lost in the middle,
  repeated, reordered or invented.
\<close>

theorem end_to_end_streams:
  assumes "recv_fits Ks" and "fds_fresh Ks" and "io_trace s = []" and "sc_heap s = Map.empty"
    and "Server_ctor Ks True port s = (Inr (), t)" and "Server_waitForEvents Ks sched t = (r, s')"
    and "\<forall>x. r \<noteq> Inl (Undefined_behaviour x)"
    and "recv_fits Kc" and "fds_fresh Kc" and "io_trace v = []"
    and "Client_ctor Kc True hostname cport ident v = (Inr (), u)"
    and "Client_waitForEvents Kc csched u = (rc, u')" and "\<forall>x. rc \<noteq> Inl (Undefined_behaviour x)"
    and "serves_only f (io_trace s')" and "tcp_link (io_trace u') (cl_mSocket u) (io_trace s') f"
  shows "\<exists>pre rs post rest ack.
    io_trace u' = pre @ Ev_send (cl_mSocket u) ident rs # post \<and> sent_on (cl_mSocket u) pre = [] \<and>
    stream_put (cl_mSocket u) (io_trace u') = take (nat rs) ident @ rest \<and>
    prefix (heard (callbacks (io_trace s'))) (take (nat rs) ident @ rest) \<and>
    length ack \<le> 4 \<and>
    prefix (ack @ heard (callbacks (io_trace u'))) (stream_put f (io_trace s'))"
proof -
  let ?c = "cl_mSocket u"
  obtain ack pre rs post where first: "io_trace u = pre @ Ev_send ?c ident rs # post" "sent_on ?c pre = []"
    and ctor: "stream_put ?c (io_trace u) = take (nat rs) ident"
    "stream_got ?c (io_trace u) = ack" "length ack \<le> 4" "callbacks (io_trace u) = []"
    using client_ctor_streams [OF assms(8,10,11)] by blast
  obtain es where es: "io_trace u' = io_trace u @ es" "callbacks es = client_callbacks ?c ident es"
    "concat (map new_fds es) = []"
    using client_wait_reported [OF assms(8) client_ctor_reported [OF assms(9,11)] assms(12,13)] by blast
  note kept = no_new_fds [OF es(3), of ?c]
  obtain rest where "foldl (put_step ?c) (take (nat rs) ident) es = take (nat rs) ident @ rest"
    using foldl_put_grows [OF kept] by blast
  then have put: "stream_put ?c (io_trace u') = take (nat rs) ident @ rest"
    using ctor(1) by (simp add: es(1) stream_put_def)
  have got: "stream_got ?c (io_trace u') = ack @ heard (callbacks (io_trace u'))"
    using ctor(2,4) client_heard_is_stream [OF kept, of ack ident]
    by (simp add: es(1,2) stream_got_def)
  have "callbacks (io_trace s') = expected_callbacks Map.empty (io_trace s')"
    by (rule server_reports [OF assms(1-7)])
  then have "heard (callbacks (io_trace s')) = stream_got f (io_trace s')"
    by (simp add: heard_is_stream [OF assms(14)])
  moreover have "io_trace u' = pre @ Ev_send ?c ident rs # (post @ es)" by (simp add: es(1) first(1))
  ultimately show ?thesis using put got ctor(3) first(2) assms(15) unfolding tcp_link_def by metis
qed

theorem end_to_end_streams_witness:
  "\<exists>s' u u' rc pre rs post rest ack.
     Server_waitForEvents (accepting_kernel ''bob'') [[]] accepting_server = (Inr False, s') \<and>
     Client_ctor bob_kernel True ''127.0.0.1'' 80 ''bob'' client_blank = (Inr (), u) \<and>
     Client_waitForEvents bob_kernel [] u = (rc, u') \<and>
     heard (callbacks (io_trace s')) = ''bob'' \<and>
     io_trace u' = pre @ Ev_send (cl_mSocket u) ''bob'' rs # post \<and>
     prefix (heard (callbacks (io_trace s'))) (take (nat rs) ''bob'' @ rest) \<and> length ack \<le> 4 \<and>
     prefix (ack @ heard (callbacks (io_trace u'))) (stream_put 6 (io_trace s'))"
proof -
  obtain s' where s': "Server_waitForEvents (accepting_kernel ''bob'') [[]] accepting_server = (Inr False, s')"
    "io_trace s' = io_trace accepting_server @ Ev_select 5 {4, 3} {} 1 {3} {} # arrives ''bob''"
    using accepting_run [of "''bob''"] by (auto simp: MAX_BUFFER_SIZE_def)
  obtain u where u: "Client_ctor bob_kernel True ''127.0.0.1'' 80 ''bob'' client_blank = (Inr (), u)"
    "cl_mSocket u = 3" "cl_mWakeupPipe u = (4, 5)"
    "io_trace u = [Ev_socket 3, Ev_connect 3 \<lparr>sin_addr = 0, sin_port = 80\<rparr> 0, Ev_recv 3 4 No_flags 3 ''ack'',
       Ev_send 3 ''bob'' 3, Ev_getfl 3 2, Ev_setfl 3 2050, Ev_pipe 0 4 5]"
    using bob_ctor by blast
  obtain rc u' where u': "Client_waitForEvents bob_kernel [] u = (rc, u')" "io_trace u' = io_trace u"
    "\<forall>x. rc \<noteq> Inl (Undefined_behaviour x)"
    using bob_waits [OF u(2,3)] by blast
  have K: "recv_fits (accepting_kernel ''bob'')" "fds_fresh (accepting_kernel ''bob'')"
    "recv_fits bob_kernel" "fds_fresh bob_kernel"
    by (simp_all add: accepting_kernel_def bob_kernel_def scripted_recv_fits scripted_fds_fresh)
  have only: "serves_only 6 (io_trace s')" unfolding s'(2) by (rule accepting_serves_only)
  have link: "tcp_link (io_trace u') (cl_mSocket u) (io_trace s') 6"
    by (simp add: tcp_link_def u'(2) u(2,4) s'(2) stream_put_def stream_got_def
        accepting_server_def arrives_def)
  have blank: "io_trace server_blank = []" "sc_heap server_blank = Map.empty" "io_trace client_blank = []"
    by (simp_all add: server_blank_def client_blank_def)
  have "heard (callbacks (io_trace s')) = ''bob''"
    by (simp add: s'(2) accepting_server_def arrives_def)
  moreover have "\<forall>x. Inr False \<noteq> Inl (Undefined_behaviour x)" by simp
  ultimately show ?thesis
    using end_to_end_streams [OF K(1,2) blank(1,2) accepting_ctor s'(1) _ K(3,4) blank(3) u(1) u'(1,3)
        only link] s'(1) u(1) u'(1)
    by blast
qed

text \<open>
  C35 Nothing marks where the identifier ends. Whatever a client has written that has read at
  most the acknowledgement, for every length between one byte and the size of the buffer that
  its stream reaches there is a run of the server, from its constructor through an iteration of
  \<open>waitForEvents\<close>, that the link to this client allows and in which the server announces and registers its connection under exactly that many
  bytes of the client's stream: a fragment of the name, or the name with the first message glued
  to it.
\<close>

theorem identifier_depends_on_segments:
  assumes "1 \<le> n" and "n \<le> MAX_BUFFER_SIZE" and "n \<le> length (stream_put c tc)"
    and "prefix (stream_got c tc) ''ack''"
  shows "\<exists>t s' p. let K = accepting_kernel (take n (stream_put c tc)) in
    Server_ctor K True 80 server_blank = (Inr (), t) \<and>
    Server_waitForEvents K [[]] t = (Inr False, s') \<and>
    serves_only 6 (io_trace s') \<and> tcp_link tc c (io_trace s') 6 \<and>
    callbacks (io_trace s') = [Cb_connected (take n (stream_put c tc))] \<and>
    mContainer s' = [p] \<and> mMapping s' = [take n (stream_put c tc) \<mapsto> p]"
proof -
  let ?d = "take n (stream_put c tc)"
  have d: "?d \<noteq> []" "length ?d \<le> MAX_BUFFER_SIZE" using assms(1-3) by auto
  obtain s' where s': "Server_waitForEvents (accepting_kernel ?d) [[]] accepting_server = (Inr False, s')"
    "io_trace s' = io_trace accepting_server @ Ev_select 5 {4, 3} {} 1 {3} {} # arrives ?d"
    "mContainer s' = [1]" "mMapping s' = [?d \<mapsto> 1]"
    using accepting_run [OF d] by blast
  have "serves_only 6 (io_trace s')" unfolding s'(2) by (rule accepting_serves_only)
  moreover have "tcp_link tc c (io_trace s') 6"
    using d(1) assms(4)
    by (simp add: tcp_link_def s'(2) stream_put_def [of 6] stream_got_def [of 6] accepting_server_def
        arrives_def take_is_prefix)
  moreover have "callbacks (io_trace s') = [Cb_connected ?d]"
    by (simp add: s'(2) accepting_server_def arrives_def)
  ultimately show ?thesis using accepting_ctor s'(1,3,4) by (auto simp: Let_def)
qed

theorem identifier_depends_on_segments_witness:
  "\<exists>u t s'. Client_ctor bob_kernel True ''127.0.0.1'' 80 ''bob'' client_blank = (Inr (), u) \<and>
     Server_ctor (accepting_kernel ''bo'') True 80 server_blank = (Inr (), t) \<and>
     Server_waitForEvents (accepting_kernel ''bo'') [[]] t = (Inr False, s') \<and>
     tcp_link (io_trace u) 3 (io_trace s') 6 \<and> callbacks (io_trace s') = [Cb_connected ''bo'']"
proof -
  obtain u where u: "Client_ctor bob_kernel True ''127.0.0.1'' 80 ''bob'' client_blank = (Inr (), u)"
    "io_trace u = [Ev_socket 3, Ev_connect 3 \<lparr>sin_addr = 0, sin_port = 80\<rparr> 0, Ev_recv 3 4 No_flags 3 ''ack'',
       Ev_send 3 ''bob'' 3, Ev_getfl 3 2, Ev_setfl 3 2050, Ev_pipe 0 4 5]"
    using bob_ctor by blast
  have "stream_put 3 (io_trace u) = ''bob''" "prefix (stream_got 3 (io_trace u)) ''ack''"
    by (simp_all add: u(2) stream_put_def stream_got_def)
  with identifier_depends_on_segments [of 2 3 "io_trace u"] obtain t s' where
    "Server_ctor (accepting_kernel ''bo'') True 80 server_blank = (Inr (), t)"
    "Server_waitForEvents (accepting_kernel ''bo'') [[]] t = (Inr False, s')"
    "tcp_link (io_trace u) 3 (io_trace s') 6" "callbacks (io_trace s') = [Cb_connected ''bo'']"
    by (auto simp: MAX_BUFFER_SIZE_def Let_def)
  with u(1) show ?thesis by blast
qed

end
