(* ===== verification/Winsock_Kernel.thy ===== *)
theory Winsock_Kernel
  imports C11_Prelude
begin

text \<open>
  Winsock as a parameter, as \<open>Posix_Kernel\<close> is for the posix calls: \<open>winsock\<close> is a record of
  functions from the trace of the run and the arguments of a call to its result. The
  constants are the ones of the Winsock headers.

  Overlapped operations finish later. An alertable wait runs the completion routines of
  operations that have finished, on the thread that waits; \<open>n_wait\<close> says which, and what
  they are told. A receive stores its data when its result is fetched, or when its routine
  runs.
\<close>

type_synonym SOCKET = "64 word"

type_synonym HANDLE = "64 word"

type_synonym DWORD = "32 word"

definition INVALID_SOCKET :: SOCKET where
  "INVALID_SOCKET = - 1"

definition WSA_INVALID_EVENT :: HANDLE where
  "WSA_INVALID_EVENT = 0"

definition SOCKET_ERROR :: int where
  "SOCKET_ERROR = - 1"

definition WSA_WAIT_EVENT_0 :: DWORD where
  "WSA_WAIT_EVENT_0 = 0"

definition WSA_WAIT_IO_COMPLETION :: DWORD where
  "WSA_WAIT_IO_COMPLETION = 192"

definition WSA_WAIT_FAILED :: DWORD where
  "WSA_WAIT_FAILED = - 1"

definition WSA_IO_PENDING :: int where
  "WSA_IO_PENDING = 997"

definition WSAECONNRESET :: int where
  "WSAECONNRESET = 10054"

lemmas winsock_constants =
  INVALID_SOCKET_def WSA_INVALID_EVENT_def SOCKET_ERROR_def WSA_WAIT_EVENT_0_def
  WSA_WAIT_IO_COMPLETION_def WSA_WAIT_FAILED_def WSA_IO_PENDING_def WSAECONNRESET_def

section \<open>Events\<close>

datatype win_option = SO_SNDBUF | SO_UPDATE_ACCEPT_CONTEXT

text \<open>The completion routines that the program passes to overlapped calls.\<close>

datatype completion_routine =
    No_routine | DataSentToClient | ConnectionInformationReceivedFromClient

text \<open>A routine that runs: its error, its count, its overlapped structure, and the data received.\<close>

datatype completion = Completion completion_routine DWORD DWORD addr bytes

text \<open>
  The calls of the callback as the source makes them; one call of \<open>receiveComplete\<close> passes
  no identifier.
\<close>

datatype win_callback =
    WCb_sendComplete bytes DWORD
  | WCb_sendFailed bytes string
  | WCb_receiveComplete bytes bytes
  | WCb_receiveComplete_unnamed bytes
  | WCb_connected
  | WCb_disconnected bytes

datatype win_event =
    WE_startup int
  | WE_cleanup
  | WE_heap_alloc bool
  | WE_heap_free addr
  | WE_create_event HANDLE
  | WE_close_event HANDLE
  | WE_set_event HANDLE
  | WE_reset_event HANDLE
  | WE_socket SOCKET
  | WE_setsockopt SOCKET win_option int int
  | WE_closesocket SOCKET
  | WE_getaddrinfo string string int
  | WE_freeaddrinfo
  | WE_bind SOCKET addr int
  | WE_listen SOCKET int int
  | WE_ioctl SOCKET int
  | WE_acceptex SOCKET SOCKET addr bool
  | WE_connect SOCKET addr int
  | WE_send SOCKET bytes addr completion_routine int
  | WE_recv SOCKET DWORD addr completion_routine int
  | WE_plain_send SOCKET bytes
  | WE_recv_disconnect SOCKET
  | WE_send_disconnect SOCKET
  | WE_wait "HANDLE list" DWORD "completion list"
  | WE_overlapped_result SOCKET addr bool DWORD bool
  | WE_callback win_callback

text \<open>
  The parameter. Addresses of hosts are numbers; \<open>n_getaddrinfo\<close> gives the list that the
  result points to. \<open>n_recv\<close> and \<open>n_overlapped_result\<close> give the number of bytes and the
  data that the buffer then holds.
\<close>

record winsock =
  n_startup :: "win_event list \<Rightarrow> int"
  n_heap_alloc :: "win_event list \<Rightarrow> bool"
  n_create_event :: "win_event list \<Rightarrow> HANDLE"
  n_socket :: "win_event list \<Rightarrow> SOCKET"
  n_setsockopt :: "win_event list \<Rightarrow> SOCKET \<Rightarrow> win_option \<Rightarrow> int \<Rightarrow> int"
  n_getaddrinfo :: "win_event list \<Rightarrow> string \<Rightarrow> string \<Rightarrow> int \<times> addr list"
  n_bind :: "win_event list \<Rightarrow> SOCKET \<Rightarrow> addr \<Rightarrow> int"
  n_listen :: "win_event list \<Rightarrow> SOCKET \<Rightarrow> int \<Rightarrow> int"
  n_ioctl :: "win_event list \<Rightarrow> SOCKET \<Rightarrow> int"
  n_acceptex :: "win_event list \<Rightarrow> SOCKET \<Rightarrow> SOCKET \<Rightarrow> addr \<Rightarrow> bool"
  n_connect :: "win_event list \<Rightarrow> SOCKET \<Rightarrow> addr \<Rightarrow> int"
  n_send :: "win_event list \<Rightarrow> SOCKET \<Rightarrow> bytes \<Rightarrow> int"
  n_recv :: "win_event list \<Rightarrow> SOCKET \<Rightarrow> DWORD \<Rightarrow> int \<times> DWORD \<times> bytes"
  n_wait :: "win_event list \<Rightarrow> HANDLE list \<Rightarrow> DWORD \<times> completion list"
  n_overlapped_result :: "win_event list \<Rightarrow> SOCKET \<Rightarrow> addr \<Rightarrow> bool \<Rightarrow> bool \<times> DWORD \<times> bytes"
  n_last_error :: "win_event list \<Rightarrow> int"
  n_indet_socket :: SOCKET
  n_indet_dword :: DWORD
  n_indet_bool :: bool
  n_indet_bytes :: bytes

record win_io =
  w_trace :: "win_event list"

section \<open>Calls as actions\<close>

definition w_emit :: "win_event \<Rightarrow> ('a win_io_scheme, unit) act" where
  "w_emit e = modify (\<lambda>s. s\<lparr>w_trace := w_trace s @ [e]\<rparr>)"

text \<open>A call whose result \<open>f\<close> computes from the trace, recorded as the event \<open>ev\<close> of it.\<close>

definition w_call :: "(win_event list \<Rightarrow> 'r) \<Rightarrow> ('r \<Rightarrow> win_event) \<Rightarrow> ('a win_io_scheme, 'r) act" where
  "w_call f ev =
     bindE (gets (\<lambda>s. f (w_trace s))) (\<lambda>r. seqE (w_emit (ev r)) (ret r))"

lemma w_emit_run [act_simps]: "w_emit e s = (Inr (), s\<lparr>w_trace := w_trace s @ [e]\<rparr>)"
  by (simp add: w_emit_def modify_def)

lemma wp_w_emit [wp_simps]: "wp (w_emit e) Q E s = Q () (s\<lparr>w_trace := w_trace s @ [e]\<rparr>)"
  by (simp add: w_emit_def wp_simps)

lemma w_call_run [act_simps]:
  "w_call f ev s = (Inr (f (w_trace s)), s\<lparr>w_trace := w_trace s @ [ev (f (w_trace s))]\<rparr>)"
  by (simp add: w_call_def bindE_def seqE_def act_simps)

lemma wp_w_call [wp_simps]:
  "wp (w_call f ev) Q E s =
     Q (f (w_trace s)) (s\<lparr>w_trace := w_trace s @ [ev (f (w_trace s))]\<rparr>)"
  by (simp add: wp_def w_call_run)

text \<open>The same with a name for the result, which keeps the goals of long sequences small.\<close>

lemma wp_w_callI:
  "(\<And>r. f (w_trace s) = r \<Longrightarrow> Q r (s\<lparr>w_trace := w_trace s @ [ev r]\<rparr>)) \<Longrightarrow> wp (w_call f ev) Q E s"
  by (simp add: wp_w_call)

definition WSAStartup :: "winsock \<Rightarrow> ('a win_io_scheme, int) act" where
  "WSAStartup K = w_call (n_startup K) WE_startup"

definition WSACleanup :: "('a win_io_scheme, unit) act" where
  "WSACleanup = w_emit WE_cleanup"

definition HeapAlloc :: "winsock \<Rightarrow> ('a win_io_scheme, bool) act" where
  "HeapAlloc K = w_call (n_heap_alloc K) WE_heap_alloc"

definition WSACreateEvent :: "winsock \<Rightarrow> ('a win_io_scheme, HANDLE) act" where
  "WSACreateEvent K = w_call (n_create_event K) WE_create_event"

definition WSACloseEvent :: "HANDLE \<Rightarrow> ('a win_io_scheme, unit) act" where
  "WSACloseEvent h = w_emit (WE_close_event h)"

definition WSASetEvent :: "HANDLE \<Rightarrow> ('a win_io_scheme, unit) act" where
  "WSASetEvent h = w_emit (WE_set_event h)"

definition WSAResetEvent :: "HANDLE \<Rightarrow> ('a win_io_scheme, unit) act" where
  "WSAResetEvent h = w_emit (WE_reset_event h)"

definition WSASocket :: "winsock \<Rightarrow> ('a win_io_scheme, SOCKET) act" where
  "WSASocket K = w_call (n_socket K) WE_socket"

definition win_setsockopt :: "winsock \<Rightarrow> SOCKET \<Rightarrow> win_option \<Rightarrow> int \<Rightarrow> ('a win_io_scheme, int) act" where
  "win_setsockopt K sck opt v = w_call (\<lambda>tr. n_setsockopt K tr sck opt v) (WE_setsockopt sck opt v)"

definition closesocket :: "SOCKET \<Rightarrow> ('a win_io_scheme, unit) act" where
  "closesocket sck = w_emit (WE_closesocket sck)"

definition win_getaddrinfo :: "winsock \<Rightarrow> string \<Rightarrow> string \<Rightarrow> ('a win_io_scheme, int \<times> addr list) act" where
  "win_getaddrinfo K host port =
     w_call (\<lambda>tr. n_getaddrinfo K tr host port) (\<lambda>r. WE_getaddrinfo host port (fst r))"

definition freeaddrinfo :: "('a win_io_scheme, unit) act" where
  "freeaddrinfo = w_emit WE_freeaddrinfo"

definition win_bind :: "winsock \<Rightarrow> SOCKET \<Rightarrow> addr \<Rightarrow> ('a win_io_scheme, int) act" where
  "win_bind K sck a = w_call (\<lambda>tr. n_bind K tr sck a) (WE_bind sck a)"

definition win_listen :: "winsock \<Rightarrow> SOCKET \<Rightarrow> int \<Rightarrow> ('a win_io_scheme, int) act" where
  "win_listen K sck n = w_call (\<lambda>tr. n_listen K tr sck n) (WE_listen sck n)"

definition WSAIoctl :: "winsock \<Rightarrow> SOCKET \<Rightarrow> ('a win_io_scheme, int) act" where
  "WSAIoctl K sck = w_call (\<lambda>tr. n_ioctl K tr sck) (WE_ioctl sck)"

definition AcceptEx :: "winsock \<Rightarrow> SOCKET \<Rightarrow> SOCKET \<Rightarrow> addr \<Rightarrow> ('a win_io_scheme, bool) act" where
  "AcceptEx K listener incoming ov =
     w_call (\<lambda>tr. n_acceptex K tr listener incoming ov) (WE_acceptex listener incoming ov)"

definition WSAConnect :: "winsock \<Rightarrow> SOCKET \<Rightarrow> addr \<Rightarrow> ('a win_io_scheme, int) act" where
  "WSAConnect K sck a = w_call (\<lambda>tr. n_connect K tr sck a) (WE_connect sck a)"

definition WSASend ::
    "winsock \<Rightarrow> SOCKET \<Rightarrow> bytes \<Rightarrow> addr \<Rightarrow> completion_routine \<Rightarrow> ('a win_io_scheme, int) act" where
  "WSASend K sck d ov routine = w_call (\<lambda>tr. n_send K tr sck d) (WE_send sck d ov routine)"

definition WSARecv ::
    "winsock \<Rightarrow> SOCKET \<Rightarrow> DWORD \<Rightarrow> addr \<Rightarrow> completion_routine \<Rightarrow>
       ('a win_io_scheme, int \<times> DWORD \<times> bytes) act" where
  "WSARecv K sck len ov routine =
     w_call (\<lambda>tr. n_recv K tr sck len) (\<lambda>r. WE_recv sck len ov routine (fst r))"

definition win_plain_send :: "SOCKET \<Rightarrow> bytes \<Rightarrow> ('a win_io_scheme, unit) act" where
  "win_plain_send sck d = w_emit (WE_plain_send sck d)"

definition WSARecvDisconnect :: "SOCKET \<Rightarrow> ('a win_io_scheme, unit) act" where
  "WSARecvDisconnect sck = w_emit (WE_recv_disconnect sck)"

definition WSASendDisconnect :: "SOCKET \<Rightarrow> ('a win_io_scheme, unit) act" where
  "WSASendDisconnect sck = w_emit (WE_send_disconnect sck)"

definition WSAWaitForMultipleEvents ::
    "winsock \<Rightarrow> HANDLE list \<Rightarrow> ('a win_io_scheme, DWORD \<times> completion list) act" where
  "WSAWaitForMultipleEvents K hs =
     w_call (\<lambda>tr. n_wait K tr hs) (\<lambda>r. WE_wait hs (fst r) (snd r))"

definition WSAGetOverlappedResult ::
    "winsock \<Rightarrow> SOCKET \<Rightarrow> addr \<Rightarrow> bool \<Rightarrow> ('a win_io_scheme, bool \<times> DWORD \<times> bytes) act" where
  "WSAGetOverlappedResult K sck ov wait =
     w_call (\<lambda>tr. n_overlapped_result K tr sck ov wait)
       (\<lambda>r. WE_overlapped_result sck ov wait (fst (snd r)) (fst r))"

definition WSAGetLastError :: "winsock \<Rightarrow> ('a win_io_scheme, int) act" where
  "WSAGetLastError K = gets (\<lambda>s. n_last_error K (w_trace s))"

lemmas win_call_defs =
  WSAStartup_def WSACleanup_def HeapAlloc_def WSACreateEvent_def WSACloseEvent_def
  WSASetEvent_def WSAResetEvent_def WSASocket_def win_setsockopt_def closesocket_def
  win_getaddrinfo_def freeaddrinfo_def win_bind_def win_listen_def WSAIoctl_def AcceptEx_def
  WSAConnect_def WSASend_def WSARecv_def win_plain_send_def WSARecvDisconnect_def
  WSASendDisconnect_def WSAWaitForMultipleEvents_def WSAGetOverlappedResult_def
  WSAGetLastError_def

text \<open>A runtime error whose message ends with the last error, and one with a given number.\<close>

definition throw_last_error :: "winsock \<Rightarrow> string \<Rightarrow> ('a win_io_scheme, 'b) act" where
  "throw_last_error K msg = bindE (WSAGetLastError K) (\<lambda>e. throw (Runtime_error (msg @ show_int e)))"

lemma wp_throw_last_error [wp_simps]:
  "wp (throw_last_error K msg) Q E s = E (Runtime_error (msg @ show_int (n_last_error K (w_trace s)))) s"
  by (simp add: throw_last_error_def WSAGetLastError_def wp_simps)

lemma throw_last_error_run [act_simps]:
  "throw_last_error K msg s = (Inl (Runtime_error (msg @ show_int (n_last_error K (w_trace s)))), s)"
  by (simp add: throw_last_error_def WSAGetLastError_def bindE_def act_simps)

definition call_win_callback :: "bool \<Rightarrow> win_callback \<Rightarrow> ('a win_io_scheme, unit) act" where
  "call_win_callback cb e =
     (if cb then w_emit (WE_callback e) else throw (Undefined_behaviour ''null callback''))"

lemma wp_call_win_callback [wp_simps]:
  "wp (call_win_callback cb e) Q E s =
     (if cb then Q () (s\<lparr>w_trace := w_trace s @ [WE_callback e]\<rparr>)
      else E (Undefined_behaviour ''null callback'') s)"
  by (simp add: call_win_callback_def wp_simps)

section \<open>What a trace says\<close>

fun win_track_socket :: "SOCKET set \<Rightarrow> win_event \<Rightarrow> SOCKET set" where
  "win_track_socket S (WE_socket sck) = (if sck = INVALID_SOCKET then S else insert sck S)"
| "win_track_socket S (WE_closesocket sck) = S - {sck}"
| "win_track_socket S _ = S"

text \<open>The sockets that are open after a trace.\<close>

definition open_sockets :: "win_event list \<Rightarrow> SOCKET set" where
  "open_sockets tr = fold (\<lambda>e S. win_track_socket S e) tr {}"

lemma open_sockets_snoc: "open_sockets (tr @ [e]) = win_track_socket (open_sockets tr) e"
  by (simp add: open_sockets_def)

lemma open_sockets_append:
  "open_sockets (tr @ es) = fold (\<lambda>e S. win_track_socket S e) es (open_sockets tr)"
  by (simp add: open_sockets_def)

fun win_track_event :: "HANDLE set \<Rightarrow> win_event \<Rightarrow> HANDLE set" where
  "win_track_event S (WE_create_event h) = insert h S"
| "win_track_event S (WE_close_event h) = S - {h}"
| "win_track_event S _ = S"

text \<open>The event handles that exist after a trace.\<close>

definition open_events :: "win_event list \<Rightarrow> HANDLE set" where
  "open_events tr = fold (\<lambda>e S. win_track_event S e) tr {}"

lemma open_events_append:
  "open_events (tr @ es) = fold (\<lambda>e S. win_track_event S e) es (open_events tr)"
  by (simp add: open_events_def)

text \<open>Documented of \<open>WSACreateEvent\<close>: a handle it gives is not the handle of another event.\<close>

definition events_fresh :: "winsock \<Rightarrow> bool" where
  "events_fresh K \<longleftrightarrow> (\<forall>tr. n_create_event K tr \<noteq> WSA_INVALID_EVENT \<longrightarrow>
     n_create_event K tr \<notin> open_events tr)"

fun win_callback_of :: "win_event \<Rightarrow> win_callback list" where
  "win_callback_of (WE_callback c) = [c]"
| "win_callback_of _ = []"

definition win_callbacks :: "win_event list \<Rightarrow> win_callback list" where
  "win_callbacks tr = concat (map win_callback_of tr)"

lemma win_callbacks_simps [simp]:
  "win_callbacks [] = []"
  "win_callbacks (a @ b) = win_callbacks a @ win_callbacks b"
  "win_callbacks (e # a) = win_callback_of e @ win_callbacks a"
  by (simp_all add: win_callbacks_def)

end
