(* ===== verification/Windows_Socket.thy ===== *)
theory Windows_Socket
  imports Winsock_Kernel
begin

text \<open>
  \<open>windows/Socket\<close>: the wrapper around a Winsock socket. The server and the client have the
  same file.
\<close>

record WinSocket =
  win_mSocket :: SOCKET

definition WinSocket_wrap :: "SOCKET \<Rightarrow> WinSocket" where
  "WinSocket_wrap sckt = \<lparr>win_mSocket = sckt\<rparr>"

definition WinSocket_getSocket :: "WinSocket \<Rightarrow> SOCKET" where
  "WinSocket_getSocket sck = win_mSocket sck"

text \<open>A failure to switch off the send buffer is formatted and dropped.\<close>

definition WinSocket_new :: "winsock \<Rightarrow> ('a win_io_scheme, WinSocket) act" where
  "WinSocket_new K =
     bindE (WSASocket K) (\<lambda>sckt.
       if sckt = INVALID_SOCKET then throw_last_error K ''Socket Creation Error ''
       else
         bindE (win_setsockopt K sckt SO_SNDBUF 0) (\<lambda>_.
         ret \<lparr>win_mSocket = sckt\<rparr>))"

definition WinSocket_closeSocket :: "WinSocket \<Rightarrow> ('a win_io_scheme, unit) act" where
  "WinSocket_closeSocket sck = closesocket (win_mSocket sck)"

lemma WinSocket_accessors [simp]:
  "win_mSocket (WinSocket_wrap sckt) = sckt"
  "WinSocket_getSocket sck = win_mSocket sck"
  by (simp_all add: WinSocket_wrap_def WinSocket_getSocket_def)

text \<open>What a new socket adds to the trace.\<close>

definition socket_events :: "winsock \<Rightarrow> win_event list \<Rightarrow> win_event list" where
  "socket_events K tr =
     (let sckt = n_socket K tr in
      WE_socket sckt #
        (if sckt = INVALID_SOCKET then []
         else [WE_setsockopt sckt SO_SNDBUF 0 (n_setsockopt K (tr @ [WE_socket sckt]) sckt SO_SNDBUF 0)]))"

lemma WinSocket_new_eq:
  "WinSocket_new K s =
     (let s' = s\<lparr>w_trace := w_trace s @ socket_events K (w_trace s)\<rparr> in
      if n_socket K (w_trace s) = INVALID_SOCKET
      then (Inl (Runtime_error (''Socket Creation Error '' @ show_int (n_last_error K (w_trace s')))), s')
      else (Inr \<lparr>win_mSocket = n_socket K (w_trace s)\<rparr>, s'))"
  by (simp add: WinSocket_new_def socket_events_def WSASocket_def win_setsockopt_def bindE_def
      act_simps Let_def)

lemma wp_WinSocket_new [wp_simps]:
  "wp (WinSocket_new K) Q E s =
     (let s' = s\<lparr>w_trace := w_trace s @ socket_events K (w_trace s)\<rparr> in
      if n_socket K (w_trace s) = INVALID_SOCKET
      then E (Runtime_error (''Socket Creation Error '' @ show_int (n_last_error K (w_trace s')))) s'
      else Q \<lparr>win_mSocket = n_socket K (w_trace s)\<rparr> s')"
  by (simp add: wp_def WinSocket_new_eq Let_def)

lemma wp_WinSocket_newI:
  assumes "\<And>sckt r. sckt \<noteq> INVALID_SOCKET \<Longrightarrow> Q \<lparr>win_mSocket = sckt\<rparr>
      (s\<lparr>w_trace := w_trace s @ [WE_socket sckt, WE_setsockopt sckt SO_SNDBUF 0 r]\<rparr>)"
    and "\<And>w. E (Runtime_error w) (s\<lparr>w_trace := w_trace s @ [WE_socket INVALID_SOCKET]\<rparr>)"
  shows "wp (WinSocket_new K) Q E s"
  using assms by (simp add: wp_WinSocket_new Let_def socket_events_def)

lemma socket_events_open:
  "open_sockets (tr @ socket_events K tr) =
     (if n_socket K tr = INVALID_SOCKET then open_sockets tr else insert (n_socket K tr) (open_sockets tr))"
  by (simp add: socket_events_def Let_def open_sockets_append)

end
