(* ===== verification/Windows_Overlap.thy ===== *)
theory Windows_Overlap
  imports Windows_Socket
begin

text \<open>
  \<open>windows/Overlap\<close>: the class template behind every object that takes part in overlapped
  I/O. An overlap owns a structure on the process heap with an event handle and a pointer to
  the object; the structures are kept on a heap of the model. An object that inherits from
  \<open>Overlap\<close> holds \<open>mOverlap\<close>, the address of its structure, null until \<open>createOverlap\<close>
  has succeeded.
\<close>

record overlapped =
  hEvent :: HANDLE
  ov_derived :: addr

record ov_io = win_io +
  ov_heap :: "addr \<rightharpoonup> overlapped"
  ov_next :: addr

lemma ov_io_update_order [simp]:
  "ov_heap_update f (w_trace_update g s) = w_trace_update g (ov_heap_update f s)"
  "ov_next_update h (w_trace_update g s) = w_trace_update g (ov_next_update h s)"
  "ov_heap_update f (ov_next_update h s) = ov_next_update h (ov_heap_update f s)"
  by simp_all

definition ov_deref :: "addr \<Rightarrow> ('a ov_io_scheme, overlapped) act" where
  "ov_deref p s =
     (case ov_heap s p of
        None \<Rightarrow> (Inl (Undefined_behaviour ''use of a dead overlapped structure''), s)
      | Some ov \<Rightarrow> (Inr ov, s))"

definition ov_update :: "addr \<Rightarrow> (overlapped \<Rightarrow> overlapped) \<Rightarrow> ('a ov_io_scheme, unit) act" where
  "ov_update p f = bindE (ov_deref p) (\<lambda>ov. modify (\<lambda>s. s\<lparr>ov_heap := (ov_heap s)(p \<mapsto> f ov)\<rparr>))"

definition ov_alloc :: "('a ov_io_scheme, addr) act" where
  "ov_alloc s =
     (Inr (ov_next s), s\<lparr>ov_heap := (ov_heap s)(ov_next s \<mapsto> \<lparr>hEvent = 0, ov_derived = null\<rparr>),
        ov_next := Suc (ov_next s)\<rparr>)"

text \<open>
  \<open>createOverlap\<close>; the result is what is then stored in \<open>mOverlap\<close>. Where the event cannot
  be created, the structure stays allocated.
\<close>

definition Overlap_createOverlap :: "winsock \<Rightarrow> addr \<Rightarrow> ('a ov_io_scheme, addr) act" where
  "Overlap_createOverlap K derived =
     bindE (HeapAlloc K) (\<lambda>ok.
       if \<not> ok then throw (Runtime_error ''Overlap HeapAlloc()'')
       else
         bindE ov_alloc (\<lambda>cOverlap.
         bindE (WSACreateEvent K) (\<lambda>h.
         seqE (ov_update cOverlap (\<lambda>ov. ov\<lparr>hEvent := h\<rparr>))
           (if h = WSA_INVALID_EVENT then throw (Runtime_error ''WSACreateEvent'')
            else
              seqE (ov_update cOverlap (\<lambda>ov. ov\<lparr>ov_derived := derived\<rparr>))
                (ret cOverlap)))))"

text \<open>The destructor reads through \<open>mOverlap\<close> before it compares it with null.\<close>

text \<open>
  The constructors of the template: the default one stores null, so that destroying an object
  whose overlapped structure was never created reads through null; the other one creates it.
\<close>

definition Overlap_default :: addr where
  "Overlap_default = null"

definition Overlap_ctor :: "winsock \<Rightarrow> addr \<Rightarrow> ('a ov_io_scheme, addr) act" where
  "Overlap_ctor K derived = Overlap_createOverlap K derived"

definition Overlap_destructor :: "addr \<Rightarrow> ('a ov_io_scheme, unit) act" where
  "Overlap_destructor mOverlap =
     bindE (ov_deref mOverlap) (\<lambda>ov.
     seqE (WSACloseEvent (hEvent ov))
    (seqE (ov_update mOverlap (\<lambda>ov. ov\<lparr>hEvent := WSA_INVALID_EVENT\<rparr>))
       (whenE (mOverlap \<noteq> null)
          (seqE (w_emit (WE_heap_free mOverlap))
             (modify (\<lambda>s. s\<lparr>ov_heap := (ov_heap s)(mOverlap := None)\<rparr>))))))"

definition Overlap_getOverlap :: "addr \<Rightarrow> addr" where
  "Overlap_getOverlap mOverlap = mOverlap"

section \<open>How the operations run\<close>

lemma ov_deref_run [act_simps]: "ov_heap s p = Some ov \<Longrightarrow> ov_deref p s = (Inr ov, s)"
  by (simp add: ov_deref_def)

lemma ov_deref_dead [act_simps]:
  "ov_heap s p = None \<Longrightarrow>
     ov_deref p s = (Inl (Undefined_behaviour ''use of a dead overlapped structure''), s)"
  by (simp add: ov_deref_def)

lemma wp_ov_deref [wp_simps]:
  "wp (ov_deref p) Q E s =
     (case ov_heap s p of
        None \<Rightarrow> E (Undefined_behaviour ''use of a dead overlapped structure'') s
      | Some ov \<Rightarrow> Q ov s)"
  by (simp add: wp_def ov_deref_def split: option.splits)

lemma wp_ov_alloc [wp_simps]:
  "wp ov_alloc Q E s =
     Q (ov_next s) (s\<lparr>ov_heap := (ov_heap s)(ov_next s \<mapsto> \<lparr>hEvent = 0, ov_derived = null\<rparr>),
        ov_next := Suc (ov_next s)\<rparr>)"
  by (simp add: wp_def ov_alloc_def)

lemma wp_ov_update [wp_simps]:
  "wp (ov_update p f) Q E s =
     (case ov_heap s p of
        None \<Rightarrow> E (Undefined_behaviour ''use of a dead overlapped structure'') s
      | Some ov \<Rightarrow> Q () (s\<lparr>ov_heap := (ov_heap s)(p \<mapsto> f ov)\<rparr>))"
  by (simp add: ov_update_def wp_simps split: option.splits)

text \<open>The result of \<open>createOverlap\<close> as one equation.\<close>

definition overlap_event :: "winsock \<Rightarrow> win_event list \<Rightarrow> HANDLE" where
  "overlap_event K tr = n_create_event K (tr @ [WE_heap_alloc True])"

lemma createOverlap_ok:
  assumes "n_heap_alloc K (w_trace s)" and "overlap_event K (w_trace s) \<noteq> WSA_INVALID_EVENT"
  shows "Overlap_createOverlap K d s =
    (Inr (ov_next s),
     s\<lparr>ov_heap := (ov_heap s)(ov_next s \<mapsto> \<lparr>hEvent = overlap_event K (w_trace s), ov_derived = d\<rparr>),
       ov_next := Suc (ov_next s),
       w_trace := w_trace s @ [WE_heap_alloc True, WE_create_event (overlap_event K (w_trace s))]\<rparr>)"
  using assms
  by (simp add: Overlap_createOverlap_def HeapAlloc_def WSACreateEvent_def bindE_def seqE_def
      act_simps ov_alloc_def ov_update_def overlap_event_def)

lemma createOverlap_fails:
  assumes "\<not> (n_heap_alloc K (w_trace s) \<and> overlap_event K (w_trace s) \<noteq> WSA_INVALID_EVENT)"
  shows "\<exists>w h n tr. Overlap_createOverlap K d s =
    (Inl (Runtime_error w), s\<lparr>ov_heap := h, ov_next := n, w_trace := tr\<rparr>)"
proof (cases "n_heap_alloc K (w_trace s)")
  case True
  with assms have "overlap_event K (w_trace s) = WSA_INVALID_EVENT" by simp
  with True have "Overlap_createOverlap K d s =
    (Inl (Runtime_error ''WSACreateEvent''),
     s\<lparr>ov_heap := (ov_heap s)(ov_next s \<mapsto> \<lparr>hEvent = WSA_INVALID_EVENT, ov_derived = null\<rparr>),
       ov_next := Suc (ov_next s),
       w_trace := w_trace s @ [WE_heap_alloc True, WE_create_event WSA_INVALID_EVENT]\<rparr>)"
    by (simp add: Overlap_createOverlap_def HeapAlloc_def WSACreateEvent_def bindE_def seqE_def
        act_simps ov_alloc_def ov_update_def overlap_event_def)
  then show ?thesis by blast
next
  case False
  then have "Overlap_createOverlap K d s = (Inl (Runtime_error ''Overlap HeapAlloc()''),
     s\<lparr>ov_heap := ov_heap s, ov_next := ov_next s, w_trace := w_trace s @ [WE_heap_alloc False]\<rparr>)"
    by (simp add: Overlap_createOverlap_def HeapAlloc_def bindE_def act_simps)
  then show ?thesis by blast
qed

text \<open>Nothing is ever put at the null address.\<close>

lemma createOverlap_null:
  assumes "ov_heap s null = None" and "ov_next s \<noteq> null" and "Overlap_createOverlap K d s = (r, s')"
  shows "ov_heap s' null = None"
  using assms
  by (auto simp: Overlap_createOverlap_def HeapAlloc_def WSACreateEvent_def bindE_def seqE_def
      act_simps ov_alloc_def ov_update_def split: if_splits)

lemma overlap_destructor_run [act_simps]:
  assumes "ov_heap s p = Some ov" and "p \<noteq> null"
  shows "Overlap_destructor p s =
    (Inr (), s\<lparr>ov_heap := (ov_heap s)(p := None),
               w_trace := w_trace s @ [WE_close_event (hEvent ov), WE_heap_free p]\<rparr>)"
  using assms
  by (simp add: Overlap_destructor_def WSACloseEvent_def bindE_def seqE_def act_simps ov_update_def)

text \<open>Destroying an object whose overlap was never created reads through a null pointer.\<close>

lemma overlap_destructor_null:
  assumes "ov_heap s null = None"
  shows "Overlap_destructor null s =
    (Inl (Undefined_behaviour ''use of a dead overlapped structure''), s)"
  using assms by (simp add: Overlap_destructor_def bindE_def act_simps)

lemma Overlap_default_destroyed:
  "ov_heap s null = None \<Longrightarrow> Overlap_destructor Overlap_default s =
     (Inl (Undefined_behaviour ''use of a dead overlapped structure''), s)"
  by (simp add: Overlap_destructor_def Overlap_default_def ov_deref_def bindE_def)

end
