(* ===== verification/Windows_ServerConnection.thy ===== *)
theory Windows_ServerConnection
  imports Windows_Overlap
begin

text \<open>
  \<open>windows/ServerConnection\<close>: the server's end of a connection. Objects live on a heap of
  the model, beside that of the overlapped structures. \<open>wsc_mOverlap\<close> is the member of the
  base class; \<open>wsc_mDataLen\<close> is the length field of \<open>mDataBuffer\<close>, whose pointer leads to
  the object's own buffer. \<open>wsc_mIdentifier\<close> is the member that \<open>setIdentifier\<close> and
  \<open>getIdentifier\<close> of the source file use; the header does not declare it.
\<close>

definition WIN_MAX_BUFFER_SIZE :: nat where
  "WIN_MAX_BUFFER_SIZE = 1024"

record win_connection =
  wsc_mOverlap :: addr
  wsc_mSocket :: SOCKET
  wsc_mBytes :: DWORD
  wsc_mBuffer :: bytes
  wsc_mDataLen :: DWORD
  wsc_mServer :: addr
  wsc_mOperation :: DWORD
  wsc_mIdentifier :: bytes

record wconn_io = ov_io +
  wc_heap :: "addr \<rightharpoonup> win_connection"
  wc_next :: addr

lemma wconn_io_update_order [simp]:
  "wc_heap_update f (w_trace_update g s) = w_trace_update g (wc_heap_update f s)"
  "wc_next_update h (w_trace_update g s) = w_trace_update g (wc_next_update h s)"
  "wc_heap_update f (ov_heap_update k s) = ov_heap_update k (wc_heap_update f s)"
  "wc_next_update h (ov_heap_update k s) = ov_heap_update k (wc_next_update h s)"
  "wc_heap_update f (ov_next_update l s) = ov_next_update l (wc_heap_update f s)"
  "wc_next_update h (ov_next_update l s) = ov_next_update l (wc_next_update h s)"
  "wc_heap_update f (wc_next_update h s) = wc_next_update h (wc_heap_update f s)"
  by simp_all

definition wc_deref :: "addr \<Rightarrow> ('a wconn_io_scheme, win_connection) act" where
  "wc_deref p s =
     (case wc_heap s p of
        None \<Rightarrow> (Inl (Undefined_behaviour ''use of a dead ServerConnection''), s)
      | Some c \<Rightarrow> (Inr c, s))"

definition wc_update ::
    "addr \<Rightarrow> (win_connection \<Rightarrow> win_connection) \<Rightarrow> ('a wconn_io_scheme, unit) act" where
  "wc_update p f = bindE (wc_deref p) (\<lambda>c. modify (\<lambda>s. s\<lparr>wc_heap := (wc_heap s)(p \<mapsto> f c)\<rparr>))"

definition wc_blank :: "winsock \<Rightarrow> win_connection" where
  "wc_blank K =
     \<lparr>wsc_mOverlap = null, wsc_mSocket = n_indet_socket K, wsc_mBytes = n_indet_dword K,
      wsc_mBuffer = n_indet_bytes K, wsc_mDataLen = n_indet_dword K, wsc_mServer = null,
      wsc_mOperation = n_indet_dword K, wsc_mIdentifier = []\<rparr>"

definition wc_alloc :: "winsock \<Rightarrow> ('a wconn_io_scheme, addr) act" where
  "wc_alloc K s =
     (Inr (wc_next s), s\<lparr>wc_heap := (wc_heap s)(wc_next s \<mapsto> wc_blank K), wc_next := Suc (wc_next s)\<rparr>)"

definition wc_dealloc :: "addr \<Rightarrow> ('a wconn_io_scheme, unit) act" where
  "wc_dealloc p = modify (\<lambda>s. s\<lparr>wc_heap := (wc_heap s)(p := None)\<rparr>)"

section \<open>Operations\<close>

text \<open>The members the constructor sets before it creates the overlap.\<close>

definition WinServerConnection_fields :: "WinSocket \<Rightarrow> addr \<Rightarrow> win_connection \<Rightarrow> win_connection" where
  "WinServerConnection_fields sck srv c =
     c\<lparr>wsc_mOverlap := null, wsc_mSocket := WinSocket_getSocket sck, wsc_mBytes := 0,
       wsc_mServer := srv, wsc_mBuffer := replicate WIN_MAX_BUFFER_SIZE (char_of (0::nat)),
       wsc_mDataLen := of_nat WIN_MAX_BUFFER_SIZE\<rparr>"

definition WinServerConnection_ctor ::
    "winsock \<Rightarrow> addr \<Rightarrow> WinSocket \<Rightarrow> addr \<Rightarrow> ('a wconn_io_scheme, unit) act" where
  "WinServerConnection_ctor K p sck srv =
     seqE (wc_update p (WinServerConnection_fields sck srv))
    (bindE (Overlap_createOverlap K p) (\<lambda>ov.
     wc_update p (\<lambda>c. c\<lparr>wsc_mOverlap := ov\<rparr>)))"

text \<open>
  \<open>new ServerConnection(socket, server)\<close>. Where the constructor throws, the destructor of
  the base class runs, because the base has been constructed, and then the memory goes.
\<close>

definition new_WinServerConnection ::
    "winsock \<Rightarrow> WinSocket \<Rightarrow> addr \<Rightarrow> ('a wconn_io_scheme, addr) act" where
  "new_WinServerConnection K sck srv =
     bindE (wc_alloc K) (\<lambda>p.
     seqE (cleanupE (WinServerConnection_ctor K p sck srv)
             (bindE (wc_deref p) (\<lambda>c.
              seqE (Overlap_destructor (wsc_mOverlap c)) (wc_dealloc p))))
       (ret p))"

definition WinServerConnection_destructor :: "addr \<Rightarrow> ('a wconn_io_scheme, unit) act" where
  "WinServerConnection_destructor p =
     bindE (wc_deref p) (\<lambda>c.
     seqE (closesocket (wsc_mSocket c))
    (seqE (wc_update p (\<lambda>c. c\<lparr>wsc_mSocket := INVALID_SOCKET\<rparr>))
       (Overlap_destructor (wsc_mOverlap c))))"

definition delete_WinServerConnection :: "addr \<Rightarrow> ('a wconn_io_scheme, unit) act" where
  "delete_WinServerConnection p = seqE (WinServerConnection_destructor p) (wc_dealloc p)"

definition WinServerConnection_setIdentifier :: "addr \<Rightarrow> bytes \<Rightarrow> ('a wconn_io_scheme, unit) act" where
  "WinServerConnection_setIdentifier p ident = wc_update p (\<lambda>c. c\<lparr>wsc_mIdentifier := ident\<rparr>)"

definition WinServerConnection_getSocket :: "addr \<Rightarrow> ('a wconn_io_scheme, SOCKET) act" where
  "WinServerConnection_getSocket p = bindE (wc_deref p) (\<lambda>c. ret (wsc_mSocket c))"

definition WinServerConnection_getBytes :: "addr \<Rightarrow> ('a wconn_io_scheme, DWORD) act" where
  "WinServerConnection_getBytes p = bindE (wc_deref p) (\<lambda>c. ret (wsc_mBytes c))"

definition WinServerConnection_getBuffer :: "addr \<Rightarrow> ('a wconn_io_scheme, bytes) act" where
  "WinServerConnection_getBuffer p = bindE (wc_deref p) (\<lambda>c. ret (wsc_mBuffer c))"

definition WinServerConnection_getDataBuffer :: "addr \<Rightarrow> ('a wconn_io_scheme, DWORD) act" where
  "WinServerConnection_getDataBuffer p = bindE (wc_deref p) (\<lambda>c. ret (wsc_mDataLen c))"

definition WinServerConnection_getOperation :: "addr \<Rightarrow> ('a wconn_io_scheme, DWORD) act" where
  "WinServerConnection_getOperation p = bindE (wc_deref p) (\<lambda>c. ret (wsc_mOperation c))"

definition WinServerConnection_getIdentifier :: "addr \<Rightarrow> ('a wconn_io_scheme, bytes) act" where
  "WinServerConnection_getIdentifier p = bindE (wc_deref p) (\<lambda>c. ret (wsc_mIdentifier c))"

definition WinServerConnection_getServer :: "addr \<Rightarrow> ('a wconn_io_scheme, addr) act" where
  "WinServerConnection_getServer p = bindE (wc_deref p) (\<lambda>c. ret (wsc_mServer c))"

text \<open>\<open>connection->getOverlap()\<close>, and the event in the structure behind it.\<close>

definition wc_getOverlap :: "addr \<Rightarrow> ('a wconn_io_scheme, addr) act" where
  "wc_getOverlap p = bindE (wc_deref p) (\<lambda>c. ret (Overlap_getOverlap (wsc_mOverlap c)))"

definition wc_hEvent :: "addr \<Rightarrow> ('a wconn_io_scheme, HANDLE) act" where
  "wc_hEvent p = bindE (wc_getOverlap p) (\<lambda>q. bindE (ov_deref q) (\<lambda>ov. ret (hEvent ov)))"

lemmas wc_getter_defs =
  WinServerConnection_getSocket_def WinServerConnection_getBytes_def
  WinServerConnection_getBuffer_def WinServerConnection_getDataBuffer_def
  WinServerConnection_getOperation_def WinServerConnection_getIdentifier_def
  WinServerConnection_getServer_def wc_getOverlap_def Overlap_getOverlap_def

section \<open>How the operations run\<close>

lemma wc_deref_run [act_simps]: "wc_heap s p = Some c \<Longrightarrow> wc_deref p s = (Inr c, s)"
  by (simp add: wc_deref_def)

lemma wc_deref_dead [act_simps]:
  "wc_heap s p = None \<Longrightarrow>
     wc_deref p s = (Inl (Undefined_behaviour ''use of a dead ServerConnection''), s)"
  by (simp add: wc_deref_def)

lemma wp_wc_deref [wp_simps]:
  "wp (wc_deref p) Q E s =
     (case wc_heap s p of
        None \<Rightarrow> E (Undefined_behaviour ''use of a dead ServerConnection'') s
      | Some c \<Rightarrow> Q c s)"
  by (simp add: wp_def wc_deref_def split: option.splits)

lemma wp_wc_update [wp_simps]:
  "wp (wc_update p f) Q E s =
     (case wc_heap s p of
        None \<Rightarrow> E (Undefined_behaviour ''use of a dead ServerConnection'') s
      | Some c \<Rightarrow> Q () (s\<lparr>wc_heap := (wc_heap s)(p \<mapsto> f c)\<rparr>))"
  by (simp add: wc_update_def wp_simps split: option.splits)

lemma wc_getters_run [act_simps]:
  assumes "wc_heap s p = Some c"
  shows "WinServerConnection_getSocket p s = (Inr (wsc_mSocket c), s)"
    "WinServerConnection_getBytes p s = (Inr (wsc_mBytes c), s)"
    "WinServerConnection_getBuffer p s = (Inr (wsc_mBuffer c), s)"
    "WinServerConnection_getDataBuffer p s = (Inr (wsc_mDataLen c), s)"
    "WinServerConnection_getOperation p s = (Inr (wsc_mOperation c), s)"
    "WinServerConnection_getIdentifier p s = (Inr (wsc_mIdentifier c), s)"
    "WinServerConnection_getServer p s = (Inr (wsc_mServer c), s)"
    "wc_getOverlap p s = (Inr (wsc_mOverlap c), s)"
  using assms by (simp_all add: wc_getter_defs bindE_def act_simps)

lemma wc_hEvent_run [act_simps]:
  "wc_heap s p = Some c \<Longrightarrow> ov_heap s (wsc_mOverlap c) = Some ov \<Longrightarrow>
     wc_hEvent p s = (Inr (hEvent ov), s)"
  by (simp add: wc_hEvent_def bindE_def act_simps)

lemma wc_update_run [act_simps]:
  "wc_heap s p = Some c \<Longrightarrow> wc_update p f s = (Inr (), s\<lparr>wc_heap := (wc_heap s)(p \<mapsto> f c)\<rparr>)"
  by (simp add: wc_update_def bindE_def act_simps)

text \<open>A connection is live when its object and its overlapped structure are.\<close>

definition wc_live :: "'a wconn_io_scheme \<Rightarrow> addr \<Rightarrow> bool" where
  "wc_live s p \<longleftrightarrow> p \<noteq> null \<and>
     (\<exists>c ov. wc_heap s p = Some c \<and> wsc_mOverlap c \<noteq> null \<and> ov_heap s (wsc_mOverlap c) = Some ov)"

definition wc_overlap :: "'a wconn_io_scheme \<Rightarrow> addr \<Rightarrow> addr" where
  "wc_overlap s p = wsc_mOverlap (the (wc_heap s p))"

definition wc_handle :: "'a wconn_io_scheme \<Rightarrow> addr \<Rightarrow> HANDLE" where
  "wc_handle s p = hEvent (the (ov_heap s (wc_overlap s p)))"

definition wc_ident :: "'a wconn_io_scheme \<Rightarrow> addr \<Rightarrow> bytes" where
  "wc_ident s p = wsc_mIdentifier (the (wc_heap s p))"

definition wc_sock :: "'a wconn_io_scheme \<Rightarrow> addr \<Rightarrow> SOCKET" where
  "wc_sock s p = wsc_mSocket (the (wc_heap s p))"

lemma wc_liveE:
  assumes "wc_live s p"
  obtains c ov where "p \<noteq> null" "wc_heap s p = Some c" "wsc_mOverlap c \<noteq> null"
    "ov_heap s (wsc_mOverlap c) = Some ov" "wc_overlap s p = wsc_mOverlap c"
    "wc_handle s p = hEvent ov" "wc_ident s p = wsc_mIdentifier c" "wc_sock s p = wsc_mSocket c"
proof -
  obtain c ov where c: "wc_heap s p = Some c" and nn: "p \<noteq> null" "wsc_mOverlap c \<noteq> null"
    and ov: "ov_heap s (wsc_mOverlap c) = Some ov"
    using assms unfolding wc_live_def by blast
  show thesis
    by (rule that [OF nn(1) c nn(2) ov])
      (simp_all add: c ov wc_overlap_def wc_handle_def wc_ident_def wc_sock_def)
qed

lemma delete_win_run:
  assumes "wc_live s p"
  shows "delete_WinServerConnection p s =
    (Inr (), s\<lparr>wc_heap := (wc_heap s)(p := None), ov_heap := (ov_heap s)(wc_overlap s p := None),
       w_trace := w_trace s @ [WE_closesocket (wc_sock s p), WE_close_event (wc_handle s p),
                               WE_heap_free (wc_overlap s p)]\<rparr>)"
  using assms
  by (auto elim!: wc_liveE simp: delete_WinServerConnection_def WinServerConnection_destructor_def
      wc_dealloc_def closesocket_def seqE_def bindE_def act_simps)

lemma connection_ctor_ok:
  assumes "wc_heap t p = Some c"
    and "n_heap_alloc K (w_trace t)" and "overlap_event K (w_trace t) \<noteq> WSA_INVALID_EVENT"
  shows "WinServerConnection_ctor K p sck srv t =
      (Inr (), t\<lparr>wc_heap := (wc_heap t)(p \<mapsto>
          (WinServerConnection_fields sck srv c)\<lparr>wsc_mOverlap := ov_next t\<rparr>),
       ov_heap := (ov_heap t)(ov_next t \<mapsto>
          \<lparr>hEvent = overlap_event K (w_trace t), ov_derived = p\<rparr>),
       ov_next := Suc (ov_next t),
       w_trace := w_trace t @ [WE_heap_alloc True, WE_create_event (overlap_event K (w_trace t))]\<rparr>)"
  using assms
  by (simp add: WinServerConnection_ctor_def seqE_def bindE_def act_simps createOverlap_ok)

lemma new_connection_ok:
  assumes "n_heap_alloc K (w_trace s)" and "overlap_event K (w_trace s) \<noteq> WSA_INVALID_EVENT"
  shows "new_WinServerConnection K sck srv s =
    (Inr (wc_next s),
     s\<lparr>wc_heap := (wc_heap s)(wc_next s \<mapsto>
          (WinServerConnection_fields sck srv (wc_blank K))\<lparr>wsc_mOverlap := ov_next s\<rparr>),
       wc_next := Suc (wc_next s),
       ov_heap := (ov_heap s)(ov_next s \<mapsto>
          \<lparr>hEvent = overlap_event K (w_trace s), ov_derived = wc_next s\<rparr>),
       ov_next := Suc (ov_next s),
       w_trace := w_trace s @ [WE_heap_alloc True, WE_create_event (overlap_event K (w_trace s))]\<rparr>)"
  using assms
  by (simp add: new_WinServerConnection_def wc_alloc_def seqE_def bindE_def act_simps
      connection_ctor_ok [where c = "wc_blank K"] cleanupE_run(1))

text \<open>
  Where the overlap cannot be created, the exception never arrives: unwinding destroys the
  base object, whose destructor reads through the pointer that was never set.
\<close>

lemma new_connection_fails:
  assumes "\<not> (n_heap_alloc K (w_trace s) \<and> overlap_event K (w_trace s) \<noteq> WSA_INVALID_EVENT)"
    and "ov_heap s null = None" and "ov_next s \<noteq> null"
  shows "\<exists>s'. new_WinServerConnection K sck srv s =
    (Inl (Undefined_behaviour ''use of a dead overlapped structure''), s')"
proof -
  let ?p = "wc_next s"
  let ?t = "s\<lparr>wc_heap := (wc_heap s)(?p \<mapsto> WinServerConnection_fields sck srv (wc_blank K)),
    wc_next := Suc ?p\<rparr>"
  have null: "case Overlap_createOverlap K ?p ?t of (_, t') \<Rightarrow> ov_heap t' null = None \<and> wc_heap t' = wc_heap ?t"
    using assms(2,3)
    by (simp add: Overlap_createOverlap_def HeapAlloc_def WSACreateEvent_def bindE_def seqE_def
        act_simps ov_alloc_def ov_update_def ret_def throw_def)
  obtain w t where t: "Overlap_createOverlap K ?p ?t = (Inl (Runtime_error w), t)"
    using createOverlap_fails [of K ?t ?p] assms(1) by auto
  with null have "ov_heap t null = None"
    "wc_heap t ?p = Some (WinServerConnection_fields sck srv (wc_blank K))"
    by (auto simp: )
  then have h: "bindE (wc_deref ?p) (\<lambda>c. seqE (Overlap_destructor (wsc_mOverlap c)) (wc_dealloc ?p)) t =
      (Inl (Undefined_behaviour ''use of a dead overlapped structure''), t)"
    by (simp add: bindE_def seqE_def act_simps overlap_destructor_null WinServerConnection_fields_def)
  have "WinServerConnection_ctor K ?p sck srv
      (s\<lparr>wc_heap := (wc_heap s)(?p \<mapsto> wc_blank K), wc_next := Suc ?p\<rparr>) = (Inl (Runtime_error w), t)"
    using t by (simp add: WinServerConnection_ctor_def seqE_def bindE_def act_simps)
  then show ?thesis
    using h by (simp add: new_WinServerConnection_def wc_alloc_def seqE_def bindE_def
        cleanupE_run(3) act_simps)
qed

end
