(* ===== verification/Windows_Connections.thy ===== *)
theory Windows_Connections
  imports Windows_ServerConnection Connection_Store "HOL-Library.Multiset"
begin

text \<open>
  \<open>windows/Connections\<close>: the container of connections, keyed by the event handles of their
  overlapped structures. \<open>getHandleArray\<close> also rotates the container, so that no
  connection starves. Unlike the posix container, this one removes with \<open>std::find_if\<close>, and
  it keeps the contract of removal for every key: it is the second interpretation of
  \<open>connection_store\<close>.
\<close>

record wconns_io = wconn_io +
  w_mContainer :: "addr list"
  w_mMapping :: "bytes \<rightharpoonup> addr"

lemma wconns_io_update_order [simp]:
  "w_mContainer_update f (w_trace_update g s) = w_trace_update g (w_mContainer_update f s)"
  "w_mMapping_update h (w_trace_update g s) = w_trace_update g (w_mMapping_update h s)"
  "w_mContainer_update f (wc_heap_update g' s) = wc_heap_update g' (w_mContainer_update f s)"
  "w_mMapping_update h (wc_heap_update g' s) = wc_heap_update g' (w_mMapping_update h s)"
  "w_mContainer_update f (ov_heap_update g'' s) = ov_heap_update g'' (w_mContainer_update f s)"
  "w_mMapping_update h (ov_heap_update g'' s) = ov_heap_update g'' (w_mMapping_update h s)"
  "w_mContainer_update f (w_mMapping_update h s) = w_mMapping_update h (w_mContainer_update f s)"
  by simp_all

section \<open>Operations\<close>

definition WinConnections_new :: "('a wconns_io_scheme, unit) act" where
  "WinConnections_new = modify (\<lambda>s. s\<lparr>w_mContainer := [], w_mMapping := Map.empty\<rparr>)"

text \<open>The predicate of \<open>std::find_if\<close> reads the event of the connection behind the pointer.\<close>

definition WinServerConnectionFinder :: "HANDLE \<Rightarrow> addr \<Rightarrow> ('a wconns_io_scheme, bool) act" where
  "WinServerConnectionFinder handle p = bindE (wc_hEvent p) (\<lambda>h. ret (handle = h))"

primrec win_find_if :: "HANDLE \<Rightarrow> addr list \<Rightarrow> ('a wconns_io_scheme, addr option) act" where
  "win_find_if handle [] = ret None"
| "win_find_if handle (p # ps) =
     bindE (WinServerConnectionFinder handle p) (\<lambda>hit.
       if hit then ret (Some p) else win_find_if handle ps)"

primrec win_events :: "addr list \<Rightarrow> ('a wconns_io_scheme, HANDLE list) act" where
  "win_events [] = ret []"
| "win_events (p # ps) = bindE (wc_hEvent p) (\<lambda>h. bindE (win_events ps) (\<lambda>hs. ret (h # hs)))"

definition WinConnections_getHandleArray :: "HANDLE \<Rightarrow> ('a wconns_io_scheme, HANDLE list) act" where
  "WinConnections_getHandleArray serverHandle =
     bindE (gets w_mContainer) (\<lambda>container.
       case container of
         [] \<Rightarrow> ret [serverHandle]
       | client # rest \<Rightarrow>
           seqE (modify (\<lambda>s. s\<lparr>w_mContainer := rest @ [client]\<rparr>))
          (bindE (win_events (rest @ [client])) (\<lambda>hs.
           ret (serverHandle # hs))))"

definition WinConnections_removeServerConnection :: "HANDLE \<Rightarrow> ('a wconns_io_scheme, unit) act" where
  "WinConnections_removeServerConnection handle =
     bindE (gets w_mContainer) (\<lambda>container.
     bindE (win_find_if handle container) (\<lambda>found.
       case found of
         None \<Rightarrow> skip
       | Some p \<Rightarrow>
           bindE (WinServerConnection_getIdentifier p) (\<lambda>ident.
           seqE (modify (\<lambda>s. s\<lparr>w_mMapping := (w_mMapping s)(ident := None)\<rparr>))
          (seqE (delete_WinServerConnection p)
             (modify (\<lambda>s. s\<lparr>w_mContainer := remove1 p (w_mContainer s)\<rparr>))))))"

definition WinConnections_removeServerConnection_id :: "bytes \<Rightarrow> ('a wconns_io_scheme, unit) act" where
  "WinConnections_removeServerConnection_id ident =
     bindE (gets w_mMapping) (\<lambda>m.
       case m ident of
         None \<Rightarrow> skip
       | Some p \<Rightarrow> bindE (wc_hEvent p) WinConnections_removeServerConnection)"

definition WinConnections_getServerConnection :: "HANDLE \<Rightarrow> ('a wconns_io_scheme, addr) act" where
  "WinConnections_getServerConnection handle =
     bindE (gets w_mContainer) (\<lambda>container.
     bindE (win_find_if handle container) (\<lambda>found.
       case found of
         None \<Rightarrow> throw (Runtime_error ''Failed to find client'')
       | Some p \<Rightarrow> ret p))"

definition WinConnections_getServerConnection_id :: "bytes \<Rightarrow> ('a wconns_io_scheme, addr) act" where
  "WinConnections_getServerConnection_id ident =
     bindE (gets w_mMapping) (\<lambda>m.
       case m ident of
         None \<Rightarrow> throw (Runtime_error ''Failed to find client'')
       | Some p \<Rightarrow> ret p)"

definition WinConnections_addServerConnection :: "addr \<Rightarrow> bytes \<Rightarrow> ('a wconns_io_scheme, unit) act" where
  "WinConnections_addServerConnection client ident =
     seqE (WinServerConnection_setIdentifier client ident)
    (seqE (modify (\<lambda>s. s\<lparr>w_mMapping := (w_mMapping s)(ident \<mapsto> client)\<rparr>))
       (modify (\<lambda>s. s\<lparr>w_mContainer := w_mContainer s @ [client]\<rparr>)))"

definition WinConnections_destructor :: "('a wconns_io_scheme, unit) act" where
  "WinConnections_destructor =
     bindE (gets w_mContainer) (\<lambda>container.
     seqE (for_each delete_WinServerConnection container)
    (seqE (modify (\<lambda>s. s\<lparr>w_mContainer := []\<rparr>))
       (modify (\<lambda>s. s\<lparr>w_mMapping := Map.empty\<rparr>))))"

definition WinConnections_size :: "('a wconns_io_scheme, nat) act" where
  "WinConnections_size = gets (\<lambda>s. length (w_mContainer s))"

definition WinConnections_getConnections :: "('a wconns_io_scheme, addr list) act" where
  "WinConnections_getConnections = gets w_mContainer"

section \<open>The invariant\<close>

text \<open>
  Every pointer in the container is live; the connections, their overlapped structures and
  their event handles differ; the map only leads to connections in the container, under
  their identifier.
\<close>

definition wconns_inv :: "'a wconns_io_scheme \<Rightarrow> bool" where
  "wconns_inv s \<longleftrightarrow>
     (\<forall>p \<in> set (w_mContainer s). wc_live s p) \<and> distinct (w_mContainer s) \<and>
     inj_on (wc_overlap s) (set (w_mContainer s)) \<and> inj_on (wc_handle s) (set (w_mContainer s)) \<and>
     (\<forall>i p. w_mMapping s i = Some p \<longrightarrow> p \<in> set (w_mContainer s) \<and> wc_ident s p = i)"

definition wconn_entries :: "'a wconns_io_scheme \<Rightarrow> HANDLE entry list" where
  "wconn_entries s = map (\<lambda>p. (wc_handle s p, wc_ident s p, p)) (w_mContainer s)"

text \<open>Which connections may be added: live ones, not in the container, with a new event.\<close>

definition wconn_addable :: "HANDLE entry \<Rightarrow> 'a wconns_io_scheme \<Rightarrow> bool" where
  "wconn_addable e s \<longleftrightarrow>
     (case e of (h, i, p) \<Rightarrow>
        wc_live s p \<and> p \<notin> set (w_mContainer s) \<and> wc_handle s p = h \<and>
        wc_overlap s p \<notin> wc_overlap s ` set (w_mContainer s) \<and>
        h \<notin> wc_handle s ` set (w_mContainer s))"

lemma wc_readers_cong:
  assumes "wc_heap t = wc_heap s" and "ov_heap t = ov_heap s"
  shows "wc_live t = wc_live s" "wc_handle t = wc_handle s" "wc_ident t = wc_ident s"
    "wc_overlap t = wc_overlap s" "wc_sock t = wc_sock s"
  using assms
  by (simp_all add: wc_live_def wc_handle_def wc_ident_def wc_overlap_def wc_sock_def fun_eq_iff)

lemma wconns_inv_cong:
  assumes "wconns_inv s" and "wc_heap t = wc_heap s" and "ov_heap t = ov_heap s"
    and "w_mContainer t = w_mContainer s" and "w_mMapping t = w_mMapping s"
  shows "wconns_inv t"
  using assms by (simp add: wconns_inv_def wc_readers_cong [OF assms(2,3)])

lemma wconns_invD:
  assumes "wconns_inv s"
  shows "p \<in> set (w_mContainer s) \<Longrightarrow> wc_live s p"
    and "distinct (w_mContainer s)"
    and "w_mMapping s i = Some p \<Longrightarrow> p \<in> set (w_mContainer s) \<and> wc_ident s p = i"
    and "p \<in> set (w_mContainer s) \<Longrightarrow> q \<in> set (w_mContainer s) \<Longrightarrow>
      wc_handle s p = wc_handle s q \<longleftrightarrow> p = q"
    and "p \<in> set (w_mContainer s) \<Longrightarrow> q \<in> set (w_mContainer s) \<Longrightarrow>
      wc_overlap s p = wc_overlap s q \<longleftrightarrow> p = q"
  using assms by (auto simp: wconns_inv_def inj_on_eq_iff)

section \<open>How the operations run\<close>

lemma wc_hEvent_live [act_simps]: "wc_live s p \<Longrightarrow> wc_hEvent p s = (Inr (wc_handle s p), s)"
  by (auto elim!: wc_liveE simp: act_simps)

lemma wc_getters_live:
  assumes "wc_live s p"
  shows "WinServerConnection_getIdentifier p s = (Inr (wc_ident s p), s)"
    "WinServerConnection_getSocket p s = (Inr (wc_sock s p), s)"
    "wc_getOverlap p s = (Inr (wc_overlap s p), s)"
  using assms by (auto elim!: wc_liveE simp: act_simps)

lemma win_find_if_run:
  assumes "\<forall>p \<in> set ps. wc_live s p"
  shows "win_find_if h ps s = (Inr (find (\<lambda>p. wc_handle s p = h) ps), s)"
  using assms
  by (induction ps)
    (auto simp: WinServerConnectionFinder_def bindE_def act_simps)

lemma win_events_run:
  assumes "\<forall>p \<in> set ps. wc_live s p"
  shows "win_events ps s = (Inr (map (wc_handle s) ps), s)"
  using assms by (induction ps) (auto simp: bindE_def act_simps)

lemma find_handle_eq:
  assumes "wconns_inv s" and "p \<in> set (w_mContainer s)"
  shows "find (\<lambda>q. wc_handle s q = wc_handle s p) (w_mContainer s) = Some p"
proof -
  obtain q where q: "find (\<lambda>q. wc_handle s q = wc_handle s p) (w_mContainer s) = Some q"
    using assms(2) by (cases "find (\<lambda>q. wc_handle s q = wc_handle s p) (w_mContainer s)")
      (auto simp: find_None_iff)
  from find_Some_mem [OF q] have "q = p" using wconns_invD(4) [OF assms(1)] assms(2) by auto
  with q show ?thesis by simp
qed

lemma getServerConnection_win_eq:
  assumes "wconns_inv s"
  shows "WinConnections_getServerConnection h s =
    (case find_entry h (wconn_entries s) of
       None \<Rightarrow> Inl (Runtime_error ''Failed to find client'') | Some p \<Rightarrow> Inr p, s)"
proof -
  have "find_entry h (map (\<lambda>p. (wc_handle s p, wc_ident s p, p)) ps) =
      find (\<lambda>p. wc_handle s p = h) ps" for ps
    by (induction ps) auto
  then show ?thesis
    using wconns_invD(1) [OF assms]
    by (simp add: WinConnections_getServerConnection_def bindE_def act_simps win_find_if_run
        wconn_entries_def split: option.splits)
qed

lemma getServerConnection_win_run:
  assumes "wconns_inv s" and "p \<in> set (w_mContainer s)"
  shows "WinConnections_getServerConnection (wc_handle s p) s = (Inr p, s)"
  using assms wconns_invD(1) [OF assms(1)]
  by (simp add: WinConnections_getServerConnection_def bindE_def act_simps win_find_if_run find_handle_eq)

lemma getServerConnection_id_win_eq:
  "WinConnections_getServerConnection_id i s =
     (case w_mMapping s i of None \<Rightarrow> Inl (Runtime_error ''Failed to find client'') | Some p \<Rightarrow> Inr p, s)"
  by (simp add: WinConnections_getServerConnection_id_def bindE_def act_simps split: option.splits)

text \<open>The state after a connection of the container was removed.\<close>

definition win_removed :: "addr \<Rightarrow> 'a wconns_io_scheme \<Rightarrow> 'a wconns_io_scheme" where
  "win_removed p s =
     s\<lparr>w_mContainer := remove1 p (w_mContainer s),
       w_mMapping := (w_mMapping s)(wc_ident s p := None),
       wc_heap := (wc_heap s)(p := None), ov_heap := (ov_heap s)(wc_overlap s p := None),
       w_trace := w_trace s @ [WE_closesocket (wc_sock s p), WE_close_event (wc_handle s p),
                               WE_heap_free (wc_overlap s p)]\<rparr>"

lemma removeServerConnection_win_run:
  assumes "wconns_inv s" and "p \<in> set (w_mContainer s)"
  shows "WinConnections_removeServerConnection (wc_handle s p) s = (Inr (), win_removed p s)"
proof -
  have live: "\<forall>q \<in> set (w_mContainer s). wc_live s q" using wconns_invD(1) [OF assms(1)] by blast
  let ?t = "s\<lparr>w_mMapping := (w_mMapping s)(wc_ident s p := None)\<rparr>"
  have t: "wc_live ?t p" "wc_overlap ?t = wc_overlap s" "wc_sock ?t = wc_sock s"
    "wc_handle ?t = wc_handle s"
    using live assms(2) by (simp_all add: wc_readers_cong [of ?t s])
  show ?thesis
    using live assms(2)
    by (simp add: WinConnections_removeServerConnection_def bindE_def seqE_def act_simps
        win_find_if_run find_handle_eq [OF assms] wc_getters_live delete_win_run [OF t(1)] t win_removed_def)
qed

lemma win_removed_readers:
  assumes "wconns_inv s" and "p \<in> set (w_mContainer s)" and "q \<in> set (w_mContainer s)" and "q \<noteq> p"
  shows "wc_live (win_removed p s) q" "wc_handle (win_removed p s) q = wc_handle s q"
    "wc_ident (win_removed p s) q = wc_ident s q" "wc_overlap (win_removed p s) q = wc_overlap s q"
    "wc_sock (win_removed p s) q = wc_sock s q"
proof -
  have "wc_overlap s q \<noteq> wc_overlap s p" using wconns_invD(5) [OF assms(1,3,2)] assms(4) by simp
  then have heaps: "wc_heap (win_removed p s) q = wc_heap s q"
    "ov_heap (win_removed p s) (wc_overlap s q) = ov_heap s (wc_overlap s q)"
    using assms(4) by (simp_all add: win_removed_def)
  from wconns_invD(1) [OF assms(1,3)] show "wc_live (win_removed p s) q"
  proof (rule wc_liveE)
    fix c ov
    assume "q \<noteq> null" "wc_heap s q = Some c" "wsc_mOverlap c \<noteq> null"
      "ov_heap s (wsc_mOverlap c) = Some ov" "wc_overlap s q = wsc_mOverlap c"
    with heaps show ?thesis by (simp add: wc_live_def)
  qed
  show "wc_handle (win_removed p s) q = wc_handle s q"
    using assms(4) \<open>wc_overlap s q \<noteq> wc_overlap s p\<close>
    by (simp add: win_removed_def wc_handle_def wc_overlap_def)
qed (use assms(4) in \<open>simp_all add: win_removed_def wc_ident_def wc_overlap_def wc_sock_def\<close>)

lemma win_removed_inv:
  assumes inv: "wconns_inv s" and p: "p \<in> set (w_mContainer s)"
  shows "wconns_inv (win_removed p s)"
proof -
  let ?t = "win_removed p s"
  have d: "distinct (w_mContainer s)" using inv by (simp add: wconns_inv_def)
  have mem: "q \<in> set (w_mContainer ?t) \<longleftrightarrow> q \<in> set (w_mContainer s) \<and> q \<noteq> p" for q
    using d by (simp add: win_removed_def)
  note r = win_removed_readers [OF inv p]
  have "\<forall>q \<in> set (w_mContainer ?t). wc_live ?t q" using mem r(1) by blast
  moreover have "distinct (w_mContainer ?t)" using d by (simp add: win_removed_def)
  moreover have "inj_on (wc_overlap ?t) (set (w_mContainer ?t))"
    using mem r(4) wconns_invD(5) [OF inv] by (auto intro!: inj_onI)
  moreover have "inj_on (wc_handle ?t) (set (w_mContainer ?t))"
    using mem r(2) wconns_invD(4) [OF inv] by (auto intro!: inj_onI)
  moreover have "q \<in> set (w_mContainer ?t) \<and> wc_ident ?t q = i" if "w_mMapping ?t i = Some q" for i q
  proof -
    have "i \<noteq> wc_ident s p" "w_mMapping s i = Some q"
      using that by (auto simp: win_removed_def split: if_splits)
    then have "q \<in> set (w_mContainer s)" "wc_ident s q = i" "q \<noteq> p"
      using wconns_invD(3) [OF inv] by auto
    then show ?thesis using mem r(3) by simp
  qed
  ultimately show ?thesis by (simp add: wconns_inv_def)
qed

lemma win_removed_entries:
  assumes inv: "wconns_inv s" and p: "p \<in> set (w_mContainer s)"
  shows "wconn_entries (win_removed p s) = filter (\<lambda>e. fst e \<noteq> wc_handle s p) (wconn_entries s)"
proof -
  have d: "distinct (w_mContainer s)" using inv by (simp add: wconns_inv_def)
  have "remove1 p (w_mContainer s) = filter (\<lambda>q. wc_handle s q \<noteq> wc_handle s p) (w_mContainer s)"
    using d wconns_invD(4) [OF inv _ p] by (simp add: distinct_remove1_removeAll removeAll_filter_not_eq
        eq_commute [of p] cong: filter_cong)
  moreover have "map (\<lambda>q. (wc_handle (win_removed p s) q, wc_ident (win_removed p s) q, q))
      (remove1 p (w_mContainer s)) = map (\<lambda>q. (wc_handle s q, wc_ident s q, q)) (remove1 p (w_mContainer s))"
    using win_removed_readers [OF inv p] d by (intro map_cong) auto
  ultimately show ?thesis
    by (simp add: wconn_entries_def win_removed_def filter_map o_def)
qed

lemma remove_absent_win:
  assumes "wconns_inv s" and "h \<notin> wc_handle s ` set (w_mContainer s)"
  shows "WinConnections_removeServerConnection h s = (Inr (), s)"
proof -
  have "find (\<lambda>p. wc_handle s p = h) (w_mContainer s) = None"
    using assms(2) by (auto simp: find_None_iff)
  then show ?thesis
    using wconns_invD(1) [OF assms(1)]
    by (simp add: WinConnections_removeServerConnection_def bindE_def act_simps win_find_if_run)
qed

lemma addServerConnection_win_run:
  assumes "wc_heap s p = Some c"
  shows "WinConnections_addServerConnection p i s =
    (Inr (), s\<lparr>w_mContainer := w_mContainer s @ [p], w_mMapping := (w_mMapping s)(i \<mapsto> p),
       wc_heap := (wc_heap s)(p \<mapsto> c\<lparr>wsc_mIdentifier := i\<rparr>)\<rparr>)"
  using assms
  by (simp add: WinConnections_addServerConnection_def WinServerConnection_setIdentifier_def
      seqE_def bindE_def act_simps)

lemma add_win:
  assumes inv: "wconns_inv s" and a: "wconn_addable (h, i, p) s"
  shows "\<exists>s'. WinConnections_addServerConnection p i s = (Inr (), s') \<and> wconns_inv s' \<and>
    wconn_entries s' = wconn_entries s @ [(h, i, p)] \<and> w_mMapping s' i = Some p \<and>
    w_mContainer s' = w_mContainer s @ [p]"
proof -
  have live: "wc_live s p" and new: "p \<notin> set (w_mContainer s)" and h: "wc_handle s p = h"
    and ov: "wc_overlap s p \<notin> wc_overlap s ` set (w_mContainer s)"
    and fresh: "h \<notin> wc_handle s ` set (w_mContainer s)"
    using a by (auto simp: wconn_addable_def)
  obtain c where c: "wc_heap s p = Some c" using live by (auto elim: wc_liveE)
  let ?t = "s\<lparr>w_mContainer := w_mContainer s @ [p], w_mMapping := (w_mMapping s)(i \<mapsto> p),
       wc_heap := (wc_heap s)(p \<mapsto> c\<lparr>wsc_mIdentifier := i\<rparr>)\<rparr>"
  have r: "wc_live ?t q = wc_live s q" "wc_handle ?t q = wc_handle s q" "wc_overlap ?t q = wc_overlap s q"
    "wc_ident ?t q = (if q = p then i else wc_ident s q)" for q
    using c by (auto simp: wc_live_def wc_handle_def wc_overlap_def wc_ident_def)
  have fn: "wc_overlap ?t = wc_overlap s" "wc_handle ?t = wc_handle s" using r by (simp_all add: fun_eq_iff)
  have "wconns_inv ?t"
    unfolding wconns_inv_def fn
  proof (intro conjI allI impI ballI)
    fix q j
    assume "w_mMapping ?t j = Some q"
    then show "q \<in> set (w_mContainer ?t)" "wc_ident ?t q = j"
      using wconns_invD(3) [OF inv] new by (auto simp: r split: if_splits)
  qed (use inv live new h ov fresh in \<open>auto simp: wconns_inv_def r inj_on_insert\<close>)
  moreover have "wconn_entries ?t = wconn_entries s @ [(h, i, p)]"
    using new h by (simp add: wconn_entries_def r cong: map_cong)
  ultimately show ?thesis using addServerConnection_win_run [OF c, of i] by auto
qed

section \<open>The container as a connection store\<close>

interpretation win_store: connection_store
  wconn_entries wconns_inv wconn_addable
  "\<lambda>e. WinConnections_addServerConnection (snd (snd e)) (fst (snd e))" "\<lambda>_ _. True"
  WinConnections_removeServerConnection WinConnections_getServerConnection
  WinConnections_getServerConnection_id "Inl (Runtime_error ''Failed to find client'')"
proof (unfold_locales, goal_cases)
  case (1 s)
  then show ?case by (simp add: wconns_inv_def wconn_entries_def o_def distinct_map)
next
  case (2 s e)
  then show ?case
    using add_win [of s "fst e" "fst (snd e)" "snd (snd e)"]
    by (auto simp: getServerConnection_id_win_eq)
next
  case (3 s e)
  then show ?case by (auto simp: wconn_addable_def wconn_entries_def)
next
  case (4 s h)
  show ?case
  proof (cases "h \<in> wc_handle s ` set (w_mContainer s)")
    case True
    then obtain p where p: "p \<in> set (w_mContainer s)" "h = wc_handle s p" by auto
    show ?thesis
      using removeServerConnection_win_run [OF 4(1) p(1)] win_removed_inv [OF 4(1) p(1)]
        win_removed_entries [OF 4(1) p(1)] p(2) by blast
  next
    case False
    then have "filter (\<lambda>e. fst e \<noteq> h) (wconn_entries s) = wconn_entries s"
      by (auto simp: wconn_entries_def intro!: filter_True)
    then show ?thesis using remove_absent_win [OF 4(1) False] 4(1) by simp
  qed
next
  case (5 s h)
  then show ?case by (rule getServerConnection_win_eq)
next
  case (6 s i p s')
  then have "s' = s" "w_mMapping s i = Some p"
    by (auto simp: getServerConnection_id_win_eq split: option.splits)
  then show ?case using wconns_invD(3) [OF 6(1)] by (force simp: wconn_entries_def)
qed

section \<open>The handle array\<close>

lemma getHandleArray_run:
  assumes "wconns_inv s"
  shows "WinConnections_getHandleArray h s =
    (Inr (h # map (wc_handle s) (rotate1 (w_mContainer s))),
     s\<lparr>w_mContainer := rotate1 (w_mContainer s)\<rparr>)"
proof (cases "w_mContainer s")
  case Nil
  then show ?thesis by (simp add: WinConnections_getHandleArray_def bindE_def act_simps)
next
  case (Cons p ps)
  let ?t = "s\<lparr>w_mContainer := ps @ [p]\<rparr>"
  have "win_events (ps @ [p]) ?t = (Inr (map (wc_handle ?t) (ps @ [p])), ?t)"
    using wconns_invD(1) [OF assms] Cons by (intro win_events_run) (auto simp: wc_readers_cong [of ?t s])
  then show ?thesis
    using Cons by (simp add: WinConnections_getHandleArray_def seqE_def bindE_def act_simps
        wc_readers_cong [of ?t s])
qed

lemma wconns_inv_rotate:
  assumes "wconns_inv s"
  shows "wconns_inv (s\<lparr>w_mContainer := rotate1 (w_mContainer s)\<rparr>)"
  using assms
  by (simp add: wconns_inv_def wc_readers_cong [of "s\<lparr>w_mContainer := rotate1 (w_mContainer s)\<rparr>" s])

text \<open>The arrays that successive calls give; the container is rotated by one each time.\<close>

primrec handle_arrays :: "nat \<Rightarrow> HANDLE \<Rightarrow> ('a wconns_io_scheme, HANDLE list list) act" where
  "handle_arrays 0 h = ret []"
| "handle_arrays (Suc n) h =
     bindE (WinConnections_getHandleArray h) (\<lambda>hs.
     bindE (handle_arrays n h) (\<lambda>hss. ret (hs # hss)))"

lemma handle_arrays_run:
  assumes "wconns_inv s"
  shows "handle_arrays n h s =
    (Inr (map (\<lambda>k. h # map (wc_handle s) (rotate (Suc k) (w_mContainer s))) [0..<n]),
     s\<lparr>w_mContainer := rotate n (w_mContainer s)\<rparr>)"
  using assms
proof (induction n arbitrary: s)
  case 0
  then show ?case by (simp add: act_simps)
next
  case (Suc n)
  let ?t = "s\<lparr>w_mContainer := rotate1 (w_mContainer s)\<rparr>"
  have "handle_arrays n h ?t =
      (Inr (map (\<lambda>k. h # map (wc_handle s) (rotate (Suc (Suc k)) (w_mContainer s))) [0..<n]),
       s\<lparr>w_mContainer := rotate (Suc n) (w_mContainer s)\<rparr>)"
    using Suc.IH [OF wconns_inv_rotate [OF Suc.prems]]
    by (simp add: wc_readers_cong [of ?t s] rotate1_rotate_swap)
  moreover have "[0..<Suc n] = 0 # map Suc [0..<n]" by (simp add: map_Suc_upt upt_conv_Cons del: upt_Suc)
  ultimately show ?case
    using getHandleArray_run [OF Suc.prems, of h]
    by (simp add: bindE_def act_simps o_def del: upt_Suc)
qed

text \<open>Two connections with the handles 101 and 102, for the witnesses.\<close>

definition win_conn :: "addr \<Rightarrow> SOCKET \<Rightarrow> bytes \<Rightarrow> win_connection" where
  "win_conn ov sck ident =
     \<lparr>wsc_mOverlap = ov, wsc_mSocket = sck, wsc_mBytes = 0, wsc_mBuffer = [], wsc_mDataLen = 1024,
      wsc_mServer = 1, wsc_mOperation = 0, wsc_mIdentifier = ident\<rparr>"

definition sample_wconns :: wconns_io where
  "sample_wconns =
     \<lparr>w_trace = [], ov_heap = [11 \<mapsto> \<lparr>hEvent = 101, ov_derived = 1\<rparr>, 12 \<mapsto> \<lparr>hEvent = 102, ov_derived = 2\<rparr>],
      ov_next = 13, wc_heap = [1 \<mapsto> win_conn 11 21 ''alice'', 2 \<mapsto> win_conn 12 22 ''bob''],
      wc_next = 3, w_mContainer = [1, 2], w_mMapping = [''alice'' \<mapsto> 1, ''bob'' \<mapsto> 2]\<rparr>"

lemma sample_wconns_inv: "wconns_inv sample_wconns"
  by (auto simp: wconns_inv_def sample_wconns_def win_conn_def wc_live_def wc_overlap_def
      wc_handle_def wc_ident_def null_def split: if_splits)

section \<open>Properties\<close>

text \<open>
  Removal by event handle does what it promises for every handle: it succeeds, the handle
  is no longer found, every other handle leads where it led before, and the invariant of the
  container is kept.
\<close>

theorem win_remove_connection:
  assumes "wconns_inv s"
  shows "\<exists>s'. WinConnections_removeServerConnection h s = (Inr (), s') \<and> wconns_inv s' \<and>
    fst (WinConnections_getServerConnection h s') = Inl (Runtime_error ''Failed to find client'') \<and>
    (\<forall>h'. h' \<noteq> h \<longrightarrow> fst (WinConnections_getServerConnection h' s') =
                      fst (WinConnections_getServerConnection h' s))"
  using win_store.lookup_removed [OF assms, of h] win_store.remove_ok [OF assms, of h] by auto

theorem win_remove_connection_witness:
  "\<exists>s'. WinConnections_removeServerConnection 101 sample_wconns = (Inr (), s') \<and> wconns_inv s'"
  using win_remove_connection [OF sample_wconns_inv, of 101] by blast

text \<open>
  C37 No connection starves: the array that is waited on has the server's event first and then
  the event of every connection, each once; it starts with another connection each time, and
  in as many successive calls as there are connections, every connection comes first exactly
  once, after which the container is in its old order.
\<close>

theorem win_handle_array_fair:
  assumes "wconns_inv s" and "n = length (w_mContainer s)"
  shows "\<exists>hss. handle_arrays n h s = (Inr hss, s) \<and>
    (\<forall>hs \<in> set hss. hd hs = h \<and> distinct (tl hs) \<and> set (tl hs) = wc_handle s ` set (w_mContainer s)) \<and>
    mset (map (\<lambda>hs. hs ! 1) hss) = mset (map (wc_handle s) (w_mContainer s))"
proof -
  let ?xs = "w_mContainer s"
  let ?f = "\<lambda>k. h # map (wc_handle s) (rotate (Suc k) ?xs)"
  have run: "handle_arrays n h s = (Inr (map ?f [0..<n]), s)"
    using handle_arrays_run [OF assms(1), of n h] assms(2) by (simp add: rotate_id)
  have "map (\<lambda>hs. hs ! 1) (map ?f [0..<n]) = map (wc_handle s) (rotate1 ?xs)"
  proof (rule nth_equalityI)
    fix k
    assume "k < length (map (\<lambda>hs. hs ! 1) (map ?f [0..<n]))"
    then have k: "k < length ?xs" using assms(2) by simp
    then have "0 < length ?xs" by linarith
    then have "rotate (Suc k) ?xs ! 0 = ?xs ! (Suc k mod length ?xs)"
      using nth_rotate [of 0 ?xs "Suc k"] by simp
    then have "map (wc_handle s) (rotate (Suc k) ?xs) ! 0 = wc_handle s (?xs ! (Suc k mod length ?xs))"
      using \<open>0 < length ?xs\<close> by (simp del: rotate_Suc)
    then show "map (\<lambda>hs. hs ! 1) (map ?f [0..<n]) ! k = map (wc_handle s) (rotate1 ?xs) ! k"
      using k assms(2) by (simp add: nth_rotate1 del: rotate_Suc)
  qed (use assms(2) in simp)
  then have "mset (map (\<lambda>hs. hs ! 1) (map ?f [0..<n])) = mset (map (wc_handle s) ?xs)"
    by (cases ?xs) auto
  moreover have "hd (?f k) = h \<and> distinct (tl (?f k)) \<and> set (tl (?f k)) = wc_handle s ` set ?xs" for k
    using assms(1) by (simp add: wconns_inv_def distinct_map)
  ultimately show ?thesis
    using run by (intro exI [of _ "map ?f [0..<n]"]) (simp del: mset_map map_map rotate_Suc)
qed

theorem win_handle_array_fair_witness:
  "\<exists>hss. handle_arrays 2 7 sample_wconns = (Inr hss, sample_wconns) \<and>
    mset (map (\<lambda>hs. hs ! 1) hss) = {#101, 102#}"
  using win_handle_array_fair [OF sample_wconns_inv, of 2 7]
  by (auto simp: sample_wconns_def win_conn_def wc_handle_def wc_overlap_def)

end
