(* ===== verification/Windows_Server.thy ===== *)
theory Windows_Server
  imports Windows_Connections
begin

text \<open>
  \<open>windows/Server\<close>: the server on overlapped I/O, with its completion routines. The routine
  \<open>ConnectionInformationReceivedFromClient\<close>, which the source passes to \<open>WSARecv\<close> for a
  new connection, is defined nowhere in the repository; it is the parameter \<open>R\<close> of the
  definitions that can run it.

  \<open>waitForEvents\<close> is run over a schedule. Its outer loop takes one list of waits for every
  turn, and the inner loop of \<open>performWaitForEvents\<close> takes one element of that list for
  every call of \<open>WSAWaitForMultipleEvents\<close>: the calls that other threads complete while the
  server is blocked there. A schedule that ends leaves the server waiting.
\<close>

section \<open>State\<close>

text \<open>
  \<open>ws_this\<close> is the address of the object, which its connections and its overlapped
  structure point to; \<open>ws_targets\<close> is the queue in \<open>mOverlapData\<close>.
\<close>

record win_server = wconns_io +
  ws_this :: addr
  ws_mOverlap :: addr
  ws_mServerSocket :: "WinSocket option"
  ws_mIncomingSocket :: "WinSocket option"
  ws_targets :: "bytes list"
  ws_mCallback :: bool
  ws_mHasBeenShutdown :: bool
  ws_mWaitingForEvents :: bool

text \<open>The socket behind a pointer that may be null.\<close>

definition ws_socket ::
    "('a win_server_scheme \<Rightarrow> WinSocket option) \<Rightarrow> ('a win_server_scheme, WinSocket) act" where
  "ws_socket f =
     bindE (gets f) (\<lambda>sck.
       case sck of
         None \<Rightarrow> throw (Undefined_behaviour ''null socket'')
       | Some sck \<Rightarrow> ret sck)"

text \<open>\<open>getOverlap()->hEvent\<close> of the server.\<close>

definition ws_hEvent :: "('a win_server_scheme, HANDLE) act" where
  "ws_hEvent = bindE (gets ws_mOverlap) (\<lambda>p. bindE (ov_deref p) (\<lambda>ov. ret (hEvent ov)))"

definition WinServer_getCallback :: "('a win_server_scheme, bool) act" where
  "WinServer_getCallback = gets ws_mCallback"

definition WinServer_isShutdown :: "('a win_server_scheme, bool) act" where
  "WinServer_isShutdown = gets ws_mHasBeenShutdown"

definition WinServer_isWaitingForEvents :: "('a win_server_scheme, bool) act" where
  "WinServer_isWaitingForEvents = gets ws_mWaitingForEvents"

definition win_store_bytes :: "bytes \<Rightarrow> win_connection \<Rightarrow> win_connection" where
  "win_store_bytes d c = c\<lparr>wsc_mBuffer := d @ drop (length d) (wsc_mBuffer c)\<rparr>"

section \<open>Construction\<close>

definition WinServer_fields :: "bool \<Rightarrow> 'a win_server_scheme \<Rightarrow> 'a win_server_scheme" where
  "WinServer_fields cb s =
     s\<lparr>ws_mOverlap := null, w_mContainer := [], w_mMapping := Map.empty, ws_mServerSocket := None,
       ws_mIncomingSocket := None, ws_targets := [], ws_mCallback := cb,
       ws_mHasBeenShutdown := False, ws_mWaitingForEvents := False\<rparr>"

text \<open>\<open>result->ai_addr\<close>, for the first element of the list.\<close>

definition result_address :: "addr list \<Rightarrow> ('s, addr) act" where
  "result_address results =
     (case results of [] \<Rightarrow> throw (Undefined_behaviour ''null address list'') | a # _ \<Rightarrow> ret a)"

definition WinServer_createServerSocket :: "winsock \<Rightarrow> 32 word \<Rightarrow> ('a win_server_scheme, unit) act" where
  "WinServer_createServerSocket K port =
     bindE (win_getaddrinfo K ''127.0.0.1'' (show_nat (unat port))) (\<lambda>(r, results).
     if r \<noteq> 0
     then seqE freeaddrinfo (seqE WSACleanup (throw (Runtime_error (''getaddrinfo Error '' @ show_int r))))
     else
       bindE (WinSocket_new K) (\<lambda>sck.
       seqE (modify (\<lambda>s. s\<lparr>ws_mServerSocket := Some sck\<rparr>))
      (bindE (result_address results) (\<lambda>address.
       bindE (win_bind K (WinSocket_getSocket sck) address) (\<lambda>r.
       if r = SOCKET_ERROR
       then
         bindE (WSAGetLastError K) (\<lambda>e.
         seqE freeaddrinfo (throw (Runtime_error (''bind Error '' @ show_int e))))
       else
         seqE freeaddrinfo
        (bindE (win_listen K (WinSocket_getSocket sck) 5) (\<lambda>r.
         if r = SOCKET_ERROR
         then
           bindE (WSAGetLastError K) (\<lambda>e.
           seqE (WinSocket_closeSocket sck)
          (seqE WSACleanup (throw (Runtime_error (''listen Error '' @ show_int e)))))
         else skip)))))))"

definition WinServer_prepareForServerConnection :: "winsock \<Rightarrow> ('a win_server_scheme, unit) act" where
  "WinServer_prepareForServerConnection K =
     bindE (WinSocket_new K) (\<lambda>incoming.
     seqE (modify (\<lambda>s. s\<lparr>ws_mIncomingSocket := Some incoming\<rparr>))
    (bindE (ws_socket ws_mServerSocket) (\<lambda>listener.
     bindE (WSAIoctl K (WinSocket_getSocket listener)) (\<lambda>r.
     if r = SOCKET_ERROR then throw (Runtime_error ''Failed to obtain AcceptEx() pointer'')
     else
       bindE (gets ws_mOverlap) (\<lambda>ov.
       bindE (AcceptEx K (WinSocket_getSocket listener) (WinSocket_getSocket incoming) ov) (\<lambda>ok.
       if ok then skip
       else
         bindE (WSAGetLastError K) (\<lambda>e.
         if e \<noteq> WSA_IO_PENDING then throw (Runtime_error ''AcceptEx Error()'') else skip)))))))"

text \<open>
  A constructor that throws has its members and its base destroyed: \<open>mConnections\<close>, then the
  overlap.
\<close>

definition WinServer_ctor :: "winsock \<Rightarrow> bool \<Rightarrow> 32 word \<Rightarrow> ('a win_server_scheme, unit) act" where
  "WinServer_ctor K cb port =
     seqE (modify (WinServer_fields cb))
       (cleanupE
         (bindE (WSAStartup K) (\<lambda>r.
          if r \<noteq> 0 then throw (Runtime_error (''WSAStartup Error '' @ show_int r))
          else
            bindE (gets ws_this) (\<lambda>this.
            bindE (Overlap_createOverlap K this) (\<lambda>ov.
            seqE (modify (\<lambda>s. s\<lparr>ws_mOverlap := ov\<rparr>))
           (seqE (WinServer_createServerSocket K port)
              (WinServer_prepareForServerConnection K))))))
         (seqE WinConnections_destructor (bindE (gets ws_mOverlap) Overlap_destructor)))"

section \<open>Shutdown and destruction\<close>

definition WinServer_disconnect :: "addr \<Rightarrow> ('a win_server_scheme, unit) act" where
  "WinServer_disconnect connection =
     bindE (WinServerConnection_getSocket connection) (\<lambda>sckt.
     seqE (WSARecvDisconnect sckt)
    (seqE (WSASendDisconnect sckt)
       (bindE (wc_hEvent connection) WinConnections_removeServerConnection)))"

definition WinServer_shutdown :: "('a win_server_scheme, unit) act" where
  "WinServer_shutdown =
     seqE (modify (\<lambda>s. s\<lparr>ws_mHasBeenShutdown := True\<rparr>))
    (bindE WinConnections_getConnections (\<lambda>connectionPtrs.
     seqE (for_each WinServer_disconnect connectionPtrs)
       (bindE ws_hEvent WSASetEvent)))"

definition WinServer_close_socket ::
    "('a win_server_scheme \<Rightarrow> WinSocket option) \<Rightarrow> ('a win_server_scheme, unit) act" where
  "WinServer_close_socket f =
     bindE (ws_socket f) (\<lambda>sck.
     seqE (WSARecvDisconnect (WinSocket_getSocket sck))
    (seqE (WSASendDisconnect (WinSocket_getSocket sck))
       (WinSocket_closeSocket sck)))"

definition WinServer_destructor :: "('a win_server_scheme, unit) act" where
  "WinServer_destructor =
     seqE WinServer_shutdown
    (seqE (WinServer_close_socket ws_mServerSocket)
    (seqE (modify (\<lambda>s. s\<lparr>ws_mServerSocket := None\<rparr>))
    (seqE (WinServer_close_socket ws_mIncomingSocket)
    (seqE (modify (\<lambda>s. s\<lparr>ws_mIncomingSocket := None\<rparr>))
    (seqE WinConnections_destructor
       (bindE (gets ws_mOverlap) Overlap_destructor))))))"

definition WinServer_addConnection :: "addr \<Rightarrow> bytes \<Rightarrow> ('a win_server_scheme, unit) act" where
  "WinServer_addConnection client ident = WinConnections_addServerConnection client ident"

section \<open>Sending\<close>

text \<open>What follows a \<open>WSASend\<close> that failed for good.\<close>

definition WinServer_send_failed :: "winsock \<Rightarrow> addr \<Rightarrow> bool \<Rightarrow> ('a win_server_scheme, unit) act" where
  "WinServer_send_failed K connection reportToCallback =
     bindE (WinServerConnection_getSocket connection) (\<lambda>sckt.
     bindE (WSAGetLastError K) (\<lambda>e.
     whenE reportToCallback
       (bindE WinServer_getCallback (\<lambda>cb.
        seqE (whenE cb
                (bindE (WinServerConnection_getIdentifier connection) (\<lambda>ident.
                 call_win_callback cb
                   (WCb_sendFailed ident
                     (''error sending data to socket '' @ show_nat (unat sckt) @ '' - '' @ show_int e)))))
          (bindE (WinServerConnection_getIdentifier connection)
             WinConnections_removeServerConnection_id)))))"

definition WinServer_send_connection ::
    "winsock \<Rightarrow> bytes \<Rightarrow> addr \<Rightarrow> bool \<Rightarrow> ('a win_server_scheme, unit) act" where
  "WinServer_send_connection K data connection reportToCallback =
     bindE (WinServerConnection_getIdentifier connection) (\<lambda>ident.
     seqE (modify (\<lambda>s. s\<lparr>ws_targets := ws_targets s @ [ident]\<rparr>))
    (bindE (WinServerConnection_getSocket connection) (\<lambda>sckt.
     bindE (wc_getOverlap connection) (\<lambda>ov.
     bindE (WSASend K sckt data ov DataSentToClient) (\<lambda>r.
     if r = SOCKET_ERROR
     then
       bindE (WSAGetLastError K) (\<lambda>e.
       whenE (e \<noteq> WSA_IO_PENDING) (WinServer_send_failed K connection reportToCallback))
     else
       whenE reportToCallback
         (bindE WinServer_getCallback (\<lambda>cb.
          whenE cb
            (bindE (WinServerConnection_getIdentifier connection) (\<lambda>ident.
             call_win_callback cb (WCb_sendComplete ident (of_nat (length data))))))))))))"

definition WinServer_send :: "winsock \<Rightarrow> bytes \<Rightarrow> bytes \<Rightarrow> ('a win_server_scheme, unit) act" where
  "WinServer_send K data ident =
     bindE (WinConnections_getServerConnection_id ident) (\<lambda>connection.
     seqE (WinServer_send_connection K data connection True)
       (modify (\<lambda>s. s\<lparr>ws_targets := ws_targets s @ [ident]\<rparr>)))"

definition WinServer_broadcast :: "winsock \<Rightarrow> bytes \<Rightarrow> ('a win_server_scheme, unit) act" where
  "WinServer_broadcast K data =
     bindE WinConnections_getConnections (\<lambda>connectionPtrs.
     for_each (\<lambda>connection. WinServer_send_connection K data connection True) connectionPtrs)"

section \<open>Receiving and the completion routines\<close>

definition WinServer_queueReceiveFromConnection :: "winsock \<Rightarrow> addr \<Rightarrow> ('a win_server_scheme, unit) act" where
  "WinServer_queueReceiveFromConnection K connection =
     bindE (wc_hEvent connection) (\<lambda>h.
     seqE (WSAResetEvent h)
    (bindE (WinServerConnection_getSocket connection) (\<lambda>sckt.
     bindE (WinServerConnection_getDataBuffer connection) (\<lambda>len.
     bindE (wc_getOverlap connection) (\<lambda>ov.
     bindE (WSARecv K sckt len ov No_routine) (\<lambda>(r, n, d).
     if r = SOCKET_ERROR
     then
       bindE (WSAGetLastError K) (\<lambda>e.
       if e \<noteq> WSA_IO_PENDING then throw_last_error K ''Error prepping client socket for receive''
       else skip)
     else wc_update connection (win_store_bytes d)))))))"

text \<open>
  \<open>getServer()\<close> of a connection is the server whose state this is; the routines read the
  pointer through the connection.
\<close>

definition WinServer_ClientDataReady :: "winsock \<Rightarrow> addr \<Rightarrow> ('a win_server_scheme, unit) act" where
  "WinServer_ClientDataReady K lpOverlapped =
     bindE (ov_deref lpOverlapped) (\<lambda>ov.
     bindE (WinServerConnection_getServer (ov_derived ov)) (\<lambda>_.
     seqE (WinServer_queueReceiveFromConnection K (ov_derived ov))
       (bindE WinServer_getCallback (\<lambda>cb.
        whenE cb
          (bindE (WinServerConnection_getBuffer (ov_derived ov)) (\<lambda>buffer.
           bindE (WinServerConnection_getBytes (ov_derived ov)) (\<lambda>n.
           call_win_callback cb (WCb_receiveComplete_unnamed (take (unat n) buffer)))))))))"

definition WinServer_DataSentToClient :: "addr \<Rightarrow> DWORD \<Rightarrow> ('a win_server_scheme, unit) act" where
  "WinServer_DataSentToClient lpOverlapped cbTransferred =
     bindE (ov_deref lpOverlapped) (\<lambda>ov.
     bindE (WinServerConnection_getServer (ov_derived ov)) (\<lambda>_.
     bindE WinServer_isShutdown (\<lambda>down.
     if down then skip
     else
       bindE (gets ws_mOverlap) (\<lambda>p.
       bindE (ov_deref p) (\<lambda>_.
       bindE (gets ws_targets) (\<lambda>targets.
       case targets of
         [] \<Rightarrow> throw (Undefined_behaviour ''front of an empty queue'')
       | target # rest \<Rightarrow>
           seqE (modify (\<lambda>s. s\<lparr>ws_targets := rest\<rparr>))
          (bindE WinServer_getCallback (\<lambda>cb.
           seqE (WSAResetEvent (hEvent ov))
             (whenE cb (call_win_callback cb (WCb_sendComplete target cbTransferred)))))))))))"

text \<open>
  A completion routine that runs. Before the routine of a receive runs, the data is in the
  buffer of the connection.
\<close>

definition WinServer_completion ::
    "(addr \<Rightarrow> DWORD \<Rightarrow> DWORD \<Rightarrow> ('a win_server_scheme, unit) act) \<Rightarrow> completion \<Rightarrow>
       ('a win_server_scheme, unit) act" where
  "WinServer_completion R finished =
     (case finished of
        Completion routine dwError cbTransferred lpOverlapped d \<Rightarrow>
          (case routine of
             No_routine \<Rightarrow> skip
           | DataSentToClient \<Rightarrow> WinServer_DataSentToClient lpOverlapped cbTransferred
           | ConnectionInformationReceivedFromClient \<Rightarrow>
               bindE (ov_deref lpOverlapped) (\<lambda>ov.
               seqE (wc_update (ov_derived ov) (win_store_bytes d))
                 (R lpOverlapped dwError cbTransferred))))"

section \<open>Waiting\<close>

text \<open>The calls of other threads; a runtime error goes to the thread that called.\<close>

datatype win_server_call = WSend bytes bytes | WBroadcast bytes | WShutdown

fun WinServer_api :: "winsock \<Rightarrow> win_server_call \<Rightarrow> ('a win_server_scheme, unit) act" where
  "WinServer_api K (WSend data ident) = WinServer_send K data ident"
| "WinServer_api K (WBroadcast data) = WinServer_broadcast K data"
| "WinServer_api K WShutdown = WinServer_shutdown"

definition WinServer_other_threads ::
    "winsock \<Rightarrow> win_server_call list \<Rightarrow> ('a win_server_scheme, unit) act" where
  "WinServer_other_threads K calls = for_each (\<lambda>c. tryE (WinServer_api K c) (\<lambda>_. skip)) calls"

text \<open>
  The loop of \<open>performWaitForEvents\<close>, from the test on; the result is the handles and the
  last result of the wait, or \<open>None\<close> when the server is still waiting.
\<close>

primrec WinServer_wait_loop ::
    "winsock \<Rightarrow> (addr \<Rightarrow> DWORD \<Rightarrow> DWORD \<Rightarrow> ('a win_server_scheme, unit) act) \<Rightarrow>
     win_server_call list list \<Rightarrow> HANDLE list \<Rightarrow> DWORD \<Rightarrow>
     ('a win_server_scheme, (HANDLE list \<times> DWORD) option) act" where
  "WinServer_wait_loop K R [] handles wait_rc =
     bindE (gets ws_mHasBeenShutdown) (\<lambda>down.
     ret (if wait_rc = WSA_WAIT_IO_COMPLETION \<and> \<not> down then None else Some (handles, wait_rc)))"
| "WinServer_wait_loop K R (calls # waits) handles wait_rc =
     bindE (gets ws_mHasBeenShutdown) (\<lambda>down.
     if wait_rc = WSA_WAIT_IO_COMPLETION \<and> \<not> down
     then
       bindE ws_hEvent (\<lambda>h.
       bindE (WinConnections_getHandleArray h) (\<lambda>handles.
       seqE (WinServer_other_threads K calls)
      (bindE (WSAWaitForMultipleEvents K handles) (\<lambda>(wait_rc, completions).
       seqE (for_each (WinServer_completion R) completions)
         (if wait_rc = WSA_WAIT_FAILED then throw_last_error K ''WSAWaitForMultipleEvents Error ''
          else WinServer_wait_loop K R waits handles wait_rc)))))
     else ret (Some (handles, wait_rc)))"

definition handle_at :: "HANDLE list \<Rightarrow> nat \<Rightarrow> ('s, HANDLE) act" where
  "handle_at handles i =
     (if i < length handles then ret (handles ! i)
      else throw (Undefined_behaviour ''handle index out of range''))"

definition WinServer_performWaitForEvents ::
    "winsock \<Rightarrow> (addr \<Rightarrow> DWORD \<Rightarrow> DWORD \<Rightarrow> ('a win_server_scheme, unit) act) \<Rightarrow>
     win_server_call list list \<Rightarrow> ('a win_server_scheme, HANDLE option) act" where
  "WinServer_performWaitForEvents K R waits =
     bindE (WinServer_wait_loop K R waits [] WSA_WAIT_IO_COMPLETION) (\<lambda>r.
       case r of
         None \<Rightarrow> ret None
       | Some (handles, wait_rc) \<Rightarrow>
           bindE (gets ws_mHasBeenShutdown) (\<lambda>down.
           bindE (handle_at handles (if down then 0 else unat (wait_rc - WSA_WAIT_EVENT_0))) (\<lambda>h.
           ret (Some h))))"

section \<open>Serving an event\<close>

definition WinServer_addNewConnection :: "winsock \<Rightarrow> ('a win_server_scheme, unit) act" where
  "WinServer_addNewConnection K =
     bindE (ws_socket ws_mIncomingSocket) (\<lambda>incoming.
     bindE (win_setsockopt K (WinSocket_getSocket incoming) SO_UPDATE_ACCEPT_CONTEXT 1) (\<lambda>_.
     bindE (gets ws_this) (\<lambda>this.
     bindE (new_WinServerConnection K incoming this) (\<lambda>connection.
     seqE (modify (\<lambda>s. s\<lparr>ws_mIncomingSocket := None\<rparr>))
    (bindE (WinServerConnection_getSocket connection) (\<lambda>sckt.
     bindE (WinServerConnection_getDataBuffer connection) (\<lambda>len.
     bindE (wc_getOverlap connection) (\<lambda>ov.
     bindE (WSARecv K sckt len ov ConnectionInformationReceivedFromClient) (\<lambda>(r, n, d).
     seqE (if r = SOCKET_ERROR
           then
             bindE (WSAGetLastError K) (\<lambda>e.
             if e \<noteq> WSA_IO_PENDING then throw_last_error K ''Error prepping client socket for receive ''
             else skip)
           else wc_update connection (win_store_bytes d))
       (WinServer_prepareForServerConnection K))))))))))"

text \<open>A result was fetched for the event of a connection: \<open>nbBytes\<close> bytes, in the buffer.\<close>

definition WinServer_received ::
    "winsock \<Rightarrow> HANDLE \<Rightarrow> addr \<Rightarrow> DWORD \<Rightarrow> ('a win_server_scheme, unit) act" where
  "WinServer_received K handleId connection nbBytes =
     bindE WinServer_getCallback (\<lambda>cb.
     seqE (whenE cb
             (bindE (WinServerConnection_getIdentifier connection) (\<lambda>ident.
              if nbBytes = 0
              then seqE (call_win_callback cb (WCb_disconnected ident))
                     (WinConnections_removeServerConnection handleId)
              else
                bindE (WinServerConnection_getBuffer connection) (\<lambda>buffer.
                call_win_callback cb (WCb_receiveComplete ident (take (unat nbBytes) buffer))))))
    (bindE (gets ws_mHasBeenShutdown) (\<lambda>down.
     whenE (\<not> down \<and> nbBytes \<noteq> 0) (WinServer_queueReceiveFromConnection K connection))))"

definition WinServer_handleConnectionEvent :: "winsock \<Rightarrow> HANDLE \<Rightarrow> ('a win_server_scheme, unit) act" where
  "WinServer_handleConnectionEvent K handleId =
     bindE (WinConnections_getServerConnection handleId) (\<lambda>connection.
     if connection = null then skip
     else
       bindE (WinServerConnection_getSocket connection) (\<lambda>sckt.
       bindE (wc_getOverlap connection) (\<lambda>ov.
       bindE (WSAGetOverlappedResult K sckt ov True) (\<lambda>(ok, nbBytes, d).
       whenE ok
         (seqE (wc_update connection (win_store_bytes d))
            (WinServer_received K handleId connection nbBytes))))))"

definition WinServer_serve :: "winsock \<Rightarrow> HANDLE \<Rightarrow> ('a win_server_scheme, unit) act" where
  "WinServer_serve K handleId =
     seqE (WSAResetEvent handleId)
    (bindE ws_hEvent (\<lambda>h.
     if h = handleId then WinServer_addNewConnection K
     else WinServer_handleConnectionEvent K handleId))"

text \<open>The loop of \<open>waitForEvents\<close>; the result says whether it has returned.\<close>

primrec WinServer_loop ::
    "winsock \<Rightarrow> (addr \<Rightarrow> DWORD \<Rightarrow> DWORD \<Rightarrow> ('a win_server_scheme, unit) act) \<Rightarrow>
     win_server_call list list list \<Rightarrow> ('a win_server_scheme, bool) act" where
  "WinServer_loop K R [] =
     bindE (gets ws_mHasBeenShutdown) (\<lambda>down.
     if down then seqE (modify (\<lambda>s. s\<lparr>ws_mWaitingForEvents := False\<rparr>)) (ret True)
     else ret False)"
| "WinServer_loop K R (waits # turns) =
     bindE (gets ws_mHasBeenShutdown) (\<lambda>down.
     if down then seqE (modify (\<lambda>s. s\<lparr>ws_mWaitingForEvents := False\<rparr>)) (ret True)
     else
       seqE (modify (\<lambda>s. s\<lparr>ws_mWaitingForEvents := True\<rparr>))
      (bindE (WinServer_performWaitForEvents K R waits) (\<lambda>event.
       case event of
         None \<Rightarrow> ret False
       | Some handleId \<Rightarrow>
           bindE (gets ws_mHasBeenShutdown) (\<lambda>down.
           seqE (whenE (\<not> down) (WinServer_serve K handleId))
             (WinServer_loop K R turns)))))"

definition WinServer_waitForEvents ::
    "winsock \<Rightarrow> (addr \<Rightarrow> DWORD \<Rightarrow> DWORD \<Rightarrow> ('a win_server_scheme, unit) act) \<Rightarrow>
     win_server_call list list list \<Rightarrow> ('a win_server_scheme, bool) act" where
  "WinServer_waitForEvents K R schedule = WinServer_loop K R schedule"

end
