(* ===== verification/Windows_Server_Loop.thy ===== *)
theory Windows_Server_Loop
  imports Windows_Server
begin

text \<open>
  The invariant of the Winsock server: that every operation keeps it, the loop of
  \<open>waitForEvents\<close> included, and how disconnecting and shutting down run under it.
\<close>

section \<open>The invariant\<close>

text \<open>
  Every connection on the heap, in the container or not yet, has a live overlapped structure
  of its own that leads back to it; event handles are not shared, and exist; the server's
  own structure is live; the container and the map lead to live connections.
\<close>

definition win_heaps_ok :: "'a win_server_scheme \<Rightarrow> bool" where
  "win_heaps_ok s \<longleftrightarrow>
     (\<forall>p c. wc_heap s p = Some c \<longrightarrow>
        p \<noteq> null \<and> p < wc_next s \<and> wsc_mOverlap c \<noteq> ws_mOverlap s \<and>
        (\<exists>ov. ov_heap s (wsc_mOverlap c) = Some ov \<and> ov_derived ov = p)) \<and>
     (\<forall>q ov. ov_heap s q = Some ov \<longrightarrow>
        q \<noteq> null \<and> q < ov_next s \<and> hEvent ov \<in> open_events (w_trace s)) \<and>
     (\<forall>q q' ov ov'. ov_heap s q = Some ov \<longrightarrow> ov_heap s q' = Some ov' \<longrightarrow>
        hEvent ov = hEvent ov' \<longrightarrow> q = q') \<and>
     wc_next s \<noteq> null \<and> ov_next s \<noteq> null"

definition win_inv :: "'a win_server_scheme \<Rightarrow> bool" where
  "win_inv s \<longleftrightarrow>
     win_heaps_ok s \<and> ov_heap s (ws_mOverlap s) \<noteq> None \<and>
     distinct (w_mContainer s) \<and> (\<forall>p \<in> set (w_mContainer s). wc_heap s p \<noteq> None) \<and>
     (\<forall>i p. w_mMapping s i = Some p \<longrightarrow> p \<in> set (w_mContainer s) \<and> wc_ident s p = i)"

lemma win_heaps_okD:
  assumes "win_heaps_ok s"
  shows "wc_heap s p = Some c \<Longrightarrow> p \<noteq> null" "wc_heap s p = Some c \<Longrightarrow> p < wc_next s"
    "wc_heap s p = Some c \<Longrightarrow> wsc_mOverlap c \<noteq> ws_mOverlap s"
    "wc_heap s p = Some c \<Longrightarrow> \<exists>ov. ov_heap s (wsc_mOverlap c) = Some ov \<and> ov_derived ov = p"
    "ov_heap s q = Some ov \<Longrightarrow> q \<noteq> null" "ov_heap s q = Some ov \<Longrightarrow> q < ov_next s"
    "ov_heap s q = Some ov \<Longrightarrow> hEvent ov \<in> open_events (w_trace s)"
    "ov_heap s q = Some ov \<Longrightarrow> ov_heap s q' = Some ov' \<Longrightarrow> hEvent ov = hEvent ov' \<Longrightarrow> q = q'"
    "wc_next s \<noteq> null" "ov_next s \<noteq> null"
  using assms unfolding win_heaps_ok_def by blast+

lemma win_heaps_live:
  assumes "win_heaps_ok s" and "wc_heap s p \<noteq> None"
  shows "wc_live s p"
proof -
  obtain c where c: "wc_heap s p = Some c" using assms(2) by auto
  obtain ov where "ov_heap s (wsc_mOverlap c) = Some ov"
    using win_heaps_okD(4) [OF assms(1) c] by blast
  then show ?thesis
    using c win_heaps_okD(1,5) [OF assms(1)] by (auto simp: wc_live_def)
qed

lemma win_heaps_distinct:
  assumes "win_heaps_ok s" and "wc_heap s p \<noteq> None" and "wc_heap s q \<noteq> None"
  shows "wc_overlap s p = wc_overlap s q \<longleftrightarrow> p = q" "wc_handle s p = wc_handle s q \<longleftrightarrow> p = q"
proof -
  obtain c c' where c: "wc_heap s p = Some c" "wc_heap s q = Some c'" using assms(2,3) by auto
  obtain ov ov' where ov: "ov_heap s (wsc_mOverlap c) = Some ov" "ov_derived ov = p"
    "ov_heap s (wsc_mOverlap c') = Some ov'" "ov_derived ov' = q"
    using win_heaps_okD(4) [OF assms(1)] c by blast
  have o: "wc_overlap s p = wsc_mOverlap c" "wc_overlap s q = wsc_mOverlap c'"
    "wc_handle s p = hEvent ov" "wc_handle s q = hEvent ov'"
    using c ov by (simp_all add: wc_overlap_def wc_handle_def)
  show eq: "wc_overlap s p = wc_overlap s q \<longleftrightarrow> p = q" using ov o c by auto
  show "wc_handle s p = wc_handle s q \<longleftrightarrow> p = q"
    using win_heaps_okD(8) [OF assms(1) ov(1,3)] eq o by auto
qed

lemma win_inv_conns: "win_inv s \<Longrightarrow> wconns_inv s"
  by (auto simp: win_inv_def wconns_inv_def win_heaps_live win_heaps_distinct intro!: inj_onI)

lemma win_invD:
  assumes "win_inv s"
  shows "win_heaps_ok s" "ov_heap s (ws_mOverlap s) \<noteq> None"
    "p \<in> set (w_mContainer s) \<Longrightarrow> wc_heap s p \<noteq> None" "distinct (w_mContainer s)"
    "w_mMapping s i = Some p \<Longrightarrow> p \<in> set (w_mContainer s) \<and> wc_ident s p = i"
  using assms unfolding win_inv_def by blast+

lemma win_inv_cong:
  assumes "win_inv s" and "wc_heap t = wc_heap s" and "ov_heap t = ov_heap s"
    and "wc_next t = wc_next s" and "ov_next t = ov_next s" and "ws_mOverlap t = ws_mOverlap s"
    and "w_mMapping t = w_mMapping s" and "distinct (w_mContainer t)"
    and "set (w_mContainer t) = set (w_mContainer s)"
    and "open_events (w_trace s) \<subseteq> open_events (w_trace t)"
  shows "win_inv t"
proof -
  have "win_heaps_ok t"
    using win_invD(1) [OF assms(1)] assms(2-6,10) unfolding win_heaps_ok_def by auto
  then show ?thesis
    using assms unfolding win_inv_def by (simp add: wc_readers_cong [OF assms(2,3)])
qed

text \<open>The common case: the heaps and the container are as they were.\<close>

lemma win_inv_same:
  assumes "win_inv s"
    and "wc_heap t = wc_heap s \<and> ov_heap t = ov_heap s \<and> wc_next t = wc_next s \<and>
      ov_next t = ov_next s \<and> ws_mOverlap t = ws_mOverlap s \<and> w_mMapping t = w_mMapping s \<and>
      w_mContainer t = w_mContainer s"
    and "open_events (w_trace s) \<subseteq> open_events (w_trace t)"
  shows "win_inv t"
  by (rule win_inv_cong [OF assms(1)]) (use assms win_invD(4) [OF assms(1)] in simp_all)

text \<open>Storing received data in the buffer of a connection.\<close>

lemma win_inv_store:
  assumes inv: "win_inv s" and c: "wc_heap s p = Some c"
  shows "win_inv (s\<lparr>wc_heap := (wc_heap s)(p \<mapsto> win_store_bytes d c)\<rparr>)"
proof -
  let ?t = "s\<lparr>wc_heap := (wc_heap s)(p \<mapsto> win_store_bytes d c)\<rparr>"
  have k: "wsc_mOverlap (win_store_bytes d c) = wsc_mOverlap c"
    "wsc_mIdentifier (win_store_bytes d c) = wsc_mIdentifier c"
    by (simp_all add: win_store_bytes_def)
  have ok: "win_heaps_ok s" using win_invD(1) [OF inv] .
  have "win_heaps_ok ?t"
    unfolding win_heaps_ok_def
  proof (intro conjI allI impI)
    fix q c'
    assume "wc_heap ?t q = Some c'"
    then obtain c0 where "wc_heap s q = Some c0" "wsc_mOverlap c' = wsc_mOverlap c0"
      using c k by (auto split: if_splits)
    then show "q \<noteq> null" "q < wc_next ?t" "wsc_mOverlap c' \<noteq> ws_mOverlap ?t"
      "\<exists>ov. ov_heap ?t (wsc_mOverlap c') = Some ov \<and> ov_derived ov = q"
      using win_heaps_okD(1-4) [OF ok] by auto
  qed (use win_heaps_okD(5-10) [OF ok] in auto)
  moreover have "wc_ident ?t q = wc_ident s q" for q
    using c k by (auto simp: wc_ident_def)
  ultimately show ?thesis
    using inv by (simp add: win_inv_def)
qed

lemma win_removed_keeps:
  assumes inv: "win_inv s" and p: "p \<in> set (w_mContainer s)"
  shows "win_inv (win_removed p s)"
proof -
  let ?t = "win_removed p s"
  have ok: "win_heaps_ok s" using win_invD(1) [OF inv] .
  have live: "wc_live s p" using win_heaps_live [OF ok win_invD(3) [OF inv p]] .
  obtain c ov where c: "wc_heap s p = Some c" "ov_heap s (wsc_mOverlap c) = Some ov"
    "wc_overlap s p = wsc_mOverlap c" "wc_handle s p = hEvent ov"
    using live by (auto elim: wc_liveE)
  have heaps: "wc_heap ?t = (wc_heap s)(p := None)" "ov_heap ?t = (ov_heap s)(wsc_mOverlap c := None)"
    "wc_next ?t = wc_next s" "ov_next ?t = ov_next s" "ws_mOverlap ?t = ws_mOverlap s"
    "open_events (w_trace ?t) = open_events (w_trace s) - {hEvent ov}"
    by (simp_all add: win_removed_def c open_events_append)
  have ne: "wsc_mOverlap c' \<noteq> wsc_mOverlap c" if "wc_heap s q = Some c'" "q \<noteq> p" for q c'
    using win_heaps_distinct(1) [OF ok, of q p] that c by (simp add: wc_overlap_def)
  have "win_heaps_ok ?t"
    unfolding win_heaps_ok_def heaps
  proof (intro conjI allI impI)
    fix q c'
    assume "((wc_heap s)(p := None)) q = Some c'"
    then have q: "wc_heap s q = Some c'" "q \<noteq> p" by (auto split: if_splits)
    then show "q \<noteq> null" "q < wc_next s" "wsc_mOverlap c' \<noteq> ws_mOverlap s"
      "\<exists>ov'. ((ov_heap s)(wsc_mOverlap c := None)) (wsc_mOverlap c') = Some ov' \<and> ov_derived ov' = q"
      using win_heaps_okD(1-4) [OF ok q(1)] ne [OF q] by auto
  next
    fix q ov'
    assume "((ov_heap s)(wsc_mOverlap c := None)) q = Some ov'"
    then have q: "ov_heap s q = Some ov'" "q \<noteq> wsc_mOverlap c" by (auto split: if_splits)
    then show "q \<noteq> null" "q < ov_next s" "hEvent ov' \<in> open_events (w_trace s) - {hEvent ov}"
      using win_heaps_okD(5-7) [OF ok q(1)] win_heaps_okD(8) [OF ok q(1) c(2)] by auto
  next
    fix q q' o1 o2
    assume "((ov_heap s)(wsc_mOverlap c := None)) q = Some o1"
      "((ov_heap s)(wsc_mOverlap c := None)) q' = Some o2" "hEvent o1 = hEvent o2"
    then show "q = q'" using win_heaps_okD(8) [OF ok, of q o1 q' o2] by (auto split: if_splits)
  qed (use win_heaps_okD(9,10) [OF ok] in auto)
  moreover have "ov_heap ?t (ws_mOverlap ?t) \<noteq> None"
    using win_invD(2) [OF inv] win_heaps_okD(3) [OF ok c(1)] by (simp add: heaps)
  moreover have "wconns_inv ?t" using win_removed_inv [OF win_inv_conns [OF inv] p] .
  ultimately show ?thesis
    by (auto simp: win_inv_def wconns_inv_def wc_live_def)
qed

section \<open>Every operation keeps the invariant\<close>

text \<open>
  Undefined behaviour is possible, and after it nothing is claimed: \<open>keeps True\<close>.
\<close>

lemma keeps_fields:
  assumes "\<And>s. wc_heap (f s) = wc_heap s \<and> ov_heap (f s) = ov_heap s \<and> wc_next (f s) = wc_next s \<and>
    ov_next (f s) = ov_next s \<and> ws_mOverlap (f s) = ws_mOverlap s \<and> w_mMapping (f s) = w_mMapping s \<and>
    w_mContainer (f s) = w_mContainer s \<and> w_trace (f s) = w_trace s"
  shows "keeps ub win_inv (modify f)"
  by (rule keeps_modify, erule win_inv_same) (simp_all add: assms)

lemma keeps_emit:
  assumes "\<And>tr. open_events tr \<subseteq> open_events (tr @ [e])"
  shows "keeps ub win_inv (w_emit e)"
  unfolding w_emit_def by (rule keeps_modify, erule win_inv_same) (simp_all add: assms)

lemma keeps_call:
  assumes "\<And>tr r. open_events tr \<subseteq> open_events (tr @ [ev r])"
  shows "keeps ub win_inv (w_call f ev)"
  unfolding w_call_def by (intro keeps_intros keeps_emit assms)

lemma keeps_deref:
  "keeps True win_inv (ov_deref p)" "keeps True win_inv (wc_deref p)"
  by (auto simp: keeps_def wp_simps split: option.splits)

lemma keeps_store: "keeps True win_inv (wc_update p (win_store_bytes d))"
  by (auto simp: keeps_def wp_simps win_inv_store split: option.splits)

lemma keeps_win_callback: "keeps True win_inv (call_win_callback cb e)"
  unfolding call_win_callback_def by (intro keeps_intros keeps_emit) (simp_all add: open_events_append)

lemma keeps_handle_array: "keeps True win_inv (WinConnections_getHandleArray h)"
proof (rule keepsI)
  fix s :: "'a win_server_scheme"
  assume inv: "win_inv s"
  then have "win_inv (s\<lparr>w_mContainer := rotate1 (w_mContainer s)\<rparr>)"
    by (rule win_inv_cong) (simp_all add: win_invD(4) [OF inv])
  then show "wp (WinConnections_getHandleArray h) (\<lambda>_. win_inv) (after_fault True win_inv) s"
    by (simp add: wp_def getHandleArray_run [OF win_inv_conns [OF inv]])
qed

lemma keeps_remove: "keeps True win_inv (WinConnections_removeServerConnection h)"
proof (rule keepsI)
  fix s :: "'a win_server_scheme"
  assume inv: "win_inv s"
  note conns = win_inv_conns [OF inv]
  show "wp (WinConnections_removeServerConnection h) (\<lambda>_. win_inv) (after_fault True win_inv) s"
  proof (cases "h \<in> wc_handle s ` set (w_mContainer s)")
    case True
    then obtain p where p: "p \<in> set (w_mContainer s)" "h = wc_handle s p" by auto
    show ?thesis
      using win_removed_keeps [OF inv p(1)]
      by (simp add: wp_def p(2) removeServerConnection_win_run [OF conns p(1)])
  next
    case False
    show ?thesis using inv by (simp add: wp_def remove_absent_win [OF conns False])
  qed
qed

lemmas keeps_win =
  keeps_intros keeps_deref keeps_store keeps_win_callback keeps_handle_array keeps_remove
  keeps_fields keeps_emit keeps_call

lemma keeps_getters:
  "keeps True win_inv (WinServerConnection_getSocket p)"
  "keeps True win_inv (WinServerConnection_getIdentifier p)"
  "keeps True win_inv (WinServerConnection_getBuffer p)"
  "keeps True win_inv (WinServerConnection_getDataBuffer p)"
  "keeps True win_inv (WinServerConnection_getServer p)"
  "keeps True win_inv (wc_getOverlap p)"
  "keeps True win_inv (wc_hEvent p)"
  "keeps True win_inv (ws_socket f)"
  "keeps True win_inv ws_hEvent"
  "keeps True win_inv WinServer_getCallback"
  "keeps True win_inv WinServer_isShutdown"
  unfolding wc_getter_defs wc_hEvent_def ws_socket_def ws_hEvent_def WinServer_getCallback_def
    WinServer_isShutdown_def
  by (intro keeps_win)+

lemma keeps_calls:
  "keeps ub win_inv (WSAGetLastError K)" "keeps ub win_inv (throw_last_error K w)"
  "keeps ub win_inv (WSASetEvent h)" "keeps ub win_inv (WSAResetEvent h)"
  "keeps ub win_inv (WSARecvDisconnect sck)" "keeps ub win_inv (WSASendDisconnect sck)"
  "keeps ub win_inv (WSASend K sck d ov rt)" "keeps ub win_inv (WSARecv K sck n ov rt)"
  "keeps ub win_inv (WSAWaitForMultipleEvents K hs)"
  "keeps ub win_inv (WSAGetOverlappedResult K sck ov b)"
  "keeps ub win_inv (win_setsockopt K sck opt v)" "keeps ub win_inv (WSAIoctl K sck)"
  "keeps ub win_inv (AcceptEx K s1 s2 ov)" "keeps ub win_inv (WSASocket K)"
  unfolding win_call_defs throw_last_error_def
  by (intro keeps_intros keeps_call keeps_emit; simp add: open_events_append)+

lemma keeps_remove_id: "keeps True win_inv (WinConnections_removeServerConnection_id i)"
  unfolding WinConnections_removeServerConnection_id_def by (intro keeps_win keeps_getters)

lemma keeps_lookup_id: "keeps True win_inv (WinConnections_getServerConnection_id i)"
  unfolding WinConnections_getServerConnection_id_def by (intro keeps_win)

lemma keeps_disconnect: "keeps True win_inv (WinServer_disconnect p)"
  unfolding WinServer_disconnect_def by (intro keeps_win keeps_getters keeps_calls)

lemma keeps_send_failed: "keeps True win_inv (WinServer_send_failed K p b)"
  unfolding WinServer_send_failed_def
  by (intro keeps_win keeps_getters keeps_calls keeps_remove_id)

lemma keeps_send_connection: "keeps True win_inv (WinServer_send_connection K d p b)"
  unfolding WinServer_send_connection_def
  by (intro keeps_intros keeps_fields keeps_win_callback keeps_getters keeps_calls keeps_send_failed) simp

lemma keeps_win_api: "keeps True win_inv (WinServer_api K c)"
  by (cases c)
    (simp_all add: WinServer_send_def WinServer_broadcast_def WinServer_shutdown_def
      WinConnections_getConnections_def keeps_intros keeps_fields keeps_lookup_id
      keeps_send_connection keeps_disconnect keeps_getters keeps_calls)

lemma keeps_win_other_threads: "keeps True win_inv (WinServer_other_threads K calls)"
  unfolding WinServer_other_threads_def by (intro keeps_intros keeps_win_api)

lemma win_inv_new_connection:
  assumes inv: "win_inv s" and c: "wsc_mOverlap c = ov_next s"
    and h: "h \<notin> open_events (w_trace s)"
  shows "win_inv (s\<lparr>wc_heap := (wc_heap s)(wc_next s \<mapsto> c), wc_next := Suc (wc_next s),
       ov_heap := (ov_heap s)(ov_next s \<mapsto> \<lparr>hEvent = h, ov_derived = wc_next s\<rparr>),
       ov_next := Suc (ov_next s),
       w_trace := w_trace s @ [WE_heap_alloc True, WE_create_event h]\<rparr>)" (is "win_inv ?t")
proof -
  have ok: "win_heaps_ok s" using win_invD(1) [OF inv] .
  have old: "wc_heap s (wc_next s) = None" "ov_heap s (ov_next s) = None"
    using win_heaps_okD(2) [OF ok, of "wc_next s"] win_heaps_okD(6) [OF ok, of "ov_next s"]
    by (metis less_irrefl not_None_eq)+
  have used: "ov_next s \<noteq> ws_mOverlap s" using win_invD(2) [OF inv] old(2) by auto
  have ev: "open_events (w_trace ?t) = insert h (open_events (w_trace s))"
    by (simp add: open_events_append)
  have "win_heaps_ok ?t"
    unfolding win_heaps_ok_def ev
  proof (intro conjI allI impI)
    fix p c'
    assume p: "wc_heap ?t p = Some c'"
    show "p \<noteq> null" "p < wc_next ?t" "wsc_mOverlap c' \<noteq> ws_mOverlap ?t"
      "\<exists>ov. ov_heap ?t (wsc_mOverlap c') = Some ov \<and> ov_derived ov = p"
      using p c used win_heaps_okD(1-4) [OF ok, of p c'] win_heaps_okD(9) [OF ok] old(2)
      by (auto split: if_splits)
  next
    fix q ov
    assume "ov_heap ?t q = Some ov"
    then show "q \<noteq> null" "q < ov_next ?t" "hEvent ov \<in> insert h (open_events (w_trace s))"
      using win_heaps_okD(5-7) [OF ok, of q ov] win_heaps_okD(10) [OF ok] by (auto split: if_splits)
  next
    fix q q' o1 o2
    assume "ov_heap ?t q = Some o1" "ov_heap ?t q' = Some o2" "hEvent o1 = hEvent o2"
    then show "q = q'"
      using win_heaps_okD(8) [OF ok, of q o1 q' o2] win_heaps_okD(7) [OF ok] h
      by (auto split: if_splits)
  qed (use win_heaps_okD(9,10) [OF ok] in \<open>auto simp: null_def\<close>)
  moreover have "wc_heap ?t p = wc_heap s p" if "wc_heap s p \<noteq> None" for p using that old(1) by auto
  then have "\<forall>p \<in> set (w_mContainer s). wc_heap ?t p \<noteq> None \<and> wc_ident ?t p = wc_ident s p"
    using win_invD(3) [OF inv] by (auto simp: wc_ident_def)
  ultimately show ?thesis
    using inv used by (auto simp: win_inv_def)
qed

lemma keeps_new_connection:
  assumes "events_fresh K"
  shows "keeps True win_inv (new_WinServerConnection K sck srv)"
proof (rule keepsI)
  fix s :: "'a win_server_scheme"
  assume inv: "win_inv s"
  note ok = win_invD(1) [OF inv]
  let ?h = "overlap_event K (w_trace s)"
  show "wp (new_WinServerConnection K sck srv) (\<lambda>_. win_inv) (after_fault True win_inv) s"
  proof (cases "n_heap_alloc K (w_trace s) \<and> ?h \<noteq> WSA_INVALID_EVENT")
    case True
    then have "?h \<notin> open_events (w_trace s @ [WE_heap_alloc True])"
      using assms unfolding events_fresh_def overlap_event_def by blast
    then have h: "?h \<notin> open_events (w_trace s)" by (simp add: open_events_append)
    show ?thesis
      using win_inv_new_connection [OF inv _ h] True by (simp add: wp_def new_connection_ok)
  next
    case False
    have "ov_heap s null = None" using win_heaps_okD(5) [OF ok] by (metis not_None_eq)
    then show ?thesis
      using new_connection_fails [OF False _ win_heaps_okD(10) [OF ok], of sck srv] by (auto simp: wp_def)
  qed
qed

lemma keeps_WinSocket_new: "keeps ub win_inv (WinSocket_new K)"
  unfolding WinSocket_new_def by (intro keeps_intros keeps_calls)

lemma keeps_prepare: "keeps True win_inv (WinServer_prepareForServerConnection K)"
  unfolding WinServer_prepareForServerConnection_def
  by (intro keeps_intros keeps_fields keeps_getters keeps_calls keeps_WinSocket_new) simp

lemma keeps_add_new:
  "events_fresh K \<Longrightarrow> keeps True win_inv (WinServer_addNewConnection K)"
  unfolding WinServer_addNewConnection_def
  by (intro keeps_intros keeps_fields keeps_getters keeps_calls keeps_prepare keeps_store
      keeps_new_connection) simp_all

lemma keeps_queue: "keeps True win_inv (WinServer_queueReceiveFromConnection K p)"
  unfolding WinServer_queueReceiveFromConnection_def
  by (intro keeps_intros keeps_getters keeps_calls keeps_store)

lemma keeps_received: "keeps True win_inv (WinServer_received K h p n)"
  unfolding WinServer_received_def
  by (intro keeps_intros keeps_getters keeps_win_callback keeps_remove keeps_queue)

lemma keeps_lookup: "keeps True win_inv (WinConnections_getServerConnection h)"
proof (rule keepsI)
  fix s :: "'a win_server_scheme"
  assume "win_inv s"
  then show "wp (WinConnections_getServerConnection h) (\<lambda>_. win_inv) (after_fault True win_inv) s"
    by (simp add: wp_def getServerConnection_win_eq win_inv_conns split: option.splits)
qed

lemma keeps_connection_event: "keeps True win_inv (WinServer_handleConnectionEvent K h)"
  unfolding WinServer_handleConnectionEvent_def
  by (intro keeps_intros keeps_getters keeps_calls keeps_store keeps_received keeps_lookup)

lemma keeps_serve: "events_fresh K \<Longrightarrow> keeps True win_inv (WinServer_serve K h)"
  unfolding WinServer_serve_def
  by (intro keeps_intros keeps_getters keeps_calls keeps_add_new keeps_connection_event)

lemma keeps_data_sent: "keeps True win_inv (WinServer_DataSentToClient p n)"
  unfolding WinServer_DataSentToClient_def
  by (intro keeps_intros keeps_fields keeps_getters keeps_calls keeps_deref keeps_win_callback) simp

text \<open>
  The routine that receives the identifier of a new client is not defined in the repository,
  and the class does not declare it: what it can do to a server is what \<open>Server.h\<close> lets every
  caller do. \<open>by_interface\<close> are the programs over this interface: they read, decide by what
  they read, fail, catch, call the callback, send, broadcast, shut down, queue a receive, and
  add a connection that was newly formed, which is one that was not added yet.
\<close>

inductive by_interface :: "winsock \<Rightarrow> ('a win_server_scheme, unit) act \<Rightarrow> bool" for K where
  nothing: "by_interface K skip"
| fails: "(\<exists>w. e = Runtime_error w) \<or> (\<exists>u. e = Undefined_behaviour u) \<Longrightarrow> by_interface K (throw e)"
| reads: "(\<And>t. by_interface K (f t)) \<Longrightarrow> by_interface K (\<lambda>s. f s s)"
| both: "by_interface K m \<Longrightarrow> by_interface K n \<Longrightarrow> by_interface K (seqE m n)"
| catches: "by_interface K m \<Longrightarrow> (\<And>w. by_interface K (h w)) \<Longrightarrow> by_interface K (tryE m h)"
| reports: "by_interface K (call_win_callback cb e)"
| calls: "by_interface K (WinServer_api K c)"
| receives: "by_interface K (WinServer_queueReceiveFromConnection K p)"
| adds: "by_interface K (bindE (gets w_mContainer) (\<lambda>added.
    whenE (p \<notin> set added) (WinServer_addConnection p ident)))"

definition routine_ok ::
    "winsock \<Rightarrow> (addr \<Rightarrow> DWORD \<Rightarrow> DWORD \<Rightarrow> ('a win_server_scheme, unit) act) \<Rightarrow> bool" where
  "routine_ok K R \<longleftrightarrow> (\<forall>ov e n. by_interface K (R ov e n))"

lemma win_inv_add:
  assumes inv: "win_inv s" and c: "wc_heap s p = Some c" and new: "p \<notin> set (w_mContainer s)"
  shows "win_inv (s\<lparr>w_mContainer := w_mContainer s @ [p], w_mMapping := (w_mMapping s)(i \<mapsto> p),
       wc_heap := (wc_heap s)(p \<mapsto> c\<lparr>wsc_mIdentifier := i\<rparr>)\<rparr>)" (is "win_inv ?t")
proof -
  have ok: "win_heaps_ok s" using win_invD(1) [OF inv] .
  have "win_heaps_ok ?t"
    unfolding win_heaps_ok_def
  proof (intro conjI allI impI)
    fix q c'
    assume "wc_heap ?t q = Some c'"
    then obtain c0 where "wc_heap s q = Some c0" "wsc_mOverlap c' = wsc_mOverlap c0"
      using c by (auto split: if_splits)
    then show "q \<noteq> null" "q < wc_next ?t" "wsc_mOverlap c' \<noteq> ws_mOverlap ?t"
      "\<exists>ov. ov_heap ?t (wsc_mOverlap c') = Some ov \<and> ov_derived ov = q"
      using win_heaps_okD(1-4) [OF ok] by auto
  qed (use win_heaps_okD(5-10) [OF ok] in auto)
  moreover have "wc_ident ?t q = (if q = p then i else wc_ident s q)" for q
    by (simp add: wc_ident_def)
  moreover have "q \<in> set (w_mContainer ?t) \<and> wc_ident ?t q = j" if "w_mMapping ?t j = Some q" for j q
    using that new win_invD(5) [OF inv] calculation(2) by (auto split: if_splits)
  ultimately show ?thesis
    using inv new c by (auto simp: win_inv_def)
qed

lemma keeps_add_newly_formed:
  "keeps True win_inv (bindE (gets w_mContainer) (\<lambda>added.
     whenE (p \<notin> set added) (WinServer_addConnection p ident)))"
  by (rule keepsI) (auto simp: win_inv_add WinServer_addConnection_def WinConnections_addServerConnection_def
      WinServerConnection_setIdentifier_def wp_simps split: option.splits)

lemma keeps_by_interface: "by_interface K m \<Longrightarrow> keeps True win_inv m"
proof (induction rule: by_interface.induct)
  case (fails e)
  then show ?case by (auto intro: keeps_intros)
next
  case (reads f)
  then show ?case by (simp add: keeps_def wp_def)
qed (intro keeps_intros keeps_win_callback keeps_win_api keeps_queue keeps_add_newly_formed; assumption)+

lemma keeps_routine: "routine_ok K R \<Longrightarrow> keeps True win_inv (R ov e n)"
  unfolding routine_ok_def by (rule keeps_by_interface) blast

lemma keeps_completion:
  assumes "routine_ok K R"
  shows "keeps True win_inv (WinServer_completion R c)"
  unfolding WinServer_completion_def
  by (auto intro!: keeps_intros keeps_data_sent keeps_deref keeps_store keeps_routine [OF assms]
      split: completion.split completion_routine.split)

lemma keeps_wait_loop:
  "routine_ok K R \<Longrightarrow> keeps True win_inv (WinServer_wait_loop K R waits hs rc)"
  by (induction waits arbitrary: hs rc)
    (auto intro!: keeps_intros keeps_getters keeps_calls keeps_handle_array keeps_win_other_threads
      keeps_completion)

lemma keeps_handle_at: "keeps True win_inv (handle_at hs i)"
  unfolding handle_at_def by (intro keeps_intros)

lemma keeps_perform: "routine_ok K R \<Longrightarrow> keeps True win_inv (WinServer_performWaitForEvents K R waits)"
  unfolding WinServer_performWaitForEvents_def by (intro keeps_intros keeps_wait_loop keeps_handle_at)

text \<open>The loop has returned exactly if the server was shut down.\<close>

lemma wait_loop_none:
  "WinServer_wait_loop K R waits hs rc s = (Inr None, s') \<Longrightarrow> \<not> ws_mHasBeenShutdown s'"
  by (induction waits arbitrary: hs rc s)
    (auto simp: bindE_def seqE_def act_simps split: if_splits prod.splits sum.splits)

lemma perform_none:
  assumes "WinServer_performWaitForEvents K R waits s = (Inr None, s')"
  shows "\<not> ws_mHasBeenShutdown s'"
proof -
  obtain r t where r: "WinServer_wait_loop K R waits [] WSA_WAIT_IO_COMPLETION s = (r, t)" by fastforce
  show ?thesis
  proof (cases r)
    case (Inr x)
    then show ?thesis
      using assms r wait_loop_none [of K R waits "[]" WSA_WAIT_IO_COMPLETION s t]
      by (cases x) (auto simp: WinServer_performWaitForEvents_def bindE_def handle_at_def act_simps
          split: prod.splits if_splits)
  qed (use assms r in \<open>simp add: WinServer_performWaitForEvents_def bindE_def\<close>)
qed

lemma wp_win_loop:
  assumes "events_fresh K" and "routine_ok K R" and "win_inv s"
  shows "wp (WinServer_loop K R turns)
    (\<lambda>returned s'. win_inv s' \<and> (returned \<longleftrightarrow> ws_mHasBeenShutdown s')) (after_fault True win_inv) s"
  using assms(3)
proof (induction turns arbitrary: s)
  case Nil
  have "win_inv (s\<lparr>ws_mWaitingForEvents := False\<rparr>)" by (rule win_inv_same [OF Nil]) simp_all
  then show ?case using Nil by (simp add: wp_simps)
next
  case (Cons waits turns)
  let ?Q = "\<lambda>returned s'. win_inv s' \<and> (returned \<longleftrightarrow> ws_mHasBeenShutdown s')"
  let ?E = "after_fault True win_inv"
  have flag: "win_inv (s\<lparr>ws_mWaitingForEvents := b\<rparr>)" for b by (rule win_inv_same [OF Cons.prems]) simp_all
  have next_turn: "wp (seqE (whenE (\<not> down) (WinServer_serve K h)) (WinServer_loop K R turns)) ?Q ?E t"
    if "win_inv t" for t h down
  proof -
    have "keeps True win_inv (whenE (\<not> down) (WinServer_serve K h))"
      by (intro keeps_intros keeps_serve assms(1))
    from keeps_wp [OF this that] show ?thesis
      unfolding wp_seqE by (rule wp_mono) (use Cons.IH in auto)
  qed
  have wait: "wp (WinServer_performWaitForEvents K R waits)
      (\<lambda>e t. win_inv t \<and> (e = None \<longrightarrow> \<not> ws_mHasBeenShutdown t)) ?E (s\<lparr>ws_mWaitingForEvents := True\<rparr>)"
    by (rule wpI) (use keeps_normalD [OF keeps_perform [OF assms(2)] flag]
        keeps_faultD [OF keeps_perform [OF assms(2)] flag] perform_none in blast)+
  have "wp (bindE (WinServer_performWaitForEvents K R waits) (\<lambda>event.
       case event of
         None \<Rightarrow> ret False
       | Some handleId \<Rightarrow>
           bindE (gets ws_mHasBeenShutdown) (\<lambda>down.
           seqE (whenE (\<not> down) (WinServer_serve K handleId))
             (WinServer_loop K R turns)))) ?Q ?E (s\<lparr>ws_mWaitingForEvents := True\<rparr>)"
    unfolding wp_bindE
    by (rule wp_mono [OF wait]) (auto simp: wp_ret wp_bindE wp_gets next_turn split: option.split)
  then show ?case using flag [of False] by (simp add: wp_bindE wp_gets wp_seqE wp_modify wp_ret)
qed

section \<open>How the operations run\<close>

lemma ws_hEvent_run:
  "ov_heap s (ws_mOverlap s) = Some ov \<Longrightarrow> ws_hEvent s = (Inr (hEvent ov), s)"
  by (simp add: ws_hEvent_def bindE_def act_simps)

lemma win_live: "win_inv s \<Longrightarrow> wc_heap s p \<noteq> None \<Longrightarrow> wc_live s p"
  using win_heaps_live win_invD(1) by blast

lemma win_live_mem: "win_inv s \<Longrightarrow> p \<in> set (w_mContainer s) \<Longrightarrow> wc_live s p"
  using win_live win_invD(3) by blast

lemma disconnect_run:
  assumes inv: "win_inv s" and p: "p \<in> set (w_mContainer s)"
  shows "WinServer_disconnect p s =
    (Inr (), win_removed p (s\<lparr>w_trace := w_trace s @
       [WE_recv_disconnect (wc_sock s p), WE_send_disconnect (wc_sock s p)]\<rparr>))"
proof -
  let ?t = "s\<lparr>w_trace := w_trace s @ [WE_recv_disconnect (wc_sock s p), WE_send_disconnect (wc_sock s p)]\<rparr>"
  have "win_inv ?t" by (rule win_inv_same [OF inv]) (simp_all add: open_events_append)
  note conns = win_inv_conns [OF this]
  have t: "wc_handle ?t = wc_handle s" "wc_live ?t = wc_live s" by (simp_all add: wc_readers_cong [of ?t s])
  have "WinConnections_removeServerConnection (wc_handle ?t p) ?t = (Inr (), win_removed p ?t)"
    using p by (intro removeServerConnection_win_run [OF conns]) simp
  then show ?thesis
    using win_live_mem [OF inv p]
    by (simp add: WinServer_disconnect_def WSARecvDisconnect_def WSASendDisconnect_def seqE_def bindE_def
        act_simps wc_getters_live t)
qed

text \<open>The calls of \<open>closesocket\<close>, in order and with repetitions.\<close>

fun win_closed_by :: "win_event \<Rightarrow> SOCKET list" where
  "win_closed_by (WE_closesocket sck) = [sck]"
| "win_closed_by _ = []"

definition sockets_closed :: "win_event list \<Rightarrow> SOCKET list" where
  "sockets_closed tr = concat (map win_closed_by tr)"

lemma sockets_closed_simps [simp]:
  "sockets_closed [] = []"
  "sockets_closed (a @ b) = sockets_closed a @ sockets_closed b"
  "sockets_closed (e # a) = win_closed_by e @ sockets_closed a"
  by (simp_all add: sockets_closed_def)

text \<open>Disconnecting some connections of the container, one after the other.\<close>

lemma disconnect_all_run:
  assumes "win_inv s" and "set ps \<subseteq> set (w_mContainer s)" and "distinct ps"
  shows "\<exists>s'. for_each WinServer_disconnect ps s = (Inr (), s') \<and> win_inv s' \<and>
    set (w_mContainer s') = set (w_mContainer s) - set ps \<and>
    open_sockets (w_trace s') = open_sockets (w_trace s) - wc_sock s ` set ps \<and>
    sockets_closed (w_trace s') = sockets_closed (w_trace s) @ map (wc_sock s) ps \<and>
    (\<forall>p \<in> set ps. wc_heap s' p = None) \<and> (\<forall>p. p \<notin> set ps \<longrightarrow> wc_heap s' p = wc_heap s p) \<and>
    win_callbacks (w_trace s') = win_callbacks (w_trace s) \<and>
    ws_mOverlap s' = ws_mOverlap s \<and> ws_mHasBeenShutdown s' = ws_mHasBeenShutdown s \<and>
    ws_mServerSocket s' = ws_mServerSocket s \<and> ws_mIncomingSocket s' = ws_mIncomingSocket s"
  using assms
proof (induction ps arbitrary: s)
  case Nil
  then show ?case by (simp add: act_simps)
next
  case (Cons p ps)
  let ?u = "s\<lparr>w_trace := w_trace s @ [WE_recv_disconnect (wc_sock s p), WE_send_disconnect (wc_sock s p)]\<rparr>"
  let ?t = "win_removed p ?u"
  have p: "p \<in> set (w_mContainer s)" using Cons.prems(2) by simp
  have u: "win_inv ?u" by (rule win_inv_same [OF Cons.prems(1)]) (simp_all add: open_events_append)
  have ur: "wc_sock ?u = wc_sock s" by (simp add: wc_readers_cong [of ?u s])
  have t: "win_inv ?t" using win_removed_keeps [OF u] p by simp
  have cont: "set (w_mContainer ?t) = set (w_mContainer s) - {p}"
    using win_invD(4) [OF Cons.prems(1)] by (simp add: win_removed_def)
  have heap: "wc_heap ?t = (wc_heap s)(p := None)" by (simp add: win_removed_def)
  then have sock: "wc_sock ?t q = wc_sock s q" if "q \<noteq> p" for q using that by (simp add: wc_sock_def)
  have tr: "open_sockets (w_trace ?t) = open_sockets (w_trace s) - {wc_sock s p}"
    "win_callbacks (w_trace ?t) = win_callbacks (w_trace s)"
    "sockets_closed (w_trace ?t) = sockets_closed (w_trace s) @ [wc_sock s p]"
    by (simp_all add: win_removed_def open_sockets_append ur)
  have flags: "ws_mOverlap ?t = ws_mOverlap s" "ws_mHasBeenShutdown ?t = ws_mHasBeenShutdown s"
    "ws_mServerSocket ?t = ws_mServerSocket s" "ws_mIncomingSocket ?t = ws_mIncomingSocket s"
    by (simp_all add: win_removed_def)
  have "set ps \<subseteq> set (w_mContainer ?t)" "distinct ps" using Cons.prems(2,3) cont by auto
  then obtain s' where s': "for_each WinServer_disconnect ps ?t = (Inr (), s')" "win_inv s'"
    "set (w_mContainer s') = set (w_mContainer ?t) - set ps"
    "open_sockets (w_trace s') = open_sockets (w_trace ?t) - wc_sock ?t ` set ps"
    "\<forall>p \<in> set ps. wc_heap s' p = None" "\<forall>p. p \<notin> set ps \<longrightarrow> wc_heap s' p = wc_heap ?t p"
    "win_callbacks (w_trace s') = win_callbacks (w_trace ?t)"
    "ws_mOverlap s' = ws_mOverlap ?t" "ws_mHasBeenShutdown s' = ws_mHasBeenShutdown ?t"
    "ws_mServerSocket s' = ws_mServerSocket ?t" "ws_mIncomingSocket s' = ws_mIncomingSocket ?t"
    "sockets_closed (w_trace s') = sockets_closed (w_trace ?t) @ map (wc_sock ?t) ps"
    using Cons.IH [OF t] by blast
  have "wc_sock ?t ` set ps = wc_sock s ` set ps" using Cons.prems(3) by (intro image_cong refl sock) auto
  moreover have "for_each WinServer_disconnect (p # ps) s = (Inr (), s')"
    using disconnect_run [OF Cons.prems(1) p] s'(1) by (simp add: seqE_def bindE_def)
  moreover have "set (w_mContainer s') = set (w_mContainer s) - set (p # ps)"
    using s'(3) cont by auto
  moreover have "open_sockets (w_trace s') = open_sockets (w_trace s) - wc_sock s ` set (p # ps)"
    using s'(4) tr(1) calculation(1) by auto
  moreover have "\<forall>q \<in> set (p # ps). wc_heap s' q = None"
    using s'(5,6) heap Cons.prems(3) by simp
  moreover have "\<forall>q. q \<notin> set (p # ps) \<longrightarrow> wc_heap s' q = wc_heap s q" using s'(6) heap by simp
  moreover have "map (wc_sock ?t) ps = map (wc_sock s) ps" using Cons.prems(3) by (intro map_cong refl sock) auto
  ultimately show ?case using s'(2,7-12) tr(2,3) flags by (intro exI [of _ s']) simp
qed

lemma win_shutdown_run:
  assumes inv: "win_inv s"
  shows "\<exists>s'. WinServer_shutdown s = (Inr (), s') \<and> win_inv s' \<and> ws_mHasBeenShutdown s' \<and>
    w_mContainer s' = [] \<and> w_mMapping s' = Map.empty \<and>
    open_sockets (w_trace s') = open_sockets (w_trace s) - wc_sock s ` set (w_mContainer s) \<and>
    sockets_closed (w_trace s') = sockets_closed (w_trace s) @ map (wc_sock s) (w_mContainer s) \<and>
    (\<forall>p \<in> set (w_mContainer s). wc_heap s' p = None) \<and>
    (\<forall>p. p \<notin> set (w_mContainer s) \<longrightarrow> wc_heap s' p = wc_heap s p) \<and>
    win_callbacks (w_trace s') = win_callbacks (w_trace s) \<and>
    ws_mServerSocket s' = ws_mServerSocket s \<and> ws_mIncomingSocket s' = ws_mIncomingSocket s \<and>
    ws_mOverlap s' = ws_mOverlap s"
proof -
  let ?t = "s\<lparr>ws_mHasBeenShutdown := True\<rparr>"
  have t: "win_inv ?t" by (rule win_inv_same [OF inv]) simp_all
  obtain u where u: "for_each WinServer_disconnect (w_mContainer s) ?t = (Inr (), u)" "win_inv u"
    "set (w_mContainer u) = {}" "open_sockets (w_trace u) = open_sockets (w_trace s) - wc_sock ?t ` set (w_mContainer s)"
    "\<forall>p \<in> set (w_mContainer s). wc_heap u p = None"
    "\<forall>p. p \<notin> set (w_mContainer s) \<longrightarrow> wc_heap u p = wc_heap s p"
    "win_callbacks (w_trace u) = win_callbacks (w_trace s)" "ws_mOverlap u = ws_mOverlap s"
    "ws_mHasBeenShutdown u" "ws_mServerSocket u = ws_mServerSocket s"
    "ws_mIncomingSocket u = ws_mIncomingSocket s"
    "sockets_closed (w_trace u) = sockets_closed (w_trace s) @ map (wc_sock ?t) (w_mContainer s)"
    using disconnect_all_run [OF t, of "w_mContainer s"] win_invD(4) [OF inv] by auto
  obtain ov where ov: "ov_heap u (ws_mOverlap u) = Some ov" using win_invD(2) [OF u(2)] by auto
  have map: "w_mMapping u = Map.empty" using win_invD(5) [OF u(2)] u(3) by (auto simp: fun_eq_iff) (metis not_None_eq)
  let ?v = "u\<lparr>w_trace := w_trace u @ [WE_set_event (hEvent ov)]\<rparr>"
  have "win_inv ?v" by (rule win_inv_same [OF u(2)]) (simp_all add: open_events_append)
  moreover have "WinServer_shutdown s = (Inr (), ?v)"
    using u(1) by (simp add: WinServer_shutdown_def WinConnections_getConnections_def seqE_def bindE_def
        act_simps ws_hEvent_run [OF ov] WSASetEvent_def)
  moreover have "wc_sock ?t = wc_sock s" by (simp add: wc_readers_cong [of ?t s])
  ultimately show ?thesis using u map by (intro exI [of _ ?v]) (simp add: open_sockets_append)
qed

section \<open>A Winsock and a server for the witnesses\<close>

text \<open>
  New events get a handle that is not in use; sockets are numbered by the length of the trace;
  overlapped sends and receives are pending; \<open>wt\<close> and \<open>res\<close> script the waits and the
  results of overlapped operations.
\<close>

definition fresh_event :: "win_event list \<Rightarrow> HANDLE" where
  "fresh_event tr =
     (case find (\<lambda>h. h \<noteq> WSA_INVALID_EVENT \<and> h \<notin> open_events tr) (map of_nat [1..<length tr + 2]) of
        None \<Rightarrow> WSA_INVALID_EVENT | Some h \<Rightarrow> h)"

definition win_kernel :: "(HANDLE list \<Rightarrow> DWORD \<times> completion list) \<Rightarrow> (bool \<times> DWORD \<times> bytes) \<Rightarrow> winsock" where
  "win_kernel wt res =
     \<lparr>n_startup = \<lambda>_. 0, n_heap_alloc = \<lambda>_. True, n_create_event = fresh_event,
      n_socket = \<lambda>tr. 100 + of_nat (length tr), n_setsockopt = \<lambda>_ _ _ _. 0,
      n_getaddrinfo = \<lambda>_ _ _. (0, [1]), n_bind = \<lambda>_ _ _. 0, n_listen = \<lambda>_ _ _. 0, n_ioctl = \<lambda>_ _. 0,
      n_acceptex = \<lambda>_ _ _ _. True, n_connect = \<lambda>_ _ _. 0, n_send = \<lambda>_ _ _. SOCKET_ERROR,
      n_recv = \<lambda>_ _ _. (SOCKET_ERROR, 0, []), n_wait = \<lambda>_. wt, n_overlapped_result = \<lambda>_ _ _ _. res,
      n_last_error = \<lambda>_. WSA_IO_PENDING, n_indet_socket = 0, n_indet_dword = 0, n_indet_bool = False,
      n_indet_bytes = []\<rparr>"

lemma win_kernel_fresh: "events_fresh (win_kernel wt res)"
proof -
  have "fresh_event tr \<notin> open_events tr" if "fresh_event tr \<noteq> WSA_INVALID_EVENT" for tr
  proof (cases "find (\<lambda>h. h \<noteq> WSA_INVALID_EVENT \<and> h \<notin> open_events tr) (map of_nat [1..<length tr + 2])")
    case None
    with that show ?thesis by (simp only: fresh_event_def option.case)
  next
    case (Some h)
    then show ?thesis using find_Some_mem [OF Some] by (simp only: fresh_event_def option.case) simp
  qed
  then show ?thesis by (simp add: events_fresh_def win_kernel_def)
qed

text \<open>
  A routine for new connections: it registers the connection under the bytes it received,
  unless it is registered.
\<close>

definition register_client :: "addr \<Rightarrow> DWORD \<Rightarrow> DWORD \<Rightarrow> ('a win_server_scheme, unit) act" where
  "register_client lpOverlapped dwError cbTransferred =
     bindE (ov_deref lpOverlapped) (\<lambda>ov.
     bindE (gets w_mContainer) (\<lambda>container.
     if ov_derived ov \<in> set container then skip
     else
       bindE (WinServerConnection_getBuffer (ov_derived ov)) (\<lambda>buffer.
       WinServer_addConnection (ov_derived ov) (take (unat cbTransferred) buffer))))"

lemma register_client_ok: "routine_ok K register_client"
proof -
  let ?register = "\<lambda>p n (t :: 'a win_server_scheme). case wc_heap t p of
      None \<Rightarrow> throw (Undefined_behaviour ''use of a dead ServerConnection'')
    | Some c \<Rightarrow> bindE (gets w_mContainer) (\<lambda>added.
        whenE (p \<notin> set added) (WinServer_addConnection p (take (unat n) (wsc_mBuffer c))))"
  let ?step = "\<lambda>ov n (t :: 'a win_server_scheme). case ov_heap t ov of
      None \<Rightarrow> throw (Undefined_behaviour ''use of a dead overlapped structure'')
    | Some x \<Rightarrow> if ov_derived x \<in> set (w_mContainer t) then skip else ?register (ov_derived x) n t"
  have "by_interface K (?step ov n t)" for ov n and t :: "'a win_server_scheme"
    by (auto intro: by_interface.intros split: option.split)
  then have ok: "by_interface K (\<lambda>s. ?step ov n s s)" for ov n
    by (rule by_interface.reads)
  have eq: "register_client ov e n = (\<lambda>s. ?step ov n s s)" for ov e n
    by (rule ext) (auto simp: register_client_def ov_deref_def wc_deref_def wc_getter_defs bindE_def act_simps
        split: option.splits)
  show ?thesis unfolding routine_ok_def eq using ok by blast
qed

text \<open>A server with the two connections of \<open>sample_wconns\<close>.\<close>

definition sample_win_server :: win_server where
  "sample_win_server =
     \<lparr>w_trace = [WE_socket 21, WE_socket 22, WE_socket 31, WE_socket 32, WE_create_event 101,
                 WE_create_event 102, WE_create_event 103],
      ov_heap = [11 \<mapsto> \<lparr>hEvent = 101, ov_derived = 1\<rparr>, 12 \<mapsto> \<lparr>hEvent = 102, ov_derived = 2\<rparr>,
                 13 \<mapsto> \<lparr>hEvent = 103, ov_derived = 9\<rparr>],
      ov_next = 14, wc_heap = [1 \<mapsto> win_conn 11 21 ''alice'', 2 \<mapsto> win_conn 12 22 ''bob''],
      wc_next = 3, w_mContainer = [1, 2], w_mMapping = [''alice'' \<mapsto> 1, ''bob'' \<mapsto> 2],
      ws_this = 9, ws_mOverlap = 13, ws_mServerSocket = Some \<lparr>win_mSocket = 31\<rparr>,
      ws_mIncomingSocket = Some \<lparr>win_mSocket = 32\<rparr>, ws_targets = [], ws_mCallback = True,
      ws_mHasBeenShutdown = False, ws_mWaitingForEvents = False\<rparr>"

lemma sample_win_server_inv: "win_inv sample_win_server"
  by (auto simp: win_inv_def win_heaps_ok_def sample_win_server_def win_conn_def null_def wc_ident_def
      open_events_def split: if_splits)

section \<open>Properties of the loop\<close>

text \<open>
  C5 The loop of the Winsock server keeps its invariant over any number of turns and waits,
  whatever calls of other threads (sends, broadcasts, shutdowns) are made inside the wait, and
  whatever completes there, on a system whose new event handles are not open ones: every
  connection in the container or known under an identifier is live, its overlapped structure
  and its event are its own. It has returned exactly if the server was shut down; any exception
  that leaves it is a runtime error, which keeps the invariant too, unless undefined behaviour
  was reached. The routine \<open>ConnectionInformationReceivedFromClient\<close>, which no file defines, may
  be any program over the server's public interface that adds only connections not added yet.
\<close>

theorem win_server_wait_keeps_invariant:
  assumes "events_fresh K" and "routine_ok K R" and "win_inv s"
    and "WinServer_waitForEvents K R schedule s = (r, s')"
  shows "case r of
      Inr returned \<Rightarrow> win_inv s' \<and> (returned \<longleftrightarrow> ws_mHasBeenShutdown s')
    | Inl e \<Rightarrow> (\<exists>w. e = Runtime_error w \<and> win_inv s') \<or> (\<exists>u. e = Undefined_behaviour u)"
proof -
  have "wp (WinServer_loop K R schedule)
      (\<lambda>returned s'. win_inv s' \<and> (returned \<longleftrightarrow> ws_mHasBeenShutdown s')) (after_fault True win_inv) s"
    by (rule wp_win_loop [OF assms(1-3)])
  then show ?thesis
    using assms(4) unfolding WinServer_waitForEvents_def wp_def
    by (cases r; cases "projl r") (auto simp: after_fault_def)
qed

theorem win_server_wait_keeps_invariant_witness:
  "\<exists>r s'. WinServer_waitForEvents (win_kernel (\<lambda>hs. (0, [])) (True, 0, [])) register_client
       [[[WSend ''hi'' ''bob''], [WBroadcast ''all'']], [[WShutdown]]] sample_win_server = (r, s') \<and>
     (case r of
        Inr returned \<Rightarrow> win_inv s' \<and> (returned \<longleftrightarrow> ws_mHasBeenShutdown s')
      | Inl e \<Rightarrow> (\<exists>w. e = Runtime_error w \<and> win_inv s') \<or> (\<exists>u. e = Undefined_behaviour u))"
proof -
  obtain r s' where run: "WinServer_waitForEvents (win_kernel (\<lambda>hs. (0, [])) (True, 0, [])) register_client
       [[[WSend ''hi'' ''bob''], [WBroadcast ''all'']], [[WShutdown]]] sample_win_server = (r, s')"
    by fastforce
  show ?thesis
    using win_server_wait_keeps_invariant [OF win_kernel_fresh register_client_ok sample_win_server_inv run]
      run by blast
qed

text \<open>
  Unlike its posix counterpart, shutting down the Winsock server closes all connections:
  every connection of the container is disconnected, closed and destroyed, the container and
  the identifiers are empty, nothing else is closed, no callback is called, and the invariant
  is kept.
\<close>

theorem win_shutdown_closes_connections:
  assumes "win_inv s"
  shows "\<exists>s'. WinServer_shutdown s = (Inr (), s') \<and> win_inv s' \<and> ws_mHasBeenShutdown s' \<and>
    w_mContainer s' = [] \<and> w_mMapping s' = Map.empty \<and>
    open_sockets (w_trace s') = open_sockets (w_trace s) - wc_sock s ` set (w_mContainer s) \<and>
    (\<forall>p. wc_heap s' p = (if p \<in> set (w_mContainer s) then None else wc_heap s p)) \<and>
    win_callbacks (w_trace s') = win_callbacks (w_trace s)"
proof -
  obtain s' where "WinServer_shutdown s = (Inr (), s')" "win_inv s'" "ws_mHasBeenShutdown s'"
    "w_mContainer s' = []" "w_mMapping s' = Map.empty"
    "open_sockets (w_trace s') = open_sockets (w_trace s) - wc_sock s ` set (w_mContainer s)"
    "\<forall>p \<in> set (w_mContainer s). wc_heap s' p = None"
    "\<forall>p. p \<notin> set (w_mContainer s) \<longrightarrow> wc_heap s' p = wc_heap s p"
    "win_callbacks (w_trace s') = win_callbacks (w_trace s)"
    using win_shutdown_run [OF assms] by blast
  then show ?thesis by (intro exI [of _ s']) simp
qed

theorem win_shutdown_closes_connections_witness:
  "\<exists>s'. WinServer_shutdown sample_win_server = (Inr (), s') \<and> w_mContainer s' = [] \<and>
     open_sockets (w_trace s') = {31, 32}"
proof -
  have "open_sockets (w_trace sample_win_server) - wc_sock sample_win_server ` set (w_mContainer sample_win_server) =
      {31, 32}"
    by (auto simp: sample_win_server_def open_sockets_def wc_sock_def win_conn_def INVALID_SOCKET_def)
  then show ?thesis
    using win_shutdown_closes_connections [OF sample_win_server_inv] by auto
qed

end
