(* ===== verification/Windows_Server_Sends.thy ===== *)
theory Windows_Server_Sends
  imports Windows_Server_Loop
begin

text \<open>
  Messages of the Winsock server: what a send and a broadcast do, what their completion
  routines report, and completions that arrive after their connection is gone.
\<close>

section \<open>What is read of a connection\<close>

text \<open>It does not depend on the trace, nor on the members of the server.\<close>

lemma wc_readers_update [simp]:
  "wc_live (w_trace_update f s) = wc_live s" "wc_live (ws_targets_update g t) = wc_live t"
  "wc_ident (w_trace_update f s) = wc_ident s" "wc_ident (ws_targets_update g t) = wc_ident t"
  "wc_sock (w_trace_update f s) = wc_sock s" "wc_sock (ws_targets_update g t) = wc_sock t"
  "wc_overlap (w_trace_update f s) = wc_overlap s" "wc_overlap (ws_targets_update g t) = wc_overlap t"
  "wc_handle (w_trace_update f s) = wc_handle s" "wc_handle (ws_targets_update g t) = wc_handle t"
  by (rule wc_readers_cong; simp)+

section \<open>One send\<close>

text \<open>
  \<open>WSASend\<close> sent at once, or the operation is pending; the completion routine runs in both
  cases.
\<close>

definition send_accepted :: "winsock \<Rightarrow> bool \<Rightarrow> bool" where
  "send_accepted K at_once \<longleftrightarrow>
     (if at_once then \<forall>tr sck d. n_send K tr sck d \<noteq> SOCKET_ERROR
      else (\<forall>tr sck d. n_send K tr sck d = SOCKET_ERROR) \<and> (\<forall>tr. n_last_error K tr = WSA_IO_PENDING))"

text \<open>What one accepted send of a connection adds to the trace.\<close>

definition send_events ::
    "winsock \<Rightarrow> bool \<Rightarrow> bytes \<Rightarrow> addr \<Rightarrow> 'a win_server_scheme \<Rightarrow> win_event list" where
  "send_events K at_once d p s =
     WE_send (wc_sock s p) d (wc_overlap s p) DataSentToClient (n_send K (w_trace s) (wc_sock s p) d) #
       (if at_once \<and> ws_mCallback s
        then [WE_callback (WCb_sendComplete (wc_ident s p) (of_nat (length d)))] else [])"

lemma win_send_connection_run:
  assumes "wc_live s p" and "send_accepted K at_once"
  shows "WinServer_send_connection K d p True s =
    (Inr (), s\<lparr>ws_targets := ws_targets s @ [wc_ident s p], w_trace := w_trace s @ send_events K at_once d p s\<rparr>)"
proof -
  have live: "wc_live (s\<lparr>ws_targets := ts\<rparr>) p" "wc_live (s\<lparr>ws_targets := ts, w_trace := tr\<rparr>) p" for ts tr
    using assms(1) by simp_all
  show ?thesis
    using assms(2) wc_getters_live [OF assms(1)] wc_getters_live [OF live(1)] wc_getters_live [OF live(2)]
    by (cases at_once)
      (auto simp: WinServer_send_connection_def WSASend_def WSAGetLastError_def WinServer_getCallback_def
        call_win_callback_def bindE_def seqE_def act_simps send_accepted_def send_events_def)
qed

lemma win_send_run:
  assumes "wc_live s p" and "w_mMapping s i = Some p" and "wc_ident s p = i" and "send_accepted K at_once"
  shows "WinServer_send K d i s =
    (Inr (), s\<lparr>ws_targets := ws_targets s @ [i, i], w_trace := w_trace s @ send_events K at_once d p s\<rparr>)"
  using win_send_connection_run [OF assms(1,4), of d] assms(2,3)
  by (simp add: WinServer_send_def bindE_def seqE_def getServerConnection_id_win_eq act_simps)

text \<open>The completion routine of a send on a live connection.\<close>

lemma data_sent_run:
  assumes inv: "win_inv s" and p: "wc_heap s p \<noteq> None"
    and up: "\<not> ws_mHasBeenShutdown s" and q: "ws_targets s = i # rest"
  shows "WinServer_DataSentToClient (wc_overlap s p) n s =
    (Inr (), s\<lparr>ws_targets := rest, w_trace := w_trace s @ WE_reset_event (wc_handle s p) #
       (if ws_mCallback s then [WE_callback (WCb_sendComplete i n)] else [])\<rparr>)"
proof -
  obtain c where c: "wc_heap s p = Some c" using p by auto
  obtain ov where ov: "ov_heap s (wsc_mOverlap c) = Some ov" "ov_derived ov = p"
    using win_heaps_okD(4) [OF win_invD(1) [OF inv] c] by blast
  obtain sv where sv: "ov_heap s (ws_mOverlap s) = Some sv" using win_invD(2) [OF inv] by auto
  have "wc_overlap s p = wsc_mOverlap c" "wc_handle s p = hEvent ov"
    using c ov by (simp_all add: wc_overlap_def wc_handle_def)
  then show ?thesis
    using c ov sv up q
    by (simp add: WinServer_DataSentToClient_def WinServer_isShutdown_def WinServer_getCallback_def
        call_win_callback_def WSAResetEvent_def bindE_def seqE_def act_simps)
qed

text \<open>
  C27 The second message is reported as sent to the first receiver. On a server with a callback
  that is not shut down and has no targets queued, where \<open>WSASend\<close> leaves the messages pending:
  a send to a client queues
  its identifier twice, and each completion takes one: after a message to \<open>i\<close> and one to
  \<open>j\<close> were both sent, the callback has been told twice that \<open>i\<close> received its message, with
  the byte count of \<open>j\<close>'s the second time, and the two identifiers left over are \<open>j\<close>'s.
\<close>

theorem win_send_reports_wrong_target:
  assumes "win_inv s" and "ws_targets s = []" and "ws_mCallback s" and "\<not> ws_mHasBeenShutdown s"
    and "w_mMapping s i = Some p" and "w_mMapping s j = Some q" and "send_accepted K False"
  shows "\<exists>s'. seqE (WinServer_send K d i) (seqE (WinServer_send K e j)
      (seqE (WinServer_DataSentToClient (wc_overlap s p) (of_nat (length d)))
        (WinServer_DataSentToClient (wc_overlap s q) (of_nat (length e))))) s = (Inr (), s') \<and>
    win_callbacks (w_trace s') = win_callbacks (w_trace s) @
      [WCb_sendComplete i (of_nat (length d)), WCb_sendComplete i (of_nat (length e))] \<and>
    ws_targets s' = [j, j]"
proof -
  note conns = win_inv_conns [OF assms(1)]
  have p: "p \<in> set (w_mContainer s)" "wc_ident s p = i" and q: "q \<in> set (w_mContainer s)" "wc_ident s q = j"
    using win_invD(5) [OF assms(1)] assms(5,6) by auto
  have live: "wc_live s p" "wc_live s q" using p q win_live_mem [OF assms(1)] by auto
  let ?t = "s\<lparr>ws_targets := [i, i], w_trace := w_trace s @ send_events K False d p s\<rparr>"
  let ?u = "?t\<lparr>ws_targets := [i, i, j, j], w_trace := w_trace ?t @ send_events K False e q ?t\<rparr>"
  let ?v = "?u\<lparr>ws_targets := [i, j, j], w_trace := w_trace ?u @
    [WE_reset_event (wc_handle s p), WE_callback (WCb_sendComplete i (of_nat (length d)))]\<rparr>"
  have i: "win_inv ?u" "win_inv ?v"
    by (rule win_inv_same [OF assms(1)]; simp add: open_events_append send_events_def)+
  have "WinServer_send K d i s = (Inr (), ?t)"
    using win_send_run [OF live(1) assms(5) p(2) assms(7)] assms(2) by simp
  moreover have "WinServer_send K e j ?t = (Inr (), ?u)"
    using win_send_run [of ?t q j K False e] live(2) assms(6,7) q(2) by simp
  moreover have "WinServer_DataSentToClient (wc_overlap s p) (of_nat (length d)) ?u = (Inr (), ?v)"
    using data_sent_run [OF i(1), of p i "[i, j, j]" "of_nat (length d)"] win_invD(3) [OF assms(1) p(1)]
      assms(3,4) by simp
  moreover have "WinServer_DataSentToClient (wc_overlap s q) (of_nat (length e)) ?v =
      (Inr (), ?v\<lparr>ws_targets := [j, j], w_trace := w_trace ?v @
         [WE_reset_event (wc_handle s q), WE_callback (WCb_sendComplete i (of_nat (length e)))]\<rparr>)"
    using data_sent_run [OF i(2), of q i "[j, j]" "of_nat (length e)"] win_invD(3) [OF assms(1) q(1)]
      assms(3,4) by simp
  ultimately show ?thesis by (simp add: seqE_def bindE_def send_events_def)
qed

lemma win_kernel_pending: "send_accepted (win_kernel wt res) False"
  by (simp add: send_accepted_def win_kernel_def)

theorem win_send_reports_wrong_target_witness:
  "\<exists>s'. seqE (WinServer_send (win_kernel (\<lambda>hs. (0, [])) (True, 0, [])) ''hi'' ''alice'')
     (seqE (WinServer_send (win_kernel (\<lambda>hs. (0, [])) (True, 0, [])) ''hello'' ''bob'')
      (seqE (WinServer_DataSentToClient 11 2) (WinServer_DataSentToClient 12 5))) sample_win_server = (Inr (), s') \<and>
    win_callbacks (w_trace s') = [WCb_sendComplete ''alice'' 2, WCb_sendComplete ''alice'' 5] \<and>
    ws_targets s' = [''bob'', ''bob'']"
  using win_send_reports_wrong_target [OF sample_win_server_inv, where K = "win_kernel (\<lambda>hs. (0, [])) (True, 0, [])"
      and i = "''alice''" and p = 1 and j = "''bob''" and q = 2 and d = "''hi''" and e = "''hello''"]
  by (simp add: win_kernel_pending sample_win_server_def win_conn_def wc_overlap_def)

text \<open>
  A message that \<open>WSASend\<close> takes at once is reported twice: by the send, and again by its
  completion routine, which runs in this case too. One of the two identifiers the send queued
  stays in the queue.
\<close>

theorem win_immediate_send_reported_twice:
  assumes "win_inv s" and "ws_targets s = []" and "ws_mCallback s" and "\<not> ws_mHasBeenShutdown s"
    and "w_mMapping s i = Some p" and "send_accepted K True"
  shows "\<exists>s'. seqE (WinServer_send K d i)
      (WinServer_DataSentToClient (wc_overlap s p) (of_nat (length d))) s = (Inr (), s') \<and>
    win_callbacks (w_trace s') = win_callbacks (w_trace s) @
      [WCb_sendComplete i (of_nat (length d)), WCb_sendComplete i (of_nat (length d))] \<and>
    ws_targets s' = [i]"
proof -
  have p: "p \<in> set (w_mContainer s)" "wc_ident s p = i"
    using win_invD(5) [OF assms(1,5)] by auto
  have live: "wc_live s p" using p win_live_mem [OF assms(1)] by auto
  let ?t = "s\<lparr>ws_targets := [i, i], w_trace := w_trace s @ send_events K True d p s\<rparr>"
  have "win_inv ?t" by (rule win_inv_same [OF assms(1)]) (simp_all add: open_events_append send_events_def)
  then have "WinServer_DataSentToClient (wc_overlap s p) (of_nat (length d)) ?t =
      (Inr (), ?t\<lparr>ws_targets := [i], w_trace := w_trace ?t @
         [WE_reset_event (wc_handle s p), WE_callback (WCb_sendComplete i (of_nat (length d)))]\<rparr>)"
    using data_sent_run [of ?t p i "[i]" "of_nat (length d)"] win_invD(3) [OF assms(1) p(1)] assms(3,4) by simp
  moreover have "WinServer_send K d i s = (Inr (), ?t)"
    using win_send_run [OF live assms(5) p(2) assms(6)] assms(2) by simp
  ultimately show ?thesis using assms(3) p(2) by (simp add: seqE_def bindE_def send_events_def)
qed

text \<open>The kernel of the witnesses with other results of \<open>WSASend\<close> and \<open>WSAGetLastError\<close>.\<close>

definition sending_kernel :: "int \<Rightarrow> int \<Rightarrow> winsock" where
  "sending_kernel r e =
     (win_kernel (\<lambda>hs. (0, [])) (True, 0, []))\<lparr>n_send := \<lambda>_ _ _. r, n_last_error := \<lambda>_. e\<rparr>"

theorem win_immediate_send_reported_twice_witness:
  "\<exists>s'. seqE (WinServer_send (sending_kernel 0 0) ''hi'' ''bob'')
     (WinServer_DataSentToClient 12 2) sample_win_server = (Inr (), s') \<and>
    win_callbacks (w_trace s') = [WCb_sendComplete ''bob'' 2, WCb_sendComplete ''bob'' 2] \<and>
    ws_targets s' = [''bob'']"
  using win_immediate_send_reported_twice [OF sample_win_server_inv, where K = "sending_kernel 0 0"
      and i = "''bob''" and p = 2 and d = "''hi''"]
  by (simp add: send_accepted_def sending_kernel_def SOCKET_ERROR_def sample_win_server_def win_conn_def
      wc_overlap_def)

section \<open>Broadcast\<close>

text \<open>Every connection of the container is the one known under its identifier.\<close>

definition win_registered :: "'a win_server_scheme \<Rightarrow> bool" where
  "win_registered s \<longleftrightarrow> (\<forall>p \<in> set (w_mContainer s). w_mMapping s (wc_ident s p) = Some p)"

fun win_sends_of :: "win_event \<Rightarrow> (SOCKET \<times> bytes) list" where
  "win_sends_of (WE_send sck d ov routine r) = [(sck, d)]"
| "win_sends_of _ = []"

text \<open>The messages that were given to \<open>WSASend\<close>.\<close>

definition win_sends :: "win_event list \<Rightarrow> (SOCKET \<times> bytes) list" where
  "win_sends tr = concat (map win_sends_of tr)"

lemma win_sends_simps [simp]:
  "win_sends [] = []" "win_sends (a @ b) = win_sends a @ win_sends b"
  "win_sends (e # a) = win_sends_of e @ win_sends a"
  by (simp_all add: win_sends_def)

text \<open>A failed send removes the connection that is known under the identifier.\<close>

lemma send_failed_run:
  assumes "win_inv s" and "wc_live s p" and "w_mMapping s (wc_ident s p) = Some q"
  shows "\<exists>w. WinServer_send_failed K p True s =
    (Inr (), win_removed q (s\<lparr>w_trace := w_trace s @
       (if ws_mCallback s then [WE_callback (WCb_sendFailed (wc_ident s p) w)] else [])\<rparr>))"
proof -
  let ?w = "''error sending data to socket '' @ show_nat (unat (wc_sock s p)) @ '' - '' @
    show_int (n_last_error K (w_trace s))"
  let ?t = "s\<lparr>w_trace := w_trace s @
    (if ws_mCallback s then [WE_callback (WCb_sendFailed (wc_ident s p) ?w)] else [])\<rparr>"
  have q: "q \<in> set (w_mContainer s)" using win_invD(5) [OF assms(1,3)] by simp
  have t: "win_inv ?t" by (rule win_inv_same [OF assms(1)]) (simp_all add: open_events_append)
  have live: "wc_live ?t p" "wc_live ?t q" using assms(2) win_live_mem [OF assms(1) q] by simp_all
  have "WinConnections_removeServerConnection (wc_handle ?t q) ?t = (Inr (), win_removed q ?t)"
    using q by (intro removeServerConnection_win_run [OF win_inv_conns [OF t]]) simp
  then have "WinConnections_removeServerConnection_id (wc_ident s p) ?t = (Inr (), win_removed q ?t)"
    using assms(3) wc_hEvent_live [OF live(2)]
    by (simp add: WinConnections_removeServerConnection_id_def bindE_def act_simps)
  then have "WinServer_send_failed K p True s = (Inr (), win_removed q ?t)"
    using wc_getters_live [OF assms(2)] wc_getters_live [OF live(1)]
    by (cases "ws_mCallback s")
      (simp_all add: WinServer_send_failed_def WSAGetLastError_def WinServer_getCallback_def
        call_win_callback_def bindE_def seqE_def act_simps)
  then show ?thesis by blast
qed

text \<open>
  One connection of a broadcast: it was sent to, or the connection known under its identifier
  is gone.
\<close>

lemma send_connection_any:
  assumes "win_inv s" and "wc_live s p" and "w_mMapping s (wc_ident s p) = Some q"
  shows "\<exists>tr. let t = s\<lparr>ws_targets := ws_targets s @ [wc_ident s p], w_trace := tr\<rparr> in
    win_inv t \<and> win_sends tr = win_sends (w_trace s) @ [(wc_sock s p, d)] \<and>
    open_sockets tr = open_sockets (w_trace s) \<and>
    (WinServer_send_connection K d p True s = (Inr (), t) \<or>
     WinServer_send_connection K d p True s = (Inr (), win_removed q t)) \<and>
    ((\<forall>tr d. n_send K tr (wc_sock s p) d = SOCKET_ERROR) \<and> (\<forall>tr. n_last_error K tr \<noteq> WSA_IO_PENDING) \<longrightarrow>
     WinServer_send_connection K d p True s = (Inr (), win_removed q t))"
proof -
  let ?r = "n_send K (w_trace s) (wc_sock s p) d"
  let ?v = "s\<lparr>ws_targets := ws_targets s @ [wc_ident s p]\<rparr>"
  let ?u = "?v\<lparr>w_trace := w_trace s @ [WE_send (wc_sock s p) d (wc_overlap s p) DataSentToClient ?r]\<rparr>"
  have u: "win_inv ?u" by (rule win_inv_same [OF assms(1)]) (simp_all add: open_events_append)
  have live: "wc_live ?v p" "wc_live ?u p" using assms(2) by simp_all
  note getters = wc_getters_live [OF assms(2)] wc_getters_live [OF live(1)] wc_getters_live [OF live(2)]
  note defs = WinServer_send_connection_def WSASend_def WSAGetLastError_def WinServer_getCallback_def
    call_win_callback_def bindE_def seqE_def act_simps
  show ?thesis
  proof (cases "?r = SOCKET_ERROR \<and> n_last_error K (w_trace ?u) \<noteq> WSA_IO_PENDING")
    case True
    then have r: "?r = SOCKET_ERROR" by simp
    have e: "n_last_error K (w_trace s @ [WE_send (wc_sock s p) d (wc_overlap s p) DataSentToClient SOCKET_ERROR])
        \<noteq> WSA_IO_PENDING"
      using True unfolding r by simp
    obtain w where w: "WinServer_send_failed K p True ?u =
      (Inr (), win_removed q (?u\<lparr>w_trace := w_trace ?u @
         (if ws_mCallback ?u then [WE_callback (WCb_sendFailed (wc_ident ?u p) w)] else [])\<rparr>))"
      using send_failed_run [OF u live(2), of q K] assms(3) by auto
    let ?tr = "w_trace ?u @ (if ws_mCallback s then [WE_callback (WCb_sendFailed (wc_ident s p) w)] else [])"
    have "win_inv (?v\<lparr>w_trace := ?tr\<rparr>)"
      by (rule win_inv_same [OF assms(1)]) (simp_all add: open_events_append)
    moreover have "WinServer_send_connection K d p True s = (Inr (), win_removed q (?v\<lparr>w_trace := ?tr\<rparr>))"
      using r e w getters by (cases "ws_mCallback s") (simp_all add: defs)
    ultimately show ?thesis by (intro exI [of _ ?tr]) (simp add: open_sockets_append)
  next
    case False
    let ?tr = "w_trace ?u @ (if ?r \<noteq> SOCKET_ERROR \<and> ws_mCallback s
      then [WE_callback (WCb_sendComplete (wc_ident s p) (of_nat (length d)))] else [])"
    have "win_inv (?v\<lparr>w_trace := ?tr\<rparr>)"
      by (rule win_inv_same [OF assms(1)]) (simp_all add: open_events_append)
    moreover have "WinServer_send_connection K d p True s = (Inr (), ?v\<lparr>w_trace := ?tr\<rparr>)"
      using False getters by (cases "?r = SOCKET_ERROR") (auto simp: defs)
    ultimately show ?thesis using False by (intro exI [of _ ?tr]) (auto simp: open_sockets_append)
  qed
qed

lemma win_registered_removed:
  assumes "win_inv s" and "win_registered s" and "p \<in> set (w_mContainer s)"
  shows "win_registered (win_removed p s)"
proof -
  note inv = win_inv_conns [OF assms(1)]
  have "w_mMapping (win_removed p s) (wc_ident (win_removed p s) q) = Some q"
    if q: "q \<in> set (w_mContainer s)" "q \<noteq> p" for q
  proof -
    have "w_mMapping s (wc_ident s q) = Some q" "w_mMapping s (wc_ident s p) = Some p"
      using assms(2,3) q(1) by (simp_all add: win_registered_def)
    then have "wc_ident s q \<noteq> wc_ident s p" using q(2) by auto
    then show ?thesis
      using \<open>w_mMapping s (wc_ident s q) = Some q\<close> win_removed_readers(3) [OF inv assms(3) q]
      by (simp add: win_removed_def)
  qed
  then show ?thesis
    using win_invD(4) [OF assms(1)] by (auto simp: win_registered_def win_removed_def)
qed

lemma broadcast_step:
  assumes "win_inv s" and "win_registered s" and "p \<in> set (w_mContainer s)"
  obtains s' where "WinServer_send_connection K d p True s = (Inr (), s')" "win_inv s'" "win_registered s'"
    "win_sends (w_trace s') = win_sends (w_trace s) @ [(wc_sock s p, d)]"
    "ws_targets s' = ws_targets s @ [wc_ident s p]"
    "set (w_mContainer s) - {p} \<subseteq> set (w_mContainer s')" "set (w_mContainer s') \<subseteq> set (w_mContainer s)"
    "\<And>q. q \<in> set (w_mContainer s) \<Longrightarrow> q \<noteq> p \<Longrightarrow> wc_sock s' q = wc_sock s q \<and> wc_ident s' q = wc_ident s q"
proof -
  have "w_mMapping s (wc_ident s p) = Some p" using assms(2,3) by (simp add: win_registered_def)
  from send_connection_any [OF assms(1) win_live_mem [OF assms(1,3)] this, of d K]
  obtain tr where tr: "let t = s\<lparr>ws_targets := ws_targets s @ [wc_ident s p], w_trace := tr\<rparr> in
    win_inv t \<and> win_sends tr = win_sends (w_trace s) @ [(wc_sock s p, d)] \<and>
    (WinServer_send_connection K d p True s = (Inr (), t) \<or>
     WinServer_send_connection K d p True s = (Inr (), win_removed p t))"
    by (auto simp: Let_def)
  let ?t = "s\<lparr>ws_targets := ws_targets s @ [wc_ident s p], w_trace := tr\<rparr>"
  have t: "win_inv ?t" "win_registered ?t" "p \<in> set (w_mContainer ?t)"
    using tr assms(2,3) by (simp_all add: Let_def win_registered_def)
  note d = win_invD(4) [OF assms(1)]
  show thesis
  proof (cases "WinServer_send_connection K d p True s = (Inr (), ?t)")
    case True
    show thesis by (rule that [OF True t(1,2)]) (use tr in \<open>auto simp: Let_def\<close>)
  next
    case False
    then have run: "WinServer_send_connection K d p True s = (Inr (), win_removed p ?t)"
      using tr by (simp add: Let_def)
    show thesis
      by (rule that [OF run win_removed_keeps [OF t(1,3)] win_registered_removed [OF t]])
        (use tr d win_removed_readers(3,5) [OF win_inv_conns [OF t(1)] t(3)]
          in \<open>auto simp: Let_def win_removed_def\<close>)
  qed
qed

lemma broadcast_loop:
  assumes "win_inv s" and "win_registered s" and "set ps \<subseteq> set (w_mContainer s)" and "distinct ps"
  shows "\<exists>s'. for_each (\<lambda>c. WinServer_send_connection K d c True) ps s = (Inr (), s') \<and>
    win_inv s' \<and> win_registered s' \<and> set (w_mContainer s') \<subseteq> set (w_mContainer s) \<and>
    win_sends (w_trace s') = win_sends (w_trace s) @ map (\<lambda>p. (wc_sock s p, d)) ps \<and>
    ws_targets s' = ws_targets s @ map (wc_ident s) ps"
  using assms
proof (induction ps arbitrary: s)
  case Nil
  then show ?case by (simp add: act_simps)
next
  case (Cons p ps)
  have p: "p \<in> set (w_mContainer s)" using Cons.prems(3) by simp
  obtain t where t: "WinServer_send_connection K d p True s = (Inr (), t)" "win_inv t" "win_registered t"
    "win_sends (w_trace t) = win_sends (w_trace s) @ [(wc_sock s p, d)]"
    "ws_targets t = ws_targets s @ [wc_ident s p]"
    "set (w_mContainer s) - {p} \<subseteq> set (w_mContainer t)" "set (w_mContainer t) \<subseteq> set (w_mContainer s)"
    "\<And>q. q \<in> set (w_mContainer s) \<Longrightarrow> q \<noteq> p \<Longrightarrow> wc_sock t q = wc_sock s q \<and> wc_ident t q = wc_ident s q"
    using broadcast_step [OF Cons.prems(1,2) p] by blast
  have "set ps \<subseteq> set (w_mContainer t)" "distinct ps" using Cons.prems(3,4) t(6) by auto
  then obtain s' where s': "for_each (\<lambda>c. WinServer_send_connection K d c True) ps t = (Inr (), s')"
    "win_inv s'" "win_registered s'" "set (w_mContainer s') \<subseteq> set (w_mContainer t)"
    "win_sends (w_trace s') = win_sends (w_trace t) @ map (\<lambda>p. (wc_sock t p, d)) ps"
    "ws_targets s' = ws_targets t @ map (wc_ident t) ps"
    using Cons.IH [OF t(2,3)] by blast
  have "map (\<lambda>p. (wc_sock t p, d)) ps = map (\<lambda>p. (wc_sock s p, d)) ps" "map (wc_ident t) ps = map (wc_ident s) ps"
    using t(8) Cons.prems(3,4) by auto
  then show ?case using t(1,4,5,7) s' by (intro exI [of _ s']) (auto simp: seqE_def bindE_def)
qed

text \<open>
  C26 Where every connection is the one known under its identifier, a broadcast is defined
  whatever fails: the message is given to \<open>WSASend\<close> once for every connection, in the order
  of the container, one identifier is queued for each, and the invariant is kept; connections
  may only be lost.
\<close>

theorem win_broadcast_reaches_all:
  assumes "win_inv s" and "win_registered s"
  shows "\<exists>s'. WinServer_broadcast K d s = (Inr (), s') \<and> win_inv s' \<and> win_registered s' \<and>
    set (w_mContainer s') \<subseteq> set (w_mContainer s) \<and>
    win_sends (w_trace s') = win_sends (w_trace s) @ map (\<lambda>p. (wc_sock s p, d)) (w_mContainer s) \<and>
    ws_targets s' = ws_targets s @ map (wc_ident s) (w_mContainer s)"
  using broadcast_loop [OF assms order_refl win_invD(4) [OF assms(1)]]
  by (simp add: WinServer_broadcast_def WinConnections_getConnections_def bindE_def act_simps)

theorem win_broadcast_reaches_all_witness:
  "\<exists>s'. WinServer_broadcast (sending_kernel SOCKET_ERROR WSAECONNRESET) ''all'' sample_win_server = (Inr (), s') \<and>
    win_inv s' \<and> win_sends (w_trace s') = [(21, ''all''), (22, ''all'')] \<and>
    ws_targets s' = [''alice'', ''bob'']"
  using win_broadcast_reaches_all [OF sample_win_server_inv,
      of "sending_kernel SOCKET_ERROR WSAECONNRESET" "''all''"]
  by (auto simp: win_registered_def sample_win_server_def win_conn_def wc_ident_def wc_sock_def)

text \<open>
  Where two connections gave the same identifier, a broadcast that fails for the first one
  removes the second: removal looks the connection up under the identifier, which leads to the
  later one. The loop over the copied pointers then uses the destroyed connection, and the
  connection that failed stays open.
\<close>

theorem win_broadcast_duplicate_identifier:
  assumes "win_inv s" and "w_mContainer s = [p, q]" and "wc_ident s p = wc_ident s q"
    and "w_mMapping s (wc_ident s p) = Some q"
    and "\<forall>tr sck d. n_send K tr sck d = SOCKET_ERROR" and "\<forall>tr. n_last_error K tr \<noteq> WSA_IO_PENDING"
  shows "\<exists>s'. WinServer_broadcast K d s =
      (Inl (Undefined_behaviour ''use of a dead ServerConnection''), s') \<and>
    w_mContainer s' = [p] \<and> open_sockets (w_trace s') = open_sockets (w_trace s) - {wc_sock s q}"
proof -
  have ne: "p \<noteq> q" and mem: "p \<in> set (w_mContainer s)" using win_invD(4) [OF assms(1)] assms(2) by auto
  obtain tr where tr: "open_sockets tr = open_sockets (w_trace s)"
    "WinServer_send_connection K d p True s =
       (Inr (), win_removed q (s\<lparr>ws_targets := ws_targets s @ [wc_ident s p], w_trace := tr\<rparr>))"
    using send_connection_any [OF assms(1) win_live_mem [OF assms(1) mem] assms(4), of d K] assms(5,6)
    by (auto simp: Let_def)
  let ?t = "win_removed q (s\<lparr>ws_targets := ws_targets s @ [wc_ident s p], w_trace := tr\<rparr>)"
  have "wc_heap ?t q = None" by (simp add: win_removed_def)
  then have "WinServer_send_connection K d q True ?t =
      (Inl (Undefined_behaviour ''use of a dead ServerConnection''), ?t)"
    by (simp add: WinServer_send_connection_def WinServerConnection_getIdentifier_def bindE_def act_simps)
  then have "WinServer_broadcast K d s = (Inl (Undefined_behaviour ''use of a dead ServerConnection''), ?t)"
    using tr(2) assms(2)
    by (simp add: WinServer_broadcast_def WinConnections_getConnections_def seqE_def bindE_def act_simps)
  then show ?thesis
    using assms(2) ne tr(1) by (intro exI [of _ ?t]) (simp add: win_removed_def open_sockets_append)
qed

text \<open>The sample server, where both clients gave the same identifier.\<close>

definition twin_win_server :: win_server where
  "twin_win_server =
     sample_win_server\<lparr>wc_heap := [1 \<mapsto> win_conn 11 21 ''alice'', 2 \<mapsto> win_conn 12 22 ''alice''],
       w_mMapping := [''alice'' \<mapsto> 2]\<rparr>"

theorem win_broadcast_duplicate_identifier_witness:
  "\<exists>s'. WinServer_broadcast (sending_kernel SOCKET_ERROR WSAECONNRESET) ''all'' twin_win_server =
      (Inl (Undefined_behaviour ''use of a dead ServerConnection''), s') \<and> w_mContainer s' = [1]"
proof -
  have "win_inv twin_win_server"
    by (auto simp: win_inv_def win_heaps_ok_def twin_win_server_def sample_win_server_def win_conn_def
        null_def wc_ident_def open_events_def split: if_splits)
  from win_broadcast_duplicate_identifier [OF this, of 1 2 "sending_kernel SOCKET_ERROR WSAECONNRESET" "''all''"]
  show ?thesis
    by (auto simp: twin_win_server_def sample_win_server_def win_conn_def wc_ident_def sending_kernel_def
        WSA_IO_PENDING_def WSAECONNRESET_def)
qed

end
