(* ===== verification/Windows_Server_Calls.thy ===== *)
theory Windows_Server_Calls
  imports Windows_Server_Sends
begin

text \<open>
  What single operations of the Winsock server do: a construction that succeeds or fails,
  destruction, the reports that follow a message, and overlapped operations that finish after
  their connection is gone.
\<close>

section \<open>Construction\<close>

text \<open>A server before its constructor runs: nothing is allocated.\<close>

definition win_unbuilt :: "'a win_server_scheme \<Rightarrow> bool" where
  "win_unbuilt s \<longleftrightarrow> ov_heap s = Map.empty \<and> wc_heap s = Map.empty \<and> ov_next s \<noteq> null \<and> wc_next s \<noteq> null"











lemma socket_events_neutral [simp]: "open_events (tr @ socket_events K tr') = open_events tr"
  by (simp add: open_events_append socket_events_def Let_def)











definition blank_win_server :: win_server where
  "blank_win_server =
     \<lparr>w_trace = [], ov_heap = Map.empty, ov_next = 1, wc_heap = Map.empty, wc_next = 1, w_mContainer = [],
      w_mMapping = Map.empty, ws_this = 9, ws_mOverlap = null, ws_mServerSocket = None,
      ws_mIncomingSocket = None, ws_targets = [], ws_mCallback = False, ws_mHasBeenShutdown = False,
      ws_mWaitingForEvents = False\<rparr>"

lemma blank_win_server_unbuilt: "win_unbuilt blank_win_server"
  by (simp add: win_unbuilt_def blank_win_server_def null_def)


text \<open>
  A server whose start-up fails never throws its exception: where \<open>WSAStartup\<close> fails, or
  the overlapped structure cannot be created, unwinding runs the destructor of the base class
  while \<open>mOverlap\<close> is still null, and it reads through the null pointer before it tests it.
\<close>

theorem win_startup_failure_undefined:
  assumes "win_unbuilt s"
    and "n_startup K (w_trace s) \<noteq> 0 \<or> n_startup K (w_trace s) = 0 \<and>
      \<not> (n_heap_alloc K (w_trace s @ [WE_startup 0]) \<and>
         overlap_event K (w_trace s @ [WE_startup 0]) \<noteq> WSA_INVALID_EVENT)"
  shows "\<exists>s'. WinServer_ctor K cb port s =
    (Inl (Undefined_behaviour ''use of a dead overlapped structure''), s')"
proof -
  let ?m = "seqE WinConnections_destructor (bindE (gets ws_mOverlap) Overlap_destructor)"
  have unwinding: "?m t = (Inl (Undefined_behaviour ''use of a dead overlapped structure''),
       t\<lparr>w_mContainer := [], w_mMapping := Map.empty\<rparr>)"
    if "w_mContainer t = []" "ws_mOverlap t = null" "ov_heap t null = None" for t :: "'a win_server_scheme"
    using that by (simp add: WinConnections_destructor_def seqE_def bindE_def act_simps overlap_destructor_null)
  let ?f = "WinServer_fields cb s"
  let ?r = "n_startup K (w_trace s)"
  let ?t = "?f\<lparr>w_trace := w_trace s @ [WE_startup ?r]\<rparr>"
  have t: "w_mContainer ?t = []" "ws_mOverlap ?t = null" "ov_heap ?t null = None" "ov_next ?t \<noteq> null"
    "w_trace ?f = w_trace s" "ws_this ?t = ws_this s"
    using assms(1) by (simp_all add: WinServer_fields_def win_unbuilt_def)
  show ?thesis
  proof (cases "?r = 0")
    case False
    then show ?thesis
      using t unwinding [OF t(1-3)]
      by (simp add: WinServer_ctor_def seqE_def bindE_def act_simps WSAStartup_def cleanupE_run(3))
  next
    case True
    with assms(2) have fail: "\<not> (n_heap_alloc K (w_trace ?t) \<and> overlap_event K (w_trace ?t) \<noteq> WSA_INVALID_EVENT)"
      by simp
    from createOverlap_fails [OF fail, of "ws_this s"] obtain w h n tr where
      u: "Overlap_createOverlap K (ws_this s) ?t = (Inl (Runtime_error w), ?t\<lparr>ov_heap := h, ov_next := n, w_trace := tr\<rparr>)"
      by blast
    let ?u = "?t\<lparr>ov_heap := h, ov_next := n, w_trace := tr\<rparr>"
    have "ov_heap ?u null = None" by (rule createOverlap_null [OF t(3,4) u])
    with t have "?m ?u = (Inl (Undefined_behaviour ''use of a dead overlapped structure''),
        ?u\<lparr>w_mContainer := [], w_mMapping := Map.empty\<rparr>)"
      by (intro unwinding) simp_all
    then show ?thesis
      using t u True
      by (simp add: WinServer_ctor_def seqE_def bindE_def act_simps WSAStartup_def cleanupE_run(3))
  qed
qed

theorem win_startup_failure_undefined_witness:
  "\<exists>s'. WinServer_ctor ((win_kernel (\<lambda>hs. (0, [])) (True, 0, []))\<lparr>n_startup := \<lambda>_. 10091\<rparr>) True 80
      blank_win_server = (Inl (Undefined_behaviour ''use of a dead overlapped structure''), s')"
  by (rule win_startup_failure_undefined [OF blank_win_server_unbuilt]) simp

section \<open>Destruction\<close>

lemma close_socket_run:
  "f s = Some sck \<Longrightarrow> WinServer_close_socket f s = (Inr (), s\<lparr>w_trace := w_trace s @
     [WE_recv_disconnect (win_mSocket sck), WE_send_disconnect (win_mSocket sck),
      WE_closesocket (win_mSocket sck)]\<rparr>)"
  by (simp add: WinServer_close_socket_def ws_socket_def WSARecvDisconnect_def WSASendDisconnect_def
      WinSocket_closeSocket_def closesocket_def seqE_def bindE_def act_simps)

lemma close_socket_null:
  "f s = None \<Longrightarrow> WinServer_close_socket f s = (Inl (Undefined_behaviour ''null socket''), s)"
  by (simp add: WinServer_close_socket_def ws_socket_def bindE_def act_simps)

text \<open>
  C29 Destroying a Winsock server that satisfies its invariant, listens and waits for a client
  closes the sockets of all registered connections, in the order of the container, the
  listening socket and the one for the next client, each with exactly one call of
  \<open>closesocket\<close>, and nothing else. The registered connections and the server's overlapped
  structure are freed; connections that were accepted and not yet registered stay as they are,
  with their sockets open.
\<close>

theorem win_server_destructor_closes_everything:
  assumes "win_inv s" and "ws_mServerSocket s = Some ls" and "ws_mIncomingSocket s = Some is"
  shows "\<exists>s'. WinServer_destructor s = (Inr (), s') \<and> w_mContainer s' = [] \<and>
    open_sockets (w_trace s') = open_sockets (w_trace s) - wc_sock s ` set (w_mContainer s) -
      {win_mSocket ls, win_mSocket is} \<and>
    sockets_closed (w_trace s') = sockets_closed (w_trace s) @ map (wc_sock s) (w_mContainer s) @
      [win_mSocket ls, win_mSocket is] \<and>
    (\<forall>p. wc_heap s' p = (if p \<in> set (w_mContainer s) then None else wc_heap s p)) \<and>
    ov_heap s' (ws_mOverlap s) = None"
proof -
  obtain t where t: "WinServer_shutdown s = (Inr (), t)" "win_inv t" "w_mContainer t = []"
    "open_sockets (w_trace t) = open_sockets (w_trace s) - wc_sock s ` set (w_mContainer s)"
    "\<forall>p \<in> set (w_mContainer s). wc_heap t p = None" "ws_mServerSocket t = Some ls"
    "\<forall>p. p \<notin> set (w_mContainer s) \<longrightarrow> wc_heap t p = wc_heap s p"
    "sockets_closed (w_trace t) = sockets_closed (w_trace s) @ map (wc_sock s) (w_mContainer s)"
    "ws_mIncomingSocket t = Some is" "ws_mOverlap t = ws_mOverlap s"
    using win_shutdown_run [OF assms(1)] assms(2,3) by auto
  obtain ov where ov: "ov_heap t (ws_mOverlap s) = Some ov" using win_invD(2) [OF t(2)] t(10) by auto
  have nn: "ws_mOverlap s \<noteq> null" using win_heaps_okD(5) [OF win_invD(1) [OF t(2)] ov] .
  have "\<exists>u. WinServer_destructor s = (Inr (), u) \<and> w_mContainer u = [] \<and>
      wc_heap u = wc_heap t \<and> ov_heap u = (ov_heap t)(ws_mOverlap s := None) \<and>
      w_trace u = w_trace t @ [WE_recv_disconnect (win_mSocket ls), WE_send_disconnect (win_mSocket ls),
        WE_closesocket (win_mSocket ls), WE_recv_disconnect (win_mSocket is),
        WE_send_disconnect (win_mSocket is), WE_closesocket (win_mSocket is),
        WE_close_event (hEvent ov), WE_heap_free (ws_mOverlap s)]"
    using t(1,3,6,9,10) ov nn
    by (simp add: WinServer_destructor_def WinConnections_destructor_def seqE_def bindE_def act_simps
        close_socket_run [where sck = ls] close_socket_run [where sck = "is"])
  then obtain u where u: "WinServer_destructor s = (Inr (), u)" "w_mContainer u = []" "wc_heap u = wc_heap t"
    "ov_heap u (ws_mOverlap s) = None"
    "open_sockets (w_trace u) = open_sockets (w_trace t) - {win_mSocket ls} - {win_mSocket is}"
    "sockets_closed (w_trace u) = sockets_closed (w_trace t) @ [win_mSocket ls, win_mSocket is]"
    by (auto simp: open_sockets_append)
  then show ?thesis using t(4,5,7,8) by (intro exI [of _ u]) auto
qed

theorem win_server_destructor_closes_everything_witness:
  "\<exists>s'. WinServer_destructor sample_win_server = (Inr (), s') \<and> open_sockets (w_trace s') = {} \<and>
    sockets_closed (w_trace s') = [21, 22, 31, 32]"
proof -
  have "open_sockets (w_trace sample_win_server) -
      wc_sock sample_win_server ` set (w_mContainer sample_win_server) - {31, 32} = {}"
    by (auto simp: sample_win_server_def open_sockets_def wc_sock_def win_conn_def INVALID_SOCKET_def)
  moreover have "sockets_closed (w_trace sample_win_server) @ map (wc_sock sample_win_server) (w_mContainer sample_win_server) @
      [31, 32] = [21, 22, 31, 32]"
    by (simp add: sample_win_server_def wc_sock_def win_conn_def)
  ultimately show ?thesis
    using win_server_destructor_closes_everything [OF sample_win_server_inv, of "\<lparr>win_mSocket = 31\<rparr>" "\<lparr>win_mSocket = 32\<rparr>"]
    by (auto simp: sample_win_server_def)
qed

section \<open>A client that cannot be received from\<close>

text \<open>The trace once the socket of a new client has its context.\<close>

definition accepted_trace :: "winsock \<Rightarrow> WinSocket \<Rightarrow> 'a win_server_scheme \<Rightarrow> win_event list" where
  "accepted_trace K is s =
     w_trace s @ [WE_setsockopt (win_mSocket is) SO_UPDATE_ACCEPT_CONTEXT 1
       (n_setsockopt K (w_trace s) (win_mSocket is) SO_UPDATE_ACCEPT_CONTEXT 1)]"

text \<open>
  Where \<open>WSARecv\<close> fails for a new client, the exception of \<open>addNewConnection\<close> leaves the
  server without a socket for the next client and never accepting again: the connection was
  already made from it, is in no container, and its socket stays open. Destroying the server
  then dereferences the null pointer.
\<close>

theorem win_failed_accept_breaks_destructor:
  assumes "win_inv s" and "ws_mServerSocket s = Some ls" and "ws_mIncomingSocket s = Some is"
    and "n_heap_alloc K (accepted_trace K is s)" and "overlap_event K (accepted_trace K is s) \<noteq> WSA_INVALID_EVENT"
    and "events_fresh K"
    and "\<forall>tr sck n. fst (n_recv K tr sck n) = SOCKET_ERROR" and "\<forall>tr. n_last_error K tr = WSAECONNRESET"
  shows "\<exists>w s' s''. WinServer_addNewConnection K s = (Inl (Runtime_error w), s') \<and>
    ws_mIncomingSocket s' = None \<and> w_mContainer s' = w_mContainer s \<and>
    wc_heap s' (wc_next s) \<noteq> None \<and> wc_sock s' (wc_next s) = win_mSocket is \<and>
    open_sockets (w_trace s') = open_sockets (w_trace s) \<and>
    WinServer_destructor s' = (Inl (Undefined_behaviour ''null socket''), s'')"
proof -
  let ?e = "WE_setsockopt (win_mSocket is) SO_UPDATE_ACCEPT_CONTEXT 1
    (n_setsockopt K (w_trace s) (win_mSocket is) SO_UPDATE_ACCEPT_CONTEXT 1)"
  let ?t = "s\<lparr>w_trace := w_trace s @ [?e]\<rparr>"
  let ?h = "overlap_event K (w_trace ?t)"
  let ?c = "(WinServerConnection_fields is (ws_this s) (wc_blank K))\<lparr>wsc_mOverlap := ov_next s\<rparr>"
  have e: "SOCKET_ERROR \<noteq> 0" "WSAECONNRESET \<noteq> WSA_IO_PENDING" by (simp_all add: winsock_constants)
  obtain g where g: "n_recv K tr sck n = (SOCKET_ERROR, g tr sck n)" for tr sck n
    using assms(7) by (intro that [of "\<lambda>tr sck n. snd (n_recv K tr sck n)"]) (simp add: prod_eq_iff)
  have new: "new_WinServerConnection K is (ws_this s) ?t = (Inr (wc_next s),
      ?t\<lparr>wc_heap := (wc_heap s)(wc_next s \<mapsto> ?c), wc_next := Suc (wc_next s),
         ov_heap := (ov_heap s)(ov_next s \<mapsto> \<lparr>hEvent = ?h, ov_derived = wc_next s\<rparr>),
         ov_next := Suc (ov_next s),
         w_trace := w_trace ?t @ [WE_heap_alloc True, WE_create_event ?h]\<rparr>)"
    using new_connection_ok [of K ?t "is" "ws_this s"] assms(4,5) by (simp add: accepted_trace_def)
  have "\<exists>w s'. WinServer_addNewConnection K s = (Inl (Runtime_error w), s') \<and>
    ws_mIncomingSocket s' = None \<and> w_mContainer s' = w_mContainer s \<and>
    wc_heap s' (wc_next s) = Some ?c \<and> open_sockets (w_trace s') = open_sockets (w_trace s) \<and>
    ws_mServerSocket s' = Some ls"
    using assms(2,3,8) e
    by (auto simp: WinServer_addNewConnection_def ws_socket_def win_setsockopt_def WSARecv_def
        WSAGetLastError_def seqE_def bindE_def act_simps new g open_sockets_append split: prod.split)
  then obtain w s' where s': "WinServer_addNewConnection K s = (Inl (Runtime_error w), s')"
    "ws_mIncomingSocket s' = None" "w_mContainer s' = w_mContainer s" "wc_heap s' (wc_next s) = Some ?c"
    "open_sockets (w_trace s') = open_sockets (w_trace s)" "ws_mServerSocket s' = Some ls"
    by blast
  have "win_inv s'"
    using keeps_faultD [OF keeps_add_new [OF assms(6)] assms(1) s'(1)] by simp
  then obtain u where u: "WinServer_shutdown s' = (Inr (), u)" "ws_mServerSocket u = Some ls"
    "ws_mIncomingSocket u = None"
    using win_shutdown_run s'(2,6) by metis
  have "\<exists>s''. WinServer_destructor s' = (Inl (Undefined_behaviour ''null socket''), s'')"
    using u by (simp add: WinServer_destructor_def seqE_def bindE_def act_simps
        close_socket_run [where sck = ls] close_socket_null)
  then show ?thesis using s' by (auto simp: wc_sock_def WinServerConnection_fields_def)
qed

theorem win_failed_accept_breaks_destructor_witness:
  "\<exists>w s' s''. WinServer_addNewConnection (sending_kernel 0 WSAECONNRESET) sample_win_server =
       (Inl (Runtime_error w), s') \<and>
     WinServer_destructor s' = (Inl (Undefined_behaviour ''null socket''), s'')"
proof -
  let ?K = "sending_kernel 0 WSAECONNRESET"
  have K: "n_heap_alloc ?K = (\<lambda>_. True)" "n_create_event ?K = fresh_event" "n_setsockopt ?K = (\<lambda>_ _ _ _. 0)"
    "\<forall>tr sck n. fst (n_recv ?K tr sck n) = SOCKET_ERROR" "\<forall>tr. n_last_error ?K tr = WSAECONNRESET"
    by (simp_all add: sending_kernel_def win_kernel_def)
  have fresh: "events_fresh ?K"
    using win_kernel_fresh [of "\<lambda>hs. (0, [])" "(True, 0, [])"] by (simp add: events_fresh_def sending_kernel_def)
  have "fresh_event (w_trace sample_win_server @ [WE_setsockopt 32 SO_UPDATE_ACCEPT_CONTEXT 1 0, WE_heap_alloc True]) = 1"
    by code_simp
  then have "overlap_event ?K (accepted_trace ?K \<lparr>win_mSocket = 32\<rparr> sample_win_server) \<noteq> WSA_INVALID_EVENT"
    by (simp add: overlap_event_def accepted_trace_def K WSA_INVALID_EVENT_def)
  then show ?thesis
    using win_failed_accept_breaks_destructor [OF sample_win_server_inv, of "\<lparr>win_mSocket = 31\<rparr>" "\<lparr>win_mSocket = 32\<rparr>" ?K]
      fresh K by (auto simp: sample_win_server_def)
qed

section \<open>Data and disconnects\<close>

text \<open>How a fetched result is handled: the data is stored, then reported.\<close>

lemma connection_event_run:
  assumes inv: "win_inv s" and p: "p \<in> set (w_mContainer s)" and c: "wc_heap s p = Some c"
    and res: "n_overlapped_result K (w_trace s) (wc_sock s p) (wc_overlap s p) True = (True, n, d)"
  defines "t \<equiv> s\<lparr>w_trace := w_trace s @ [WE_overlapped_result (wc_sock s p) (wc_overlap s p) True n True],
    wc_heap := (wc_heap s)(p \<mapsto> win_store_bytes d c)\<rparr>"
  shows "WinServer_handleConnectionEvent K (wc_handle s p) s = WinServer_received K (wc_handle s p) p n t"
    and "win_inv t" and "wc_handle t p = wc_handle s p" and "wc_sock t p = wc_sock s p"
    and "wc_ident t p = wc_ident s p" and "wc_overlap t p = wc_overlap s p"
proof -
  let ?u = "s\<lparr>w_trace := w_trace s @ [WE_overlapped_result (wc_sock s p) (wc_overlap s p) True n True]\<rparr>"
  have live: "wc_live s p" using win_live_mem [OF inv p] .
  then have "p \<noteq> null" by (simp add: wc_live_def)
  with live c res show "WinServer_handleConnectionEvent K (wc_handle s p) s = WinServer_received K (wc_handle s p) p n t"
    by (simp add: WinServer_handleConnectionEvent_def WSAGetOverlappedResult_def bindE_def seqE_def act_simps
        getServerConnection_win_run [OF win_inv_conns [OF inv] p] wc_sock_def wc_overlap_def t_def)
  have "win_inv ?u" by (rule win_inv_same [OF inv]) (simp_all add: open_events_append)
  from win_inv_store [OF this, of p c d] c show "win_inv t" by (simp add: t_def)
  show "wc_handle t p = wc_handle s p" "wc_sock t p = wc_sock s p" "wc_ident t p = wc_ident s p"
    "wc_overlap t p = wc_overlap s p"
    using c by (simp_all add: t_def wc_handle_def wc_sock_def wc_ident_def wc_overlap_def win_store_bytes_def)
qed

text \<open>
  C30 Data that arrives at a server with a callback that is not shut down is reported and the
  next receive queued, where \<open>WSARecv\<close> leaves it pending: when the result of a receive
  has \<open>n\<close> bytes, at least one and at most the buffer, the callback hears exactly these bytes
  under the identifier of the client, and a receive of the whole buffer is pending on the same
  socket and the same overlapped structure. The connection stays and the invariant holds.
\<close>

theorem win_receive_reports_and_requeues:
  assumes "win_inv s" and "p \<in> set (w_mContainer s)" and "ws_mCallback s" and "\<not> ws_mHasBeenShutdown s"
    and "n_overlapped_result K (w_trace s) (wc_sock s p) (wc_overlap s p) True = (True, n, d)"
    and "n \<noteq> 0" and "length d = unat n"
    and "\<forall>tr sck n. n_recv K tr sck n = (SOCKET_ERROR, 0, [])" and "\<forall>tr. n_last_error K tr = WSA_IO_PENDING"
  shows "\<exists>s'. WinServer_handleConnectionEvent K (wc_handle s p) s = (Inr (), s') \<and> win_inv s' \<and>
    win_callbacks (w_trace s') = win_callbacks (w_trace s) @ [WCb_receiveComplete (wc_ident s p) d] \<and>
    last (w_trace s') = WE_recv (wc_sock s p) (wsc_mDataLen (the (wc_heap s p))) (wc_overlap s p) No_routine SOCKET_ERROR \<and>
    w_mContainer s' = w_mContainer s"
proof -
  obtain c where c: "wc_heap s p = Some c" using win_invD(3) [OF assms(1,2)] by auto
  let ?t = "s\<lparr>w_trace := w_trace s @ [WE_overlapped_result (wc_sock s p) (wc_overlap s p) True n True],
    wc_heap := (wc_heap s)(p \<mapsto> win_store_bytes d c)\<rparr>"
  note ev = connection_event_run [OF assms(1,2) c assms(5)]
  obtain ov where ov: "ov_heap s (wsc_mOverlap c) = Some ov"
    using win_live_mem [OF assms(1,2)] c by (auto simp: wc_live_def)
  have buffer: "take (unat n) (wsc_mBuffer (win_store_bytes d c)) = d"
    using assms(7) by (simp add: win_store_bytes_def)
  have kept: "wsc_mIdentifier (win_store_bytes d c) = wsc_mIdentifier c" "wsc_mSocket (win_store_bytes d c) = wsc_mSocket c"
    "wsc_mOverlap (win_store_bytes d c) = wsc_mOverlap c" "wsc_mDataLen (win_store_bytes d c) = wsc_mDataLen c"
    by (simp_all add: win_store_bytes_def)
  let ?u = "?t\<lparr>w_trace := w_trace ?t @ [WE_callback (WCb_receiveComplete (wc_ident s p) d), WE_reset_event (hEvent ov),
    WE_recv (wc_sock s p) (wsc_mDataLen c) (wc_overlap s p) No_routine SOCKET_ERROR]\<rparr>"
  have "WinServer_received K (wc_handle s p) p n ?t = (Inr (), ?u)"
    using assms(3,4,6,8,9) ov c
    by (simp add: WinServer_received_def WinServer_getCallback_def call_win_callback_def
        WinServer_queueReceiveFromConnection_def WSAResetEvent_def WSARecv_def WSAGetLastError_def
        seqE_def bindE_def act_simps buffer kept wc_ident_def wc_sock_def wc_overlap_def)
  moreover have "win_inv ?u" by (rule win_inv_same [OF ev(2)]) (simp_all add: open_events_append)
  ultimately show ?thesis using ev(1) c by (intro exI [of _ ?u]) simp
qed

theorem win_receive_reports_and_requeues_witness:
  "\<exists>s'. WinServer_handleConnectionEvent (win_kernel (\<lambda>hs. (0, [])) (True, 2, ''hi'')) 102 sample_win_server = (Inr (), s') \<and>
    win_callbacks (w_trace s') = [WCb_receiveComplete ''bob'' ''hi''] \<and>
    last (w_trace s') = WE_recv 22 1024 12 No_routine SOCKET_ERROR"
proof -
  let ?K = "win_kernel (\<lambda>hs. (0, [])) (True, 2, ''hi'')"
  have K: "n_overlapped_result ?K = (\<lambda>_ _ _ _. (True, 2, ''hi''))" "n_recv ?K = (\<lambda>_ _ _. (SOCKET_ERROR, 0, []))"
    "n_last_error ?K = (\<lambda>_. WSA_IO_PENDING)"
    by (simp_all add: win_kernel_def)
  show ?thesis
    using win_receive_reports_and_requeues [OF sample_win_server_inv, of 2 ?K 2 "''hi''"]
    by (auto simp: K sample_win_server_def win_conn_def wc_ident_def wc_sock_def wc_overlap_def wc_handle_def
        WIN_MAX_BUFFER_SIZE_def)
qed

text \<open>
  A client that disconnects while a message to it is pending: the result of zero bytes is
  reported, the connection is removed with its overlapped structure, and its socket is closed;
  when the completion routine of the message then runs, it reads the structure that was freed.
\<close>

theorem win_disconnect_with_pending_send:
  assumes "win_inv s" and "p \<in> set (w_mContainer s)" and "ws_mCallback s"
    and "n_overlapped_result K (w_trace s) (wc_sock s p) (wc_overlap s p) True = (True, 0, d)"
  shows "\<exists>s' s''. WinServer_handleConnectionEvent K (wc_handle s p) s = (Inr (), s') \<and> win_inv s' \<and>
    win_callbacks (w_trace s') = win_callbacks (w_trace s) @ [WCb_disconnected (wc_ident s p)] \<and>
    w_mContainer s' = remove1 p (w_mContainer s) \<and>
    open_sockets (w_trace s') = open_sockets (w_trace s) - {wc_sock s p} \<and>
    WinServer_DataSentToClient (wc_overlap s p) n s' =
      (Inl (Undefined_behaviour ''use of a dead overlapped structure''), s'')"
proof -
  obtain c where c: "wc_heap s p = Some c" using win_invD(3) [OF assms(1,2)] by auto
  let ?t = "s\<lparr>w_trace := w_trace s @ [WE_overlapped_result (wc_sock s p) (wc_overlap s p) True 0 True],
    wc_heap := (wc_heap s)(p \<mapsto> win_store_bytes d c)\<rparr>"
  note ev = connection_event_run [OF assms(1,2) c assms(4)]
  let ?u = "?t\<lparr>w_trace := w_trace ?t @ [WE_callback (WCb_disconnected (wc_ident s p))]\<rparr>"
  have u: "win_inv ?u" by (rule win_inv_same [OF ev(2)]) (simp_all add: open_events_append)
  have mem: "p \<in> set (w_mContainer ?u)" using assms(2) by simp
  have "WinConnections_removeServerConnection (wc_handle s p) ?u = (Inr (), win_removed p ?u)"
    using removeServerConnection_win_run [OF win_inv_conns [OF u] mem] ev(3) by simp
  moreover have "WinServerConnection_getIdentifier p ?t = (Inr (wc_ident s p), ?t)"
    using c by (simp add: act_simps wc_ident_def win_store_bytes_def)
  ultimately have "WinServer_received K (wc_handle s p) p 0 ?t = (Inr (), win_removed p ?u)"
    using assms(3)
    by (simp add: WinServer_received_def WinServer_getCallback_def call_win_callback_def seqE_def bindE_def act_simps)
  moreover have "ov_heap (win_removed p ?u) (wc_overlap s p) = None"
    using ev(6) by (simp add: win_removed_def)
  then have "WinServer_DataSentToClient (wc_overlap s p) n (win_removed p ?u) =
      (Inl (Undefined_behaviour ''use of a dead overlapped structure''), win_removed p ?u)"
    by (simp add: WinServer_DataSentToClient_def bindE_def act_simps)
  ultimately show ?thesis
    using ev(1) win_removed_keeps [OF u mem] ev(4)
    by (intro exI [of _ "win_removed p ?u"]) (simp add: win_removed_def open_sockets_append)
qed

theorem win_disconnect_with_pending_send_witness:
  "\<exists>s' s''. WinServer_handleConnectionEvent (win_kernel (\<lambda>hs. (0, [])) (True, 0, [])) 102 sample_win_server = (Inr (), s') \<and>
    win_callbacks (w_trace s') = [WCb_disconnected ''bob''] \<and> w_mContainer s' = [1] \<and>
    WinServer_DataSentToClient 12 2 s' = (Inl (Undefined_behaviour ''use of a dead overlapped structure''), s'')"
proof -
  let ?K = "win_kernel (\<lambda>hs. (0, [])) (True, 0, [])"
  have K: "n_overlapped_result ?K = (\<lambda>_ _ _ _. (True, 0, []))" by (simp add: win_kernel_def)
  show ?thesis
    using win_disconnect_with_pending_send [OF sample_win_server_inv, of 2 ?K "[]" 2]
    by (auto simp: K sample_win_server_def win_conn_def wc_ident_def wc_sock_def wc_overlap_def wc_handle_def)
qed

end
