(* ===== verification/Windows_Client_Overlap.thy ===== *)
theory Windows_Client_Overlap
  imports Windows_Overlap
begin

text \<open>
  \<open>client/windows/Socket\<close> and \<open>client/windows/Overlap\<close>, with the buffer size of
  \<open>client/windows/Winsock2.h\<close>: the client library builds them from files of its own. They are modelled from those files; every operation is then shown
  to be the server library's, so that the client's proofs use one set of rules. The
  overlapped structures themselves live on the process heap, which is one for both.
\<close>

definition Client_MAX_BUFFER_SIZE :: nat where
  "Client_MAX_BUFFER_SIZE = 1024"

section \<open>The socket wrapper\<close>

record Client_WinSocket =
  cwin_mSocket :: SOCKET

definition Client_WinSocket_wrap :: "SOCKET \<Rightarrow> Client_WinSocket" where
  "Client_WinSocket_wrap sckt = \<lparr>cwin_mSocket = sckt\<rparr>"

definition Client_WinSocket_getSocket :: "Client_WinSocket \<Rightarrow> SOCKET" where
  "Client_WinSocket_getSocket sck = cwin_mSocket sck"

definition Client_WinSocket_new :: "winsock \<Rightarrow> ('a win_io_scheme, Client_WinSocket) act" where
  "Client_WinSocket_new K =
     bindE (WSASocket K) (\<lambda>sckt.
       if sckt = INVALID_SOCKET then throw_last_error K ''Socket Creation Error ''
       else
         bindE (win_setsockopt K sckt SO_SNDBUF 0) (\<lambda>_.
         ret \<lparr>cwin_mSocket = sckt\<rparr>))"

definition Client_WinSocket_closeSocket :: "Client_WinSocket \<Rightarrow> ('a win_io_scheme, unit) act" where
  "Client_WinSocket_closeSocket sck = closesocket (cwin_mSocket sck)"

section \<open>The overlapped structure\<close>

definition Client_Overlap_createOverlap :: "winsock \<Rightarrow> addr \<Rightarrow> ('a ov_io_scheme, addr) act" where
  "Client_Overlap_createOverlap K derived =
     bindE (HeapAlloc K) (\<lambda>ok.
       if \<not> ok then throw (Runtime_error ''Overlap HeapAlloc()'')
       else
         bindE ov_alloc (\<lambda>cOverlap.
         bindE (WSACreateEvent K) (\<lambda>h.
         seqE (ov_update cOverlap (\<lambda>ov. ov\<lparr>hEvent := h\<rparr>))
           (if h = WSA_INVALID_EVENT then throw (Runtime_error ''WSACreateEvent'')
            else
              seqE (ov_update cOverlap (\<lambda>ov. ov\<lparr>ov_derived := derived\<rparr>))
                (ret cOverlap)))))"

text \<open>
  The constructors of the template: the default one stores null, so that destroying an object
  whose overlapped structure was never created reads through null; the other one creates it.
\<close>

definition Client_Overlap_default :: addr where
  "Client_Overlap_default = null"

definition Client_Overlap_ctor :: "winsock \<Rightarrow> addr \<Rightarrow> ('a ov_io_scheme, addr) act" where
  "Client_Overlap_ctor K derived = Client_Overlap_createOverlap K derived"

definition Client_Overlap_destructor :: "addr \<Rightarrow> ('a ov_io_scheme, unit) act" where
  "Client_Overlap_destructor mOverlap =
     bindE (ov_deref mOverlap) (\<lambda>ov.
     seqE (WSACloseEvent (hEvent ov))
    (seqE (ov_update mOverlap (\<lambda>ov. ov\<lparr>hEvent := WSA_INVALID_EVENT\<rparr>))
       (whenE (mOverlap \<noteq> null)
          (seqE (w_emit (WE_heap_free mOverlap))
             (modify (\<lambda>s. s\<lparr>ov_heap := (ov_heap s)(mOverlap := None)\<rparr>))))))"

section \<open>The two libraries agree\<close>

lemma Client_WinSocket_accessors [simp]:
  "cwin_mSocket (Client_WinSocket_wrap sckt) = sckt"
  "Client_WinSocket_getSocket sck = cwin_mSocket sck"
  by (simp_all add: Client_WinSocket_wrap_def Client_WinSocket_getSocket_def)

lemma Client_WinSocket_new_server [simp]:
  "Client_WinSocket_new K =
     bindE (WinSocket_new K) (\<lambda>sck. ret (Client_WinSocket_wrap (WinSocket_getSocket sck)))"
  by (rule ext)
    (simp add: Client_WinSocket_new_def WinSocket_new_def Client_WinSocket_wrap_def WSASocket_def
      win_setsockopt_def throw_last_error_def WSAGetLastError_def throw_def bindE_def act_simps Let_def)

lemma Client_WinSocket_close_server [simp]:
  "Client_WinSocket_closeSocket sck = WinSocket_closeSocket (WinSocket_wrap (cwin_mSocket sck))"
  by (simp add: Client_WinSocket_closeSocket_def WinSocket_closeSocket_def)

lemma Client_Overlap_server [simp]:
  "Client_Overlap_default = Overlap_default"
  "Client_Overlap_ctor = Overlap_createOverlap"
  "Client_Overlap_createOverlap = Overlap_createOverlap"
  "Client_Overlap_destructor = Overlap_destructor"
  by ((intro ext)?, simp only: Client_Overlap_default_def Overlap_default_def Client_Overlap_ctor_def
      Client_Overlap_createOverlap_def Overlap_createOverlap_def
      Client_Overlap_destructor_def Overlap_destructor_def)+

end
