(* ===== verification/Windows_Client.thy ===== *)
theory Windows_Client
  imports Windows_Client_Overlap
begin

text \<open>
  \<open>windows/Client\<close> of the client: one connection on overlapped I/O, without completion
  routines. The source file uses members that its header does not declare (\<open>mConnected\<close>,
  \<open>mIdentifier\<close>, \<open>mSendBuffers\<close>) and operations that it does not declare (\<open>connect\<close>,
  \<open>waitForEvents\<close>, \<open>sendDataToServer\<close>); the definitions of the source file are modelled, with
  these members in the state. A member that no constructor sets starts with an indeterminate
  value of the parameter.

  \<open>waitForEvents\<close> is run over a schedule like that of the server: one list of waits for every
  turn, one list of the calls of other threads for every wait. A call of
  \<open>prepareClientToReceiveData\<close> may recurse as long as data is there at once; it is given fuel.
\<close>

section \<open>State\<close>

text \<open>
  \<open>wl_mOverlap\<close> is the member of the base class; \<open>wl_mSendOverlap\<close> is that of the object
  behind \<open>mSendOverlap\<close>, \<open>None\<close> while the pointer is indeterminate. \<open>wl_mSendBuffers\<close> is the
  queue of copies of messages that were given to \<open>WSASend\<close>.
\<close>

record win_client = ov_io +
  wl_this :: addr
  wl_mOverlap :: addr
  wl_mSocket :: SOCKET
  wl_mBytes :: DWORD
  wl_mBuffer :: bytes
  wl_mDataLen :: DWORD
  wl_mSendOverlap :: "addr option"
  wl_mSendBuffers :: "bytes list"
  wl_mConnected :: bool
  wl_mCallback :: bool
  wl_mIdentifier :: bytes

definition WinClient_getCallback :: "('a win_client_scheme, bool) act" where
  "WinClient_getCallback = gets wl_mCallback"

text \<open>\<open>mSendOverlap->getOverlap()\<close>.\<close>

definition wl_sendOverlap :: "('a win_client_scheme, addr) act" where
  "wl_sendOverlap =
     bindE (gets wl_mSendOverlap) (\<lambda>p.
       case p of
         None \<Rightarrow> throw (Undefined_behaviour ''indeterminate pointer'')
       | Some ov \<Rightarrow> ret ov)"

definition wl_store_bytes :: "bytes \<Rightarrow> 'a win_client_scheme \<Rightarrow> 'a win_client_scheme" where
  "wl_store_bytes d s = s\<lparr>wl_mBuffer := d @ drop (length d) (wl_mBuffer s)\<rparr>"

section \<open>Construction\<close>

definition WinClient_fields :: "winsock \<Rightarrow> 'a win_client_scheme \<Rightarrow> 'a win_client_scheme" where
  "WinClient_fields K s =
     s\<lparr>wl_mOverlap := null, wl_mSocket := n_indet_socket K, wl_mBytes := 0, wl_mBuffer := n_indet_bytes K,
       wl_mDataLen := n_indet_dword K, wl_mSendOverlap := None, wl_mSendBuffers := [],
       wl_mConnected := n_indet_bool K, wl_mCallback := True, wl_mIdentifier := []\<rparr>"

text \<open>A constructor that throws has its base destroyed.\<close>

definition WinClient_ctor :: "winsock \<Rightarrow> ('a win_client_scheme, unit) act" where
  "WinClient_ctor K =
     seqE (modify (WinClient_fields K))
       (cleanupE
         (bindE (WSAStartup K) (\<lambda>iResult.
          if iResult \<noteq> 0
          then seqE WSACleanup (throw (Runtime_error (''WSAStartup Error '' @ show_int iResult)))
          else skip))
         (bindE (gets wl_mOverlap) Client_Overlap_destructor))"

definition WinClient_destructor :: "('a win_client_scheme, unit) act" where
  "WinClient_destructor =
     bindE (gets wl_mSocket) (\<lambda>sckt.
     seqE (closesocket sckt)
    (seqE (modify (\<lambda>s. s\<lparr>wl_mSocket := INVALID_SOCKET\<rparr>))
    (seqE (bindE wl_sendOverlap Client_Overlap_destructor)
       (bindE (gets wl_mOverlap) Client_Overlap_destructor))))"

section \<open>Connecting\<close>

text \<open>
  \<open>prepareClientToReceiveData\<close>; the result says whether the call has returned within the
  fuel. The branch that destroys the client is there as it is in the source.
\<close>

primrec WinClient_prepareClientToReceiveData :: "winsock \<Rightarrow> nat \<Rightarrow> ('a win_client_scheme, bool) act" where
  "WinClient_prepareClientToReceiveData K 0 = ret False"
| "WinClient_prepareClientToReceiveData K (Suc fuel) =
     bindE (gets wl_mSocket) (\<lambda>sckt.
     bindE (gets wl_mDataLen) (\<lambda>len.
     bindE (gets wl_mOverlap) (\<lambda>ov.
     bindE (WSARecv K sckt len ov No_routine) (\<lambda>(r, nbBytesReceived, d).
     if r = SOCKET_ERROR
     then
       bindE (WSAGetLastError K) (\<lambda>lastError.
       if lastError \<noteq> WSA_IO_PENDING
       then throw_last_error K ''Error prepping client socket for receive''
       else seqE (whenE (lastError = WSAECONNRESET) WinClient_destructor) (ret True))
     else
       seqE (modify (wl_store_bytes d))
      (bindE WinClient_getCallback (\<lambda>callback.
       seqE (whenE callback
               (bindE (gets wl_mIdentifier) (\<lambda>ident.
                bindE (gets wl_mBuffer) (\<lambda>buffer.
                call_win_callback callback
                  (WCb_receiveComplete ident (take (unat nbBytesReceived) buffer))))))
         (WinClient_prepareClientToReceiveData K fuel)))))))"

text \<open>The loop over the addresses: a socket of its own for each, until one connects.\<close>

primrec WinClient_try_addresses :: "winsock \<Rightarrow> addr list \<Rightarrow> ('a win_client_scheme, unit) act" where
  "WinClient_try_addresses K [] = skip"
| "WinClient_try_addresses K (addrptr # rest) =
     bindE (Client_WinSocket_new K) (\<lambda>sck.
     bindE (WSAConnect K (Client_WinSocket_getSocket sck) addrptr) (\<lambda>r.
     if r = SOCKET_ERROR then WinClient_try_addresses K rest
     else modify (\<lambda>s. s\<lparr>wl_mSocket := Client_WinSocket_getSocket sck\<rparr>)))"

definition WinClient_connect :: "winsock \<Rightarrow> nat \<Rightarrow> string \<Rightarrow> 32 word \<Rightarrow> ('a win_client_scheme, bool) act" where
  "WinClient_connect K fuel hostname port =
     bindE (win_getaddrinfo K hostname (show_nat (unat port))) (\<lambda>(iResult, results).
     if iResult \<noteq> 0
     then seqE WSACleanup (throw (Runtime_error (''getaddrinfo failed: '' @ show_int iResult)))
     else if results = []
     then seqE WSACleanup (throw (Runtime_error (''no results for server '' @ hostname)))
     else
       seqE (WinClient_try_addresses K results)
      (seqE freeaddrinfo
      (bindE (gets wl_mSocket) (\<lambda>sckt.
       if sckt = 0 \<or> sckt = INVALID_SOCKET
       then throw (Runtime_error (''Failed to create client connection'' @ [CHR 0x0A]))
       else
         seqE (modify (\<lambda>s. s\<lparr>wl_mDataLen := of_nat Client_MAX_BUFFER_SIZE\<rparr>))
        (bindE (gets wl_this) (\<lambda>this.
         bindE (Client_Overlap_createOverlap K this) (\<lambda>ov.
         seqE (modify (\<lambda>s. s\<lparr>wl_mOverlap := ov\<rparr>))
        (bindE (Client_Overlap_ctor K this) (\<lambda>sendOv.
         seqE (modify (\<lambda>s. s\<lparr>wl_mSendOverlap := Some sendOv\<rparr>))
           (WinClient_prepareClientToReceiveData K fuel))))))))))"

section \<open>Sending and disconnecting\<close>

definition WinClient_sendDataToServer :: "winsock \<Rightarrow> bytes \<Rightarrow> ('a win_client_scheme, unit) act" where
  "WinClient_sendDataToServer K data =
     seqE (modify (\<lambda>s. s\<lparr>wl_mSendBuffers := wl_mSendBuffers s @ [data]\<rparr>))
    (bindE (gets wl_mSocket) (\<lambda>sckt.
     bindE wl_sendOverlap (\<lambda>ov.
     bindE (WSASend K sckt data ov No_routine) (\<lambda>iResult.
     if iResult = SOCKET_ERROR
     then
       bindE (WSAGetLastError K) (\<lambda>lastError.
       if lastError \<noteq> WSA_IO_PENDING then throw (Runtime_error ''not io pending'') else skip)
     else if iResult = 0
     then
       bindE (WSAGetOverlappedResult K sckt ov False) (\<lambda>(ok, nbBytes, d).
       whenE ok
         (bindE WinClient_getCallback (\<lambda>callback.
          whenE callback
            (bindE (gets wl_mIdentifier) (\<lambda>ident.
             call_win_callback callback (WCb_sendComplete ident nbBytes))))))
     else skip))))"

definition WinClient_disconnect :: "('a win_client_scheme, unit) act" where
  "WinClient_disconnect =
     bindE (gets wl_mConnected) (\<lambda>connected.
     whenE connected
       (seqE (modify (\<lambda>s. s\<lparr>wl_mConnected := False, wl_mCallback := False\<rparr>))
       (bindE (gets wl_mSocket) (\<lambda>sckt.
        seqE (win_plain_send sckt [])
       (bindE (gets wl_mOverlap) (\<lambda>p.
        bindE (ov_deref p) (\<lambda>ov.
        seqE (WSASetEvent (hEvent ov))
       (seqE (WSASendDisconnect sckt)
       (seqE (WSARecvDisconnect sckt)
          (Client_WinSocket_closeSocket (Client_WinSocket_wrap sckt)))))))))))"

section \<open>Waiting\<close>

text \<open>The calls of other threads; a runtime error goes to the thread that called.\<close>

datatype win_client_call = WSendData bytes | WDisconnect

fun WinClient_api :: "winsock \<Rightarrow> win_client_call \<Rightarrow> ('a win_client_scheme, unit) act" where
  "WinClient_api K (WSendData data) = WinClient_sendDataToServer K data"
| "WinClient_api K WDisconnect = WinClient_disconnect"

definition WinClient_other_threads :: "winsock \<Rightarrow> win_client_call list \<Rightarrow> ('a win_client_scheme, unit) act" where
  "WinClient_other_threads K calls = for_each (\<lambda>c. tryE (WinClient_api K c) (\<lambda>_. skip)) calls"

text \<open>
  The inner loop, from the test on; \<open>None\<close> while it still waits. No operation of the client
  has a completion routine, so none runs in its waits.
\<close>

primrec WinClient_wait_loop ::
    "winsock \<Rightarrow> HANDLE list \<Rightarrow> win_client_call list list \<Rightarrow> DWORD \<Rightarrow> ('a win_client_scheme, DWORD option) act" where
  "WinClient_wait_loop K handles [] wait_rc =
     bindE (gets wl_mConnected) (\<lambda>connected.
     ret (if wait_rc = WSA_WAIT_IO_COMPLETION \<and> connected then None else Some wait_rc))"
| "WinClient_wait_loop K handles (calls # waits) wait_rc =
     bindE (gets wl_mConnected) (\<lambda>connected.
     if wait_rc = WSA_WAIT_IO_COMPLETION \<and> connected
     then
       seqE (WinClient_other_threads K calls)
      (bindE (WSAWaitForMultipleEvents K handles) (\<lambda>(wait_rc, _).
       if wait_rc = WSA_WAIT_FAILED then throw_last_error K ''WSAWaitForMultipleEvents Error ''
       else WinClient_wait_loop K handles waits wait_rc))
     else ret (Some wait_rc))"

text \<open>\<open>case 0\<close>: the receive has a result.\<close>

definition WinClient_received :: "winsock \<Rightarrow> ('a win_client_scheme, unit) act" where
  "WinClient_received K =
     bindE (gets wl_mSocket) (\<lambda>sckt.
     bindE (gets wl_mOverlap) (\<lambda>ov.
     bindE (WSAGetOverlappedResult K sckt ov False) (\<lambda>(ok, nbBytes, d).
     whenE ok
       (seqE (modify (wl_store_bytes d))
       (bindE WinClient_getCallback (\<lambda>callback.
        whenE callback
          (bindE (gets wl_mIdentifier) (\<lambda>ident.
           bindE (gets wl_mBuffer) (\<lambda>buffer.
           call_win_callback callback (WCb_receiveComplete ident (take (unat nbBytes) buffer)))))))))))"

text \<open>\<open>case 1\<close>: a send has a result.\<close>

definition WinClient_sent :: "winsock \<Rightarrow> ('a win_client_scheme, unit) act" where
  "WinClient_sent K =
     bindE (gets wl_mSocket) (\<lambda>sckt.
     bindE wl_sendOverlap (\<lambda>ov.
     bindE (WSAGetOverlappedResult K sckt ov False) (\<lambda>(ok, nbBytes, d).
     whenE ok
       (bindE (gets wl_mSendBuffers) (\<lambda>buffers.
        case buffers of
          [] \<Rightarrow> throw (Undefined_behaviour ''front of an empty queue'')
        | buffer # rest \<Rightarrow>
            seqE (modify (\<lambda>s. s\<lparr>wl_mSendBuffers := rest\<rparr>))
           (bindE WinClient_getCallback (\<lambda>callback.
            whenE callback
              (bindE (gets wl_mIdentifier) (\<lambda>ident.
               call_win_callback callback (WCb_sendComplete ident nbBytes))))))))))"

definition WinClient_serve :: "winsock \<Rightarrow> HANDLE list \<Rightarrow> DWORD \<Rightarrow> ('a win_client_scheme, unit) act" where
  "WinClient_serve K handles wait_rc =
     (let index = sint (wait_rc - WSA_WAIT_EVENT_0) in
      if 2 \<le> index then throw (Runtime_error ''WSAWaitForMultipleEvents Returned invalid handle'')
      else
        seqE (if index = 0 then WinClient_received K
              else if index = 1 then WinClient_sent K
              else skip)
          (if 0 \<le> index then WSAResetEvent (handles ! nat index)
           else throw (Undefined_behaviour ''handle index out of range'')))"

text \<open>The loop of \<open>waitForEvents\<close>; the result says whether it has returned.\<close>

primrec WinClient_loop ::
    "winsock \<Rightarrow> HANDLE list \<Rightarrow> win_client_call list list list \<Rightarrow> ('a win_client_scheme, bool) act" where
  "WinClient_loop K handles [] = bindE (gets wl_mConnected) (\<lambda>connected. ret (\<not> connected))"
| "WinClient_loop K handles (waits # turns) =
     bindE (gets wl_mConnected) (\<lambda>connected.
     if \<not> connected then ret True
     else
       bindE (WinClient_wait_loop K handles waits WSA_WAIT_IO_COMPLETION) (\<lambda>r.
       case r of
         None \<Rightarrow> ret False
       | Some wait_rc \<Rightarrow>
           bindE (gets wl_mConnected) (\<lambda>connected.
           if \<not> connected then ret True
           else seqE (WinClient_serve K handles wait_rc) (WinClient_loop K handles turns))))"

definition WinClient_waitForEvents ::
    "winsock \<Rightarrow> win_client_call list list list \<Rightarrow> ('a win_client_scheme, bool) act" where
  "WinClient_waitForEvents K schedule =
     bindE (gets wl_mOverlap) (\<lambda>p.
     bindE (ov_deref p) (\<lambda>ov.
     bindE wl_sendOverlap (\<lambda>q.
     bindE (ov_deref q) (\<lambda>sendOv.
     WinClient_loop K [hEvent ov, hEvent sendOv] schedule))))"

end
