(* ===== verification/Windows_Client_Facts.thy ===== *)
theory Windows_Client_Facts
  imports Windows_Client
begin

text \<open>
  The Winsock client: its loop stays defined but never queues another receive; what connecting
  leaves open; how a receive that finds data at once ends; destruction and messages.
\<close>

section \<open>The invariant\<close>

text \<open>
  A client that has connected: the structures of its two overlaps are live and different.
\<close>

definition wl_inv :: "'a win_client_scheme \<Rightarrow> bool" where
  "wl_inv s \<longleftrightarrow>
     (\<exists>q. wl_mSendOverlap s = Some q \<and> q \<noteq> wl_mOverlap s \<and> q \<noteq> null \<and> wl_mOverlap s \<noteq> null \<and>
        ov_heap s q \<noteq> None \<and> ov_heap s (wl_mOverlap s) \<noteq> None)"

fun win_recv_of :: "win_event \<Rightarrow> SOCKET list" where
  "win_recv_of (WE_recv sck n ov routine r) = [sck]"
| "win_recv_of _ = []"

text \<open>The sockets of the receives that were queued, in order.\<close>

definition win_recvs :: "win_event list \<Rightarrow> SOCKET list" where
  "win_recvs tr = concat (map win_recv_of tr)"

lemma win_recvs_simps [simp]:
  "win_recvs [] = []" "win_recvs (a @ b) = win_recvs a @ win_recvs b"
  "win_recvs (e # a) = win_recv_of e @ win_recvs a"
  by (simp_all add: win_recvs_def)

text \<open>What every operation of a connected client keeps: the invariant and the receives.\<close>

definition wl_keeps :: "SOCKET list \<Rightarrow> 'a win_client_scheme \<Rightarrow> bool" where
  "wl_keeps rs s \<longleftrightarrow> wl_inv s \<and> win_recvs (w_trace s) = rs"

text \<open>
  How an operation may end otherwise: with a runtime error, or because the result of a send was
  fetched when no message was in the queue.
\<close>

definition wl_fault :: "SOCKET list \<Rightarrow> fault \<Rightarrow> 'a win_client_scheme \<Rightarrow> bool" where
  "wl_fault rs e s \<longleftrightarrow> wl_keeps rs s \<and>
     ((\<exists>w. e = Runtime_error w) \<or> e = Undefined_behaviour ''front of an empty queue'' \<and> wl_mSendBuffers s = [])"

text \<open>Documented of the wait: its result is failure, or a small number.\<close>

definition waits_documented :: "winsock \<Rightarrow> bool" where
  "waits_documented K \<longleftrightarrow>
     (\<forall>tr hs. fst (n_wait K tr hs) = WSA_WAIT_FAILED \<or> 0 \<le> sint (fst (n_wait K tr hs)))"

lemma wl_keeps_update:
  assumes "wl_keeps rs s"
  shows "wl_keeps rs (s\<lparr>wl_mSendBuffers := b\<rparr>)" "wl_keeps rs (s\<lparr>wl_mConnected := c\<rparr>)"
    "wl_keeps rs (s\<lparr>wl_mCallback := cb\<rparr>)" "wl_keeps rs (s\<lparr>wl_mConnected := c, wl_mCallback := cb\<rparr>)"
    "wl_keeps rs (wl_store_bytes d s)"
  using assms by (simp_all add: wl_keeps_def wl_inv_def wl_store_bytes_def)

lemma wl_keeps_emit:
  "wl_keeps rs s \<Longrightarrow> win_recv_of e = [] \<Longrightarrow> wl_keeps rs (s\<lparr>w_trace := w_trace s @ [e]\<rparr>)"
  by (simp add: wl_keeps_def wl_inv_def)

lemma wl_keepsE:
  assumes "wl_keeps rs s"
  obtains q ov ov' where "wl_mSendOverlap s = Some q" "ov_heap s (wl_mOverlap s) = Some ov" "ov_heap s q = Some ov'"
  using assms by (auto simp: wl_keeps_def wl_inv_def)

lemma wp_wl_sendOverlap:
  "wp wl_sendOverlap Q E s =
     (case wl_mSendOverlap s of
        None \<Rightarrow> E (Undefined_behaviour ''indeterminate pointer'') s
      | Some ov \<Rightarrow> Q ov s)"
  by (simp add: wl_sendOverlap_def wp_simps split: option.splits)

section \<open>The operations of a connected client\<close>

lemmas wl_wp = win_call_defs WinClient_getCallback_def wp_wl_sendOverlap

lemma wp_client_send:
  assumes "wl_keeps rs s"
  shows "wp (WinClient_sendDataToServer K d) (\<lambda>_. wl_keeps rs) (wl_fault rs) s"
  by (rule wl_keepsE [OF assms])
    (use assms in \<open>auto simp: WinClient_sendDataToServer_def wl_wp wp_simps wl_fault_def wl_keeps_def
      wl_inv_def split: prod.split\<close>)

lemma wp_client_disconnect:
  assumes "wl_keeps rs s"
  shows "wp WinClient_disconnect (\<lambda>_. wl_keeps rs) (wl_fault rs) s"
  by (rule wl_keepsE [OF assms])
    (use assms in \<open>auto simp: WinClient_disconnect_def WinSocket_closeSocket_def wl_wp wp_simps
      wl_keeps_def wl_inv_def\<close>)

lemma wp_client_other_threads:
  assumes "wl_keeps rs s"
  shows "wp (WinClient_other_threads K calls) (\<lambda>_. wl_keeps rs) (wl_fault rs) s"
proof -
  have "wp (tryE (WinClient_api K c) (\<lambda>_. skip)) (\<lambda>_. wl_keeps rs) (wl_fault rs) t"
    if "wl_keeps rs t" for c and t :: "'a win_client_scheme"
  proof -
    have "wp (WinClient_api K c) (\<lambda>_. wl_keeps rs) (wl_fault rs) t"
      using wp_client_send [OF that] wp_client_disconnect [OF that] by (cases c) simp_all
    then show ?thesis
      unfolding wp_tryE by (rule wp_mono) (auto simp: wp_skip wl_fault_def split: fault.split)
  qed
  then show ?thesis
    unfolding WinClient_other_threads_def by (intro wp_for_each assms)
qed

lemma wp_client_received:
  assumes "wl_keeps rs s"
  shows "wp (WinClient_received K) (\<lambda>_. wl_keeps rs) (wl_fault rs) s"
  using assms
  by (auto simp: WinClient_received_def wl_wp wp_simps wl_keeps_def wl_inv_def wl_store_bytes_def split: prod.split)

lemma wp_client_sent:
  assumes "wl_keeps rs s"
  shows "wp (WinClient_sent K) (\<lambda>_. wl_keeps rs) (wl_fault rs) s"
  by (rule wl_keepsE [OF assms])
    (use assms in \<open>auto simp: WinClient_sent_def wl_wp wp_simps wl_keeps_def wl_inv_def wl_fault_def
      split: prod.split list.split\<close>)

lemma wp_win_client_serve:
  assumes "wl_keeps rs s" and "0 \<le> sint wait_rc"
  shows "wp (WinClient_serve K hs wait_rc) (\<lambda>_. wl_keeps rs) (wl_fault rs) s"
proof -
  have reset: "wp (WSAResetEvent h) (\<lambda>_. wl_keeps rs) (wl_fault rs) t" if "wl_keeps rs t"
    for h and t :: "'a win_client_scheme"
    using wl_keeps_emit [OF that] by (simp add: WSAResetEvent_def wp_simps)
  have zero: "wp (seqE (WinClient_received K) (WSAResetEvent h)) (\<lambda>_. wl_keeps rs) (wl_fault rs) s" for h
    unfolding wp_seqE by (rule wp_mono [OF wp_client_received [OF assms(1)] reset])
  have one: "wp (seqE (WinClient_sent K) (WSAResetEvent h)) (\<lambda>_. wl_keeps rs) (wl_fault rs) s" for h
    unfolding wp_seqE by (rule wp_mono [OF wp_client_sent [OF assms(1)] reset])
  consider "2 \<le> sint wait_rc" | "sint wait_rc = 0" | "sint wait_rc = 1" using assms(2) by linarith
  then show ?thesis
    using assms(1) zero one
    by cases (simp_all add: WinClient_serve_def WSA_WAIT_EVENT_0_def wp_throw wl_fault_def)
qed

lemma wp_client_wait_loop:
  assumes "waits_documented K" and "wl_keeps rs s" and "0 \<le> sint wait_rc"
  shows "wp (WinClient_wait_loop K hs waits wait_rc)
    (\<lambda>r s'. wl_keeps rs s' \<and> (case r of None \<Rightarrow> wl_mConnected s' | Some rc \<Rightarrow> 0 \<le> sint rc)) (wl_fault rs) s"
  using assms(2,3)
proof (induction waits arbitrary: s wait_rc)
  case Nil
  then show ?case by (simp add: wp_simps)
next
  case (Cons calls waits)
  let ?Q = "\<lambda>r s'. wl_keeps rs s' \<and> (case r of None \<Rightarrow> wl_mConnected s' | Some rc \<Rightarrow> 0 \<le> sint rc)"
  have step: "wp (bindE (WSAWaitForMultipleEvents K hs) (\<lambda>(wait_rc, _).
       if wait_rc = WSA_WAIT_FAILED then throw_last_error K ''WSAWaitForMultipleEvents Error ''
       else WinClient_wait_loop K hs waits wait_rc)) ?Q (wl_fault rs) t"
    if t: "wl_keeps rs t" for t :: "'a win_client_scheme"
  proof -
    obtain rc fin where rc: "n_wait K (w_trace t) hs = (rc, fin)" by fastforce
    then have "rc = WSA_WAIT_FAILED \<or> 0 \<le> sint rc"
      using assms(1) by (metis fst_conv waits_documented_def)
    moreover have u: "wl_keeps rs (t\<lparr>w_trace := w_trace t @ [WE_wait hs rc fin]\<rparr>)"
      using wl_keeps_emit [OF t] by simp
    ultimately show ?thesis
      using Cons.IH [OF u, of rc]
      by (auto simp: WSAWaitForMultipleEvents_def wp_bindE wp_w_call rc wp_if wp_throw_last_error wl_fault_def [of rs "Runtime_error w" for w])
  qed
  have "wp (seqE (WinClient_other_threads K calls) (bindE (WSAWaitForMultipleEvents K hs) (\<lambda>(wait_rc, _).
       if wait_rc = WSA_WAIT_FAILED then throw_last_error K ''WSAWaitForMultipleEvents Error ''
       else WinClient_wait_loop K hs waits wait_rc))) ?Q (wl_fault rs) s"
    unfolding wp_seqE by (rule wp_mono [OF wp_client_other_threads [OF Cons.prems(1)] step])
  then show ?case using Cons.prems by (simp add: wp_bindE wp_gets wp_if wp_ret)
qed

lemma wp_win_client_loop:
  assumes "waits_documented K" and "wl_keeps rs s"
  shows "wp (WinClient_loop K hs turns) (\<lambda>returned s'. wl_keeps rs s' \<and> (returned \<longleftrightarrow> \<not> wl_mConnected s'))
    (wl_fault rs) s"
  using assms(2)
proof (induction turns arbitrary: s)
  case Nil
  then show ?case by (simp add: wp_simps)
next
  case (Cons waits turns)
  have "0 \<le> sint WSA_WAIT_IO_COMPLETION" by (simp add: WSA_WAIT_IO_COMPLETION_def)
  from wp_client_wait_loop [OF assms(1) Cons.prems this]
  have "wp (bindE (WinClient_wait_loop K hs waits WSA_WAIT_IO_COMPLETION) (\<lambda>r.
       case r of
         None \<Rightarrow> ret False
       | Some wait_rc \<Rightarrow>
           bindE (gets wl_mConnected) (\<lambda>connected.
           if \<not> connected then ret True
           else seqE (WinClient_serve K hs wait_rc) (WinClient_loop K hs turns))))
      (\<lambda>returned s'. wl_keeps rs s' \<and> (returned \<longleftrightarrow> \<not> wl_mConnected s')) (wl_fault rs) s"
    unfolding wp_bindE
    by (rule wp_mono)
      (auto simp: wp_ret wp_bindE wp_gets wp_if wp_seqE intro!: wp_mono [OF wp_win_client_serve Cons.IH]
        split: option.split)
  then show ?case using Cons.prems by (simp add: wp_bindE wp_gets wp_if wp_ret)
qed

section \<open>Waiting\<close>

lemma client_wait_keeps:
  assumes "waits_documented K" and "wl_keeps rs s"
  shows "wp (WinClient_waitForEvents K schedule)
    (\<lambda>returned s'. wl_keeps rs s' \<and> (returned \<longleftrightarrow> \<not> wl_mConnected s')) (wl_fault rs) s"
  by (rule wl_keepsE [OF assms(2)])
    (simp add: WinClient_waitForEvents_def wp_bindE wp_gets wp_ov_deref wp_wl_sendOverlap wp_win_client_loop [OF assms])

text \<open>
  C16 The loop of a Winsock client that satisfies its invariant is defined and keeps it, over any
  number of turns and waits, whatever other threads send and whenever they disconnect inside
  the wait, where the wait returns what it is documented to return: it has returned exactly if the client was disconnected, a runtime error leaves the client as
  usable, and undefined behaviour is reached only where the result of a send is fetched while
  no message is in the queue.
\<close>

theorem win_client_wait_is_defined:
  assumes "waits_documented K" and "wl_inv s" and "WinClient_waitForEvents K schedule s = (r, s')"
  shows "wl_inv s' \<and>
    (case r of
       Inr returned \<Rightarrow> returned \<longleftrightarrow> \<not> wl_mConnected s'
     | Inl e \<Rightarrow> (\<exists>w. e = Runtime_error w) \<or>
         e = Undefined_behaviour ''front of an empty queue'' \<and> wl_mSendBuffers s' = [])"
proof -
  let ?rs = "win_recvs (w_trace s)"
  have k: "wl_keeps ?rs s" using assms(2) by (simp add: wl_keeps_def)
  show ?thesis using client_wait_keeps [OF assms(1) k, of schedule] assms(3)
    by (cases r) (auto simp: wp_def wl_keeps_def wl_fault_def)
qed

text \<open>A connected client, with its two structures.\<close>

definition sample_win_client :: win_client where
  "sample_win_client =
     \<lparr>w_trace = [WE_socket 21, WE_recv 21 1024 11 No_routine (-1)],
      ov_heap = [11 \<mapsto> \<lparr>hEvent = 101, ov_derived = 9\<rparr>, 12 \<mapsto> \<lparr>hEvent = 102, ov_derived = 9\<rparr>],
      ov_next = 13, wl_this = 9, wl_mOverlap = 11, wl_mSocket = 21, wl_mBytes = 0,
      wl_mBuffer = replicate 4 (char_of (0::nat)), wl_mDataLen = 1024, wl_mSendOverlap = Some 12,
      wl_mSendBuffers = [], wl_mConnected = True, wl_mCallback = True, wl_mIdentifier = ''server''\<rparr>"

lemma sample_win_client_inv: "wl_inv sample_win_client"
  by (simp add: wl_inv_def sample_win_client_def null_def)

text \<open>A Winsock for the client: the waits and the results are scripted, sends and receives pend.\<close>

definition client_kernel :: "DWORD \<Rightarrow> (bool \<times> DWORD \<times> bytes) \<Rightarrow> winsock" where
  "client_kernel rc res =
     \<lparr>n_startup = \<lambda>_. 0, n_heap_alloc = \<lambda>_. True, n_create_event = \<lambda>tr. of_nat (length tr) + 1,
      n_socket = \<lambda>tr. if 100 \<in> open_sockets tr then INVALID_SOCKET else 100, n_setsockopt = \<lambda>_ _ _ _. 0,
      n_getaddrinfo = \<lambda>_ _ _. (0, [1, 2]), n_bind = \<lambda>_ _ _. 0, n_listen = \<lambda>_ _ _. 0, n_ioctl = \<lambda>_ _. 0,
      n_acceptex = \<lambda>_ _ _ _. True, n_connect = \<lambda>_ _ _. 0, n_send = \<lambda>_ _ _. SOCKET_ERROR,
      n_recv = \<lambda>_ _ _. (SOCKET_ERROR, 0, []), n_wait = \<lambda>_ _. (rc, []), n_overlapped_result = \<lambda>_ _ _ _. res,
      n_last_error = \<lambda>_. WSA_IO_PENDING, n_indet_socket = 0, n_indet_dword = 0, n_indet_bool = False,
      n_indet_bytes = []\<rparr>"

lemma client_kernel_waits: "0 \<le> sint rc \<Longrightarrow> waits_documented (client_kernel rc res)"
  by (simp add: waits_documented_def client_kernel_def)

theorem win_client_wait_is_defined_witness:
  "\<exists>r s'. WinClient_waitForEvents (client_kernel 0 (True, 2, ''hi''))
       [[[WSendData ''ping''], [WDisconnect]], [[WDisconnect]]] sample_win_client = (r, s') \<and> wl_inv s'"
proof -
  obtain r s' where run: "WinClient_waitForEvents (client_kernel 0 (True, 2, ''hi''))
       [[[WSendData ''ping''], [WDisconnect]], [[WDisconnect]]] sample_win_client = (r, s')" by fastforce
  have "waits_documented (client_kernel 0 (True, 2, ''hi''))" by (rule client_kernel_waits) simp
  from win_client_wait_is_defined [OF this sample_win_client_inv run] run show ?thesis by blast
qed

text \<open>
  C34 The client hears the server once: \<open>waitForEvents\<close> never queues another receive after the
  one that \<open>connect\<close> queued, over any schedule and however it ends, so nothing that arrives
  after the first result can be received.
\<close>

theorem win_client_never_receives_again:
  assumes "waits_documented K" and "wl_inv s" and "WinClient_waitForEvents K schedule s = (r, s')"
  shows "win_recvs (w_trace s') = win_recvs (w_trace s)"
proof -
  let ?rs = "win_recvs (w_trace s)"
  have k: "wl_keeps ?rs s" using assms(2) by (simp add: wl_keeps_def)
  show ?thesis using client_wait_keeps [OF assms(1) k, of schedule] assms(3)
    by (cases r) (auto simp: wp_def wl_keeps_def wl_fault_def)
qed

theorem win_client_never_receives_again_witness:
  "\<exists>r s'. WinClient_waitForEvents (client_kernel 0 (True, 2, ''hi'')) [[[]]] sample_win_client = (r, s') \<and>
     win_callbacks (w_trace s') = [WCb_receiveComplete ''server'' ''hi''] \<and> win_recvs (w_trace s') = [21]"
proof -
  let ?K = "client_kernel 0 (True, 2, ''hi'')"
  let ?run = "WinClient_waitForEvents ?K [[[]]] sample_win_client"
  obtain r s' where run: "?run = (r, s')" by fastforce
  have "win_callbacks (w_trace (snd ?run)) = [WCb_receiveComplete ''server'' ''hi'']" by code_simp
  moreover have "waits_documented ?K" by (rule client_kernel_waits) simp
  ultimately show ?thesis
    using win_client_never_receives_again [OF _ sample_win_client_inv run] run
    by (simp add: sample_win_client_def)
qed

section \<open>A receive that finds data\<close>

text \<open>
  The receives from the \<open>n\<close>-th on find these pieces of data at once; the one after them is
  pending.
\<close>

primrec immediate_data :: "winsock \<Rightarrow> nat \<Rightarrow> bytes list \<Rightarrow> bool" where
  "immediate_data K n [] \<longleftrightarrow>
     (\<forall>tr sck len. length (win_recvs tr) = n \<longrightarrow> n_recv K tr sck len = (SOCKET_ERROR, 0, []))"
| "immediate_data K n (d # ds) \<longleftrightarrow>
     length d < 2 ^ 32 \<and>
     (\<forall>tr sck len. length (win_recvs tr) = n \<longrightarrow> n_recv K tr sck len = (0, of_nat (length d), d)) \<and>
     immediate_data K (Suc n) ds"

text \<open>
  C33 The recursion of \<open>prepareClientToReceiveData\<close> ends when no more data is there: one level
  per piece of data and one for the receive that pends are enough. Every piece has been
  reported, whole and in order, and one receive is pending.
\<close>

theorem win_client_receive_terminates:
  assumes "immediate_data K (length (win_recvs (w_trace s))) ds" and "\<forall>tr. n_last_error K tr = WSA_IO_PENDING"
    and "length ds < fuel" and "wl_mCallback s"
  shows "\<exists>s'. WinClient_prepareClientToReceiveData K fuel s = (Inr True, s') \<and>
    win_callbacks (w_trace s') = win_callbacks (w_trace s) @ map (WCb_receiveComplete (wl_mIdentifier s)) ds \<and>
    length (win_recvs (w_trace s')) = length (win_recvs (w_trace s)) + length ds + 1"
  using assms(1,3,4)
proof (induction ds arbitrary: s fuel)
  case Nil
  then obtain fuel' where "fuel = Suc fuel'" by (cases fuel) auto
  with Nil assms(2) show ?case
    by (simp add: WSARecv_def WSAGetLastError_def bindE_def seqE_def act_simps WSA_IO_PENDING_def WSAECONNRESET_def)
next
  case (Cons d ds)
  then obtain fuel' where fuel: "fuel = Suc fuel'" by (cases fuel) auto
  have n: "unat (of_nat (length d) :: DWORD) = length d" "(0::int) \<noteq> SOCKET_ERROR"
    using Cons.prems(1) by (simp_all add: unat_of_nat SOCKET_ERROR_def)
  let ?t = "(wl_store_bytes d s)\<lparr>w_trace := w_trace s @ [WE_recv (wl_mSocket s) (wl_mDataLen s) (wl_mOverlap s) No_routine 0,
     WE_callback (WCb_receiveComplete (wl_mIdentifier s) d)]\<rparr>"
  have t: "WinClient_prepareClientToReceiveData K fuel s = WinClient_prepareClientToReceiveData K fuel' ?t"
    using Cons.prems n
    by (simp add: fuel WSARecv_def WinClient_getCallback_def call_win_callback_def bindE_def seqE_def
        act_simps wl_store_bytes_def)
  have "immediate_data K (length (win_recvs (w_trace ?t))) ds" "length ds < fuel'" "wl_mCallback ?t"
    using Cons.prems by (simp_all add: fuel wl_store_bytes_def)
  from Cons.IH [OF this] obtain s' where
    "WinClient_prepareClientToReceiveData K fuel' ?t = (Inr True, s')"
    "win_callbacks (w_trace s') = win_callbacks (w_trace ?t) @ map (WCb_receiveComplete (wl_mIdentifier ?t)) ds"
    "length (win_recvs (w_trace s')) = length (win_recvs (w_trace ?t)) + length ds + 1"
    by blast
  with t show ?case by (auto simp: wl_store_bytes_def)
qed

definition chatty_kernel :: winsock where
  "chatty_kernel = (client_kernel 0 (True, 0, []))
     \<lparr>n_recv := \<lambda>tr sck n. if length (win_recvs tr) = 1 then (0, 2, ''hi'') else (SOCKET_ERROR, 0, [])\<rparr>"

theorem win_client_receive_terminates_witness:
  "\<exists>s'. WinClient_prepareClientToReceiveData chatty_kernel 2 sample_win_client = (Inr True, s') \<and>
     win_callbacks (w_trace s') = [WCb_receiveComplete ''server'' ''hi''] \<and> length (win_recvs (w_trace s')) = 3"
proof -
  have "immediate_data chatty_kernel 1 [''hi'']" "\<forall>tr. n_last_error chatty_kernel tr = WSA_IO_PENDING"
    by (simp_all add: chatty_kernel_def client_kernel_def)
  then show ?thesis
    using win_client_receive_terminates [of chatty_kernel sample_win_client "[''hi'']" 2]
    by (auto simp: sample_win_client_def numeral_3_eq_3)
qed

section \<open>Connecting\<close>

fun win_connect_of :: "win_event \<Rightarrow> (SOCKET \<times> addr) list" where
  "win_connect_of (WE_connect sck a r) = [(sck, a)]"
| "win_connect_of _ = []"

text \<open>The attempts to connect, in order.\<close>

definition win_connects :: "win_event list \<Rightarrow> (SOCKET \<times> addr) list" where
  "win_connects tr = concat (map win_connect_of tr)"

lemma win_connects_simps [simp]:
  "win_connects [] = []" "win_connects (a @ b) = win_connects a @ win_connects b"
  "win_connects (e # a) = win_connect_of e @ win_connects a"
  by (simp_all add: win_connects_def)

text \<open>Documented of \<open>WSASocket\<close>: a socket it gives is not an open one.\<close>

definition sockets_fresh :: "winsock \<Rightarrow> bool" where
  "sockets_fresh K \<longleftrightarrow>
     (\<forall>tr. n_socket K tr \<noteq> INVALID_SOCKET \<longrightarrow> n_socket K tr \<notin> open_sockets tr)"

text \<open>As many sockets were opened since a state as addresses were tried.\<close>

definition opened_with :: "nat \<Rightarrow> nat \<Rightarrow> 'a win_client_scheme \<Rightarrow> bool" where
  "opened_with m n s \<longleftrightarrow> card (open_sockets (w_trace s)) + m = length (win_connects (w_trace s)) + n"

lemma opened_with_same:
  "opened_with m n s \<Longrightarrow> open_sockets (w_trace t) = open_sockets (w_trace s) \<Longrightarrow>
     win_connects (w_trace t) = win_connects (w_trace s) \<Longrightarrow> opened_with m n t"
  by (simp add: opened_with_def)

lemma keeps_opened_fields:
  "(\<And>s. w_trace (f s) = w_trace s) \<Longrightarrow> keeps ub (opened_with m n) (modify f)"
  by (rule keeps_modify) (simp add: opened_with_def)

lemma keeps_opened_emit:
  assumes "\<And>tr. open_sockets (tr @ [e]) = open_sockets tr" and "win_connect_of e = []"
  shows "keeps ub (opened_with m n) (w_emit e)"
  unfolding w_emit_def by (rule keeps_modify) (simp add: opened_with_def assms)

lemma keeps_opened_call:
  assumes "\<And>tr r. open_sockets (tr @ [ev r]) = open_sockets tr" and "\<And>r. win_connect_of (ev r) = []"
  shows "keeps ub (opened_with m n) (w_call f ev)"
  unfolding w_call_def by (intro keeps_intros keeps_opened_emit assms)

lemma keeps_opened_callback: "cb \<Longrightarrow> keeps ub (opened_with m n) (call_win_callback cb e)"
  by (simp add: call_win_callback_def keeps_opened_emit open_sockets_append)

lemmas keeps_opened =
  keeps_intros keeps_opened_fields keeps_opened_emit keeps_opened_call keeps_opened_callback

lemma keeps_opened_create: "keeps False (opened_with m n) (Overlap_createOverlap K p)"
  by (rule keepsI)
    (auto simp: Overlap_createOverlap_def HeapAlloc_def WSACreateEvent_def wp_simps opened_with_def
      open_sockets_append)

lemma keeps_opened_receive:
  "keeps False (opened_with m n) (WinClient_prepareClientToReceiveData K fuel)"
proof (induction fuel)
  case 0
  show ?case by (simp add: keeps_intros)
next
  case (Suc fuel)
  have "WSA_IO_PENDING \<noteq> WSAECONNRESET" by (simp add: winsock_constants)
  then show ?case
    unfolding WinClient_prepareClientToReceiveData.simps WSARecv_def WSAGetLastError_def
      WinClient_getCallback_def throw_last_error_def
    by (intro keeps_opened Suc) (simp_all add: open_sockets_append wl_store_bytes_def)
qed

lemma keeps_opened_addresses:
  assumes "sockets_fresh K"
  shows "keeps False (opened_with m n) (WinClient_try_addresses K as)"
proof (induction as)
  case Nil
  show ?case by (simp add: keeps_intros)
next
  case (Cons a as)
  show ?case
  proof (rule keepsI)
    fix s :: "'a win_client_scheme"
    assume s: "opened_with m n s"
    let ?sck = "n_socket K (w_trace s)"
    let ?t = "s\<lparr>w_trace := w_trace s @ socket_events K (w_trace s)\<rparr>"
    let ?r = "n_connect K (w_trace ?t) ?sck a"
    let ?u = "\<lambda>r. ?t\<lparr>w_trace := w_trace ?t @ [WE_connect ?sck a r]\<rparr>"
    let ?wp = "wp (WinClient_try_addresses K (a # as)) (\<lambda>_. opened_with m n) (after_fault False (opened_with m n)) s"
    show ?wp
    proof (cases "?sck = INVALID_SOCKET")
      case True
      then show ?thesis
        using s by (simp add: wp_simps Let_def socket_events_def opened_with_def open_sockets_append)
    next
      case False
      then have "?sck \<notin> open_sockets (w_trace s)" using assms by (simp add: sockets_fresh_def)
      then have u: "opened_with m n (?u r)" for r
        using s False by (simp add: opened_with_def open_sockets_append socket_events_def Let_def)
      have wp: "?wp = wp (if ?r = SOCKET_ERROR then WinClient_try_addresses K as
          else modify (\<lambda>s. s\<lparr>wl_mSocket := ?sck\<rparr>)) (\<lambda>_. opened_with m n)
          (after_fault False (opened_with m n)) (?u ?r)"
        using False by (simp add: wp_bindE wp_ret wp_WinSocket_new Let_def WSAConnect_def wp_w_call)
      have "keeps False (opened_with m n) (if ?r = SOCKET_ERROR then WinClient_try_addresses K as
          else modify (\<lambda>s :: 'a win_client_scheme. s\<lparr>wl_mSocket := ?sck\<rparr>))"
        by (intro keeps_intros Cons) (simp add: opened_with_def)
      then show ?thesis unfolding wp using u [of ?r] by (rule keeps_wp)
    qed
  qed
qed

text \<open>
  Every address that \<open>connect\<close> tries costs a socket that stays open: however the call ends,
  as many sockets were opened as addresses were tried, and none was closed, those that failed
  to connect included.
\<close>

theorem win_client_connect_leaks_failed_sockets:
  assumes "sockets_fresh K" and "WinClient_connect K fuel host port s = (r, s')"
  shows "card (open_sockets (w_trace s')) + length (win_connects (w_trace s)) =
    card (open_sockets (w_trace s)) + length (win_connects (w_trace s'))"
proof -
  let ?m = "length (win_connects (w_trace s))"
  let ?n = "card (open_sockets (w_trace s))"
  have "keeps False (opened_with ?m ?n) (WinClient_connect K fuel host port)"
    unfolding WinClient_connect_def win_getaddrinfo_def freeaddrinfo_def WSACleanup_def Client_Overlap_server
    by (intro keeps_opened keeps_opened_addresses [OF assms(1)] keeps_opened_create keeps_opened_receive)
      (simp_all add: open_sockets_append)
  then have "wp (WinClient_connect K fuel host port) (\<lambda>_. opened_with ?m ?n) (after_fault False (opened_with ?m ?n)) s"
    by (rule keeps_wp) (simp add: opened_with_def)
  with assms(2) show ?thesis
    by (cases r; cases "projl r") (auto simp: wp_def opened_with_def after_fault_def)
qed

text \<open>A client that was constructed; the first address refuses, the second accepts.\<close>

definition fresh_win_client :: win_client where
  "fresh_win_client =
     sample_win_client\<lparr>w_trace := [], ov_heap := Map.empty, wl_mOverlap := null, wl_mSocket := 0,
       wl_mSendOverlap := None, wl_mConnected := False\<rparr>"

definition two_address_kernel :: winsock where
  "two_address_kernel = (client_kernel 0 (True, 0, []))
     \<lparr>n_socket := \<lambda>tr. case filter (\<lambda>sck. sck \<notin> open_sockets tr) [100, 101, 102] of [] \<Rightarrow> INVALID_SOCKET | sck # _ \<Rightarrow> sck,
      n_connect := \<lambda>_ _ a. if a = 1 then SOCKET_ERROR else 0\<rparr>"

theorem win_client_connect_leaks_failed_sockets_witness:
  "\<exists>r s'. WinClient_connect two_address_kernel 1 ''host'' 80 fresh_win_client = (r, s') \<and>
     wl_mSocket s' = 101 \<and> card (open_sockets (w_trace s')) = 2"
proof -
  let ?run = "WinClient_connect two_address_kernel 1 ''host'' 80 fresh_win_client"
  obtain r s' where run: "?run = (r, s')" by fastforce
  have "win_connects (w_trace (snd ?run)) = [(100, 1), (101, 2)] \<and> wl_mSocket (snd ?run) = 101" by code_simp
  moreover have "sockets_fresh two_address_kernel"
    by (auto simp: sockets_fresh_def two_address_kernel_def filter_eq_Cons_iff split: list.splits)
  ultimately show ?thesis
    using win_client_connect_leaks_failed_sockets [OF _ run] run
    by (simp add: fresh_win_client_def open_sockets_def)
qed

section \<open>Destruction\<close>

text \<open>
  Destroying a client that never connected is undefined: its constructor leaves
  \<open>mSendOverlap\<close> indeterminate and \<open>mOverlap\<close> null, and the destructor closes a socket it never
  opened and deletes the indeterminate pointer. Where \<open>WSAStartup\<close> fails, the exception does
  not arrive either: unwinding destroys the base, which reads through the null pointer.
\<close>

theorem win_client_unconnected_destructor_undefined:
  assumes "ov_heap s null = None"
  shows "if n_startup K (w_trace s) = 0
    then \<exists>s' s''. WinClient_ctor K s = (Inr (), s') \<and>
      WinClient_destructor s' = (Inl (Undefined_behaviour ''indeterminate pointer''), s'') \<and>
      last (w_trace s'') = WE_closesocket (n_indet_socket K)
    else \<exists>s'. WinClient_ctor K s = (Inl (Undefined_behaviour ''use of a dead overlapped structure''), s')"
  using assms
  by (simp add: WinClient_ctor_def WinClient_fields_def WinClient_destructor_def wl_sendOverlap_def
      WSAStartup_def WSACleanup_def closesocket_def seqE_def bindE_def act_simps overlap_destructor_null cleanupE_run)

theorem win_client_unconnected_destructor_undefined_witness:
  "\<exists>s' s''. WinClient_ctor (client_kernel 0 (True, 0, [])) fresh_win_client = (Inr (), s') \<and>
     WinClient_destructor s' = (Inl (Undefined_behaviour ''indeterminate pointer''), s'')"
  using win_client_unconnected_destructor_undefined [of fresh_win_client "client_kernel 0 (True, 0, [])"]
  by (auto simp: fresh_win_client_def client_kernel_def)

text \<open>The sockets that were closed, in order.\<close>

fun win_close_of :: "win_event \<Rightarrow> SOCKET list" where
  "win_close_of (WE_closesocket sck) = [sck]"
| "win_close_of _ = []"

definition win_closes :: "win_event list \<Rightarrow> SOCKET list" where
  "win_closes tr = concat (map win_close_of tr)"

text \<open>
  A client that disconnects closes its socket, and its destructor closes it again:
  \<open>disconnect\<close> closes through a second object and keeps \<open>mSocket\<close>. Otherwise both run through,
  and both structures are freed.
\<close>

theorem win_client_disconnect_then_destructor_closes_twice:
  assumes "wl_inv s" and "wl_mConnected s"
  shows "\<exists>s'. seqE WinClient_disconnect WinClient_destructor s = (Inr (), s') \<and>
    win_closes (w_trace s') = win_closes (w_trace s) @ [wl_mSocket s, wl_mSocket s] \<and>
    ov_heap s' (wl_mOverlap s) = None \<and> ov_heap s' (the (wl_mSendOverlap s)) = None"
proof -
  obtain q ov ov' where q: "wl_mSendOverlap s = Some q" "ov_heap s (wl_mOverlap s) = Some ov" "ov_heap s q = Some ov'"
    "q \<noteq> wl_mOverlap s" "q \<noteq> null" "wl_mOverlap s \<noteq> null"
    using assms(1) by (auto simp: wl_inv_def)
  then show ?thesis
    using assms(2)
    by (simp add: WinClient_disconnect_def WinClient_destructor_def wl_sendOverlap_def WinSocket_closeSocket_def
        win_call_defs seqE_def bindE_def act_simps win_closes_def)
qed

theorem win_client_disconnect_then_destructor_closes_twice_witness:
  "\<exists>s'. seqE WinClient_disconnect WinClient_destructor sample_win_client = (Inr (), s') \<and>
     win_closes (w_trace s') = [21, 21]"
  using win_client_disconnect_then_destructor_closes_twice [OF sample_win_client_inv]
  by (auto simp: sample_win_client_def win_closes_def)

end
