(* ===== verification/Spec2Isabelle.thy ===== *)
theory Spec2Isabelle
  imports Pool_Threads Interfaces Client_Race Client_Threads Server_Thread_Faults Facades Server_Mailboxes Server_Types End_To_End Windows_Server_Calls Windows_Client_Facts
begin

text \<open>
  A model of C11Http: HTTP request and response objects, a pool of worker threads, and a TCP
  server and client, each behind a platform-independent class.

  \<^bold>\<open>The program and the theories.\<close>

  \<^item> \<open>C11_Prelude\<close>: results, faults and the state-passing actions that every operation is
    written in; the calculus \<open>wp\<close> for them, with the named collections \<open>act_simps\<close> (how an
    operation runs) and \<open>wp_simps\<close> (what it needs for a postcondition); \<open>keeps\<close>, an
    invariant kept by an operation, with rules for every way of composing operations; the
    sequences of the standard library that the program uses (\<open>remove_if\<close>,
    \<open>vector::insert\<close>). A fault is a \<open>std::runtime_error\<close>, a \<open>std::future_error\<close>,
    \<open>std::terminate\<close>, or undefined behaviour: undefined behaviour is a value of the model,
    so that a theorem can say that it does, or does not, occur.
  \<^item> \<open>Http_Objects\<close>: \<open>objects/\<close>.
  \<^item> \<open>Workers\<close>: \<open>workers/Worker\<close>. The thread function is a step function over its
    program points; \<open>worker_step\<close> interleaves it with the calls of other threads, and
    \<open>worker_reach\<close> is what can be reached.
  \<^item> \<open>Worker_Pool\<close>: \<open>workers/WorkerPool\<close>, with the index arithmetic at the widths of the
    source. Locale \<open>worker_slot\<close> is what a pool relies on of a worker; it is interpreted on
    the model of \<open>Worker\<close>.
  \<^item> \<open>Pool_Threads\<close>: the pool with its running threads and any number of callers, as a
    labelled step relation. A call of \<open>addWork\<close> is two steps, since the mutex covers only the
    choice of the worker; a fault in one thread stops the others.
  \<^item> \<open>Interfaces\<close>: what the abstract classes \<open>client/interface/IClient\<close> and
    \<open>server/interface/IServer\<close> implement themselves.
  \<^item> \<open>Posix_Kernel\<close>: the system calls. The kernel is a parameter: a record of functions from
    the trace of what the program did so far, and the arguments, to results. Actions append
    to the trace. Named hypotheses about the kernel (\<open>recv_fits\<close>, \<open>accept_fresh\<close>,
    \<open>select_subset\<close>) state documented behaviour of the calls; \<open>scripted\<close> is a kernel
    that has all of them, and the witnesses run on it. Two more are stated where they are used:
    \<open>fds_fresh\<close> in \<open>Server_Monitors\<close>, which \<open>scripted\<close> has too, and \<open>accept_needs_open\<close> in
    \<open>Server_Thread_Facts\<close>, whose witness runs on a variant of \<open>scripted\<close>.
  \<^item> \<open>Posix_Socket\<close>: \<open>server/posix/Socket\<close>. \<open>Posix_Client_Socket\<close>: the client library's
    own \<open>client/posix/Socket\<close>, and that its operations are the server's.
  \<^item> \<open>Outgoing_Queue\<close>: the locale of a buffer of outgoing bytes, interpreted on the server
    connection and on the client.
  \<^item> \<open>Posix_ServerConnection\<close>: \<open>server/posix/ServerConnection\<close>, objects on a heap.
  \<^item> \<open>Connection_Store\<close>: the locale of a container of connections that is searched by key
    and by identifier.
  \<^item> \<open>Posix_Connections\<close>: \<open>server/posix/Connections\<close>, the vector, the map, the read set
    and the largest descriptor; it interprets the locale.
  \<^item> \<open>Posix_Server\<close>: \<open>server/posix/Server\<close>, every operation and the select loop.
    \<open>Posix_Server_Calls\<close> holds what the operations do, \<open>Posix_Server_Loop\<close> the invariant
    of the loop.
  \<^item> \<open>Server_Monitors\<close>: what can be told of the posix server from its system calls alone.
    The locale \<open>server_monitor\<close> asks an observer of the trace for a few laws, one for every
    stretch of calls that the server makes as a whole, and proves that its judgement holds from
    the constructor through any run of the loop. It is interpreted twice. \<open>Server_Types\<close> is a
    type system for descriptors, in which a system call is typed in the context that the calls
    before it made. \<open>Server_Reports\<close> specifies the user's callbacks from the results of system
    calls, without the server's state.
  \<^item> \<open>Posix_Client\<close> and \<open>Posix_Client_Facts\<close>: \<open>client/posix/Client\<close>.
    \<open>Client_Reports\<close> specifies its callbacks in the same way.
  \<^item> \<open>End_To_End\<close>: a posix client and a posix server, each on a kernel of its own, joined by
    \<open>tcp_link\<close>: the bytes received at one end are a prefix of those taken at the other. Nothing
    is assumed of when bytes arrive or how they are cut into pieces. The kernels of its
    witnesses are variants of \<open>scripted\<close>.
  \<^item> \<open>Facades\<close>: \<open>server/Server\<close> and \<open>client/Client\<close>.
  \<^item> \<open>Server_Race\<close> and \<open>Client_Race\<close>: the statements of \<open>send\<close> and \<open>sendDataToServer\<close>
    interleaved with those of the loop's write branch.
  \<^item> \<open>Server_Threads\<close>: the whole posix loop and any number of threads that call \<open>send\<close> and
    \<open>shutdown\<close>, one statement at a time, under any schedule; only the read branch of a
    descriptor (an \<open>accept\<close> with its handshake, or a \<open>receive\<close> with what follows it) is one
    step as a whole. Taken without interruption the steps are the operations of
    \<open>Posix_Server\<close>. \<open>Server_Thread_Facts\<close> holds the two invariants of every schedule, over a
    history of the bytes queued and the bytes that the trace hands to \<open>::send\<close>,
    \<open>Server_Thread_Faults\<close> two schedules that end in undefined behaviour. \<open>Client_Threads\<close>: the
    same for the posix client, with threads that send and disconnect.
  \<^item> \<open>Server_Mailboxes\<close>: the abstract specification of the posix server for the threads that
    send, a mailbox of pending bytes for every identifier; the calls of other threads and the
    write branch of the loop refine it, and the steps of \<open>Server_Race\<close> run in order are the
    operations.
  \<^item> \<open>Winsock_Kernel\<close>: the Winsock calls, a parameter like the posix ones. Overlapped
    operations finish later: a wait says which completion routines run and what they are told.
  \<^item> \<open>Windows_Socket\<close>, \<open>Windows_Overlap\<close>, \<open>Windows_ServerConnection\<close>,
    \<open>Windows_Connections\<close>: the files of these names under \<open>server/windows\<close>; connections and
    overlapped structures live on two heaps that point to each other. The container is the
    second interpretation of \<open>connection_store\<close>.
  \<^item> \<open>Windows_Server\<close>: \<open>server/windows/Server\<close>, with its completion routines.
    \<open>Windows_Server_Loop\<close> holds the invariant of the loop and how shutting down runs,
    \<open>Windows_Server_Sends\<close> what messages and their completions do, \<open>Windows_Server_Calls\<close>
    construction, destruction, data and disconnects. The routine that registers a new client,
    \<open>ConnectionInformationReceivedFromClient\<close>, is defined nowhere; it is a parameter.
    \<open>routine_ok\<close> is what is relied on of it: that it is a program over the public interface of
    the server (\<open>by_interface\<close>) that adds only connections not added yet, as \<open>Server.h\<close> documents
    \<open>addConnection\<close>. That such a program keeps the invariant is proved.
  \<^item> \<open>Windows_Client\<close> and \<open>Windows_Client_Facts\<close>: \<open>client/windows/Client\<close>.
    \<open>Windows_Client_Overlap\<close>: the client library's own \<open>Socket\<close>, \<open>Overlap\<close> and buffer size,
    and that their operations are the server's.

  \<^bold>\<open>State.\<close> The state of a component is a record that extends that of the component it
  uses: \<open>io\<close> (the trace), \<open>heap_io\<close> (the connections), \<open>conns_io\<close> (the container),
  \<open>server\<close>, \<open>tcp_server\<close>; \<open>io\<close>, \<open>client\<close>, \<open>tcp_client\<close>; and for Winsock \<open>win_io\<close>,
  \<open>ov_io\<close> (the overlapped structures), \<open>wconn_io\<close>, \<open>wconns_io\<close>, \<open>win_server\<close>, and \<open>ov_io\<close>,
  \<open>win_client\<close>. Every field has the name of the member it stands for, with a prefix where two classes share one. Operations are
  polymorphic in the extension, so that those of a part are operations of the whole.

  \<^bold>\<open>Loops.\<close> A run of \<open>waitForEvents\<close> is indexed by a schedule: for every iteration, the
  calls that other threads complete while the loop is blocked in \<open>select\<close>. The loop reads
  every element of the schedule or returns before; no fuel is lost, because a schedule of any
  length is allowed, and a loop that is out of schedule is one that waits. The theorems hold
  for every schedule. The Winsock loops wait in a loop of their own, so there a schedule has
  one list of waits for every turn, and one list of calls for every wait. The recursion of the
  Winsock client's receive takes fuel, one unit for every piece of data that is there at once,
  and a theorem of \<open>Windows_Client_Facts\<close> shows how much is enough. What
  else may interleave, between two statements of the posix loops, is the subject of \<open>Server_Race\<close>,
  \<open>Client_Race\<close>, \<open>Server_Threads\<close> and \<open>Client_Threads\<close>; a schedule there says whose
  statement is next, and every list of labels is one. The step relation of \<open>Pool_Threads\<close> has
  no bound; that its threads stop is a theorem.

  \<^bold>\<open>What the properties show.\<close> The invariants of the four loops and the conditions under
  which they stay clear of undefined behaviour; that a posix server, in a whole life, makes its
  system calls on descriptors of the right kind (three kinds of call apart), and calls back its
  user exactly as the results of the calls require, in runs that have not ended in undefined
  behaviour and whose other threads call while the loop is blocked; that the bytes a user hears at one end of
  a connection are a prefix of those that the other end's kernel took, but for the four bytes of
  the handshake; that a pool with its threads neither loses nor repeats a work, and that its
  threads come to an end (where the flag \<open>mShutdown\<close>, which no constructor initialises, happens
  to be false); what the operations do on every branch; the bounds of the index arithmetic of
  the pool; lookups after insertions and removals; and,
  as theorems with concrete witnesses, the ways in which the program goes wrong: a worker
  that takes one work in its life, messages sent in reverse, the wrong connection removed,
  descriptors leaked or closed twice, a wake-up byte that is never read, an address that is
  cleared before it is used; on Winsock, completions reported for the wrong client, overlapped
  structures read after they were freed or before they exist, and a client that receives once;
  an identifier that depends on how the stream is cut into pieces; a client whose loop writes
  what is not there when it races with a sender. Of the posix server with its senders: under
  every schedule no byte is lost or repeated on its way to the kernel, and no freed connection
  is used as long as no peer leaves; when one leaves under a sender, or the loop gets between
  the two statements of \<open>send\<close>, the behaviour is undefined. The client loses no byte either;
  its socket is closed twice when two threads that disconnect both test the flag first.
  The refinement of the mailboxes is a property of \<open>Server_Mailboxes\<close>. Shutting down closes all
  connections on Winsock and none on posix.

  \<^bold>\<open>Not modelled.\<close> What user code does inside a callback; effects of a work's function
  besides the response it returns or that it throws; memory exhaustion; the widths of lengths
  that are bounded by the memory of a vector. On Winsock, when a completion routine runs is up
  to the wait that is modelled; calls of other threads between two statements of the
  Winsock loops are not interleaved, nor is a \<open>broadcast\<close> with the statements of the posix loop.
  A statement is atomic: what two threads do inside one container at once is not modelled.
  The pure virtual operations of the classes under \<open>server/interface\<close> and
  \<open>client/interface\<close>, which have no body. \<open>client/windows/Callback.h\<close> declares calls without
  the identifier that \<open>Client.cpp\<close> passes; the model has the calls that the source makes.
\<close>

end
